(* ===== verification/Prelude.thy ===== *)
theory Prelude
  imports Main "HOL-Library.Word"
begin

unbundle bit_operations_syntax

text \<open>
  Shared vocabulary of the development: the machine integers of the C++ sources as words,
  the result type that carries assertion failures, exceptions and exhausted fuel, the little
  endian byte images that \<^verbatim>\<open>memcpy\<close> of an integer produces on the target, and the generic
  lemmas on results, lists and words that the component theories use.
\<close>

section \<open>Machine integers\<close>

type_synonym u8 = "8 word"
type_synonym u16 = "16 word"
type_synonym u32 = "32 word"
type_synonym u64 = "64 word"
type_synonym bytes = "u8 list"

named_theorems molecube_defs "definitions that proofs unfold together"
named_theorems bank_simps "facts about the fixed size TTL bank and DDS channel arrays"

section \<open>Results\<close>

text \<open>
  A C++ call either returns, or ends the program: a failed \<^verbatim>\<open>assert\<close> or \<^verbatim>\<open>abort\<close>, an access
  outside a fixed size array (undefined behaviour, an error here), or an exception nobody catches.
  \<open>OutOfFuel\<close> is the value of a polling loop that was not given enough iterations.
\<close>

datatype error =
    AssertFail
  | Abort
  | OutOfRange
  | RuntimeError string
  | UnderflowError string
  | OutOfFuel

type_synonym 'a result = "error + 'a"

definition bindR :: "'a result \<Rightarrow> ('a \<Rightarrow> 'b result) \<Rightarrow> 'b result" where
  "bindR m f = (case m of Inl e \<Rightarrow> Inl e | Inr x \<Rightarrow> f x)"

definition assertR :: "bool \<Rightarrow> unit result" where
  "assertR b = (if b then Inr () else Inl AssertFail)"

text \<open>Array access with the bounds written out.\<close>

definition nthR :: "'a list \<Rightarrow> nat \<Rightarrow> 'a result" where
  "nthR xs i = (if i < length xs then Inr (xs ! i) else Inl OutOfRange)"

definition updR :: "'a list \<Rightarrow> nat \<Rightarrow> 'a \<Rightarrow> 'a list result" where
  "updR xs i v = (if i < length xs then Inr (xs[i := v]) else Inl OutOfRange)"

text \<open>A loop over a list of arguments that stops at the first error.\<close>

fun foldR :: "('a \<Rightarrow> 's \<Rightarrow> 's result) \<Rightarrow> 'a list \<Rightarrow> 's \<Rightarrow> 's result" where
  "foldR f [] s = Inr s"
| "foldR f (x # xs) s = bindR (f x s) (foldR f xs)"

lemma bindR_simps [simp]:
  "bindR (Inl e) f = Inl e"
  "bindR (Inr x) f = f x"
  by (simp_all add: bindR_def)

lemma bindR_eq_Inr [simp]: "bindR m f = Inr y \<longleftrightarrow> (\<exists>x. m = Inr x \<and> f x = Inr y)"
  by (cases m) auto

lemma bindR_assoc: "bindR (bindR m f) g = bindR m (\<lambda>x. bindR (f x) g)"
  by (cases m) auto

lemma assertR_True [simp]: "assertR True = Inr ()"
  by (simp add: assertR_def)

lemma assertR_False [simp]: "assertR False = Inl AssertFail"
  by (simp add: assertR_def)

lemma assertR_eq_Inr [simp]: "assertR b = Inr u \<longleftrightarrow> b"
  by (simp add: assertR_def)

lemma nthR_Inr [simp]: "i < length xs \<Longrightarrow> nthR xs i = Inr (xs ! i)"
  by (simp add: nthR_def)

lemma nthR_eq_Inr: "nthR xs i = Inr v \<longleftrightarrow> i < length xs \<and> v = xs ! i"
  by (auto simp: nthR_def)

lemma updR_Inr [simp]: "i < length xs \<Longrightarrow> updR xs i v = Inr (xs[i := v])"
  by (simp add: updR_def)

lemma updR_eq_Inr: "updR xs i v = Inr ys \<longleftrightarrow> i < length xs \<and> ys = xs[i := v]"
  by (auto simp: updR_def)

lemma foldR_append: "foldR f (xs @ ys) s = bindR (foldR f xs s) (foldR f ys)"
proof (induction xs arbitrary: s)
  case (Cons x xs)
  then show ?case by (cases "f x s") simp_all
qed simp

text \<open>An invariant that every step of a loop keeps is kept by the loop.\<close>

lemma foldR_invariant:
  assumes "\<And>x s s'. x \<in> set xs \<Longrightarrow> I s \<Longrightarrow> f x s = Inr s' \<Longrightarrow> I s'"
    and "I s" and "foldR f xs s = Inr s'"
  shows "I s'"
  using assms by (induction xs arbitrary: s) auto

lemma foldR_total:
  assumes "\<And>x s. x \<in> set xs \<Longrightarrow> I s \<Longrightarrow> \<exists>s'. f x s = Inr s' \<and> I s'"
    and "I s"
  shows "\<exists>s'. foldR f xs s = Inr s' \<and> I s'"
  using assms
proof (induction xs arbitrary: s)
  case Nil
  then show ?case by simp
next
  case (Cons x xs)
  then obtain s1 where s1: "f x s = Inr s1" "I s1"
    by (meson list.set_intros(1))
  then show ?case
    using Cons.IH [of s1] Cons.prems(1) by auto
qed

text \<open>
  \<open>okR m Q\<close>: the call \<open>m\<close> cannot fail, and what it returns satisfies \<open>Q\<close>. A polling loop that has
  not come to its end yet counts as not having failed.
\<close>

definition okR :: "'a result \<Rightarrow> ('a \<Rightarrow> bool) \<Rightarrow> bool" where
  "okR m Q = (case m of Inl e \<Rightarrow> e = OutOfFuel | Inr x \<Rightarrow> Q x)"

lemma okR_simps [simp]: "okR (Inr x) Q = Q x" "okR (Inl e) Q = (e = OutOfFuel)"
  by (simp_all add: okR_def)

lemma okR_bind: "okR m R \<Longrightarrow> (\<And>x. m = Inr x \<Longrightarrow> R x \<Longrightarrow> okR (f x) Q) \<Longrightarrow> okR (bindR m f) Q"
  by (cases m) simp_all

lemma okR_weaken: "okR m R \<Longrightarrow> (\<And>x. m = Inr x \<Longrightarrow> R x \<Longrightarrow> Q x) \<Longrightarrow> okR m Q"
  by (cases m) simp_all

lemma okR_total: "\<exists>x. m = Inr x \<and> Q x \<Longrightarrow> okR m Q"
  by auto

lemma okR_assert [intro]: "b \<Longrightarrow> okR (assertR b) (\<lambda>_. True)"
  by simp

lemma okR_foldR:
  assumes "\<And>x s. x \<in> set xs \<Longrightarrow> I s \<Longrightarrow> okR (f x s) I" and "I s"
  shows "okR (foldR f xs s) I"
  using assms
proof (induction xs arbitrary: s)
  case (Cons x xs)
  then show ?case by (auto intro: okR_bind [of _ I])
qed simp

text \<open>\<open>totR m Q\<close>: the call returns, and its result satisfies \<open>Q\<close>.\<close>

definition totR :: "'a result \<Rightarrow> ('a \<Rightarrow> bool) \<Rightarrow> bool" where
  "totR m Q \<longleftrightarrow> (\<exists>x. m = Inr x \<and> Q x)"

lemma totR_simps [simp]: "totR (Inr x) Q = Q x" "\<not> totR (Inl e) Q"
  by (simp_all add: totR_def)

lemma totR_bind: "totR m R \<Longrightarrow> (\<And>x. m = Inr x \<Longrightarrow> R x \<Longrightarrow> totR (f x) Q) \<Longrightarrow> totR (bindR m f) Q"
  by (auto simp: totR_def)

lemma totR_weaken: "totR m R \<Longrightarrow> (\<And>x. m = Inr x \<Longrightarrow> R x \<Longrightarrow> Q x) \<Longrightarrow> totR m Q"
  by (auto simp: totR_def)

lemma totR_okR: "totR m Q \<Longrightarrow> okR m Q"
  by (auto simp: totR_def)

section \<open>Little endian byte images\<close>

text \<open>
  \<open>le_bytes n w\<close> is what \<^verbatim>\<open>memcpy(dst, &w, n)\<close> writes; \<open>of_le\<close> is the integer that
  \<^verbatim>\<open>memcpy(&w, src, n)\<close> reads back.
\<close>

primrec le_bytes :: "nat \<Rightarrow> 'a::len word \<Rightarrow> bytes" where
  "le_bytes 0 w = []"
| "le_bytes (Suc n) w = ucast w # le_bytes n (drop_bit 8 w)"

primrec of_le :: "bytes \<Rightarrow> 'a::len word" where
  "of_le [] = 0"
| "of_le (b # bs) = (ucast b OR push_bit 8 (of_le bs))"

text \<open>Reading \<open>n\<close> bytes at an offset; a read that leaves the buffer is an error.\<close>

definition read_le :: "nat \<Rightarrow> bytes \<Rightarrow> nat \<Rightarrow> 'a::len word result" where
  "read_le n bs off =
     (if off + n \<le> length bs then Inr (of_le (take n (drop off bs))) else Inl OutOfRange)"

lemma length_le_bytes [simp]: "length (le_bytes n w) = n"
  by (induction n arbitrary: w) auto

lemma bit_of_le:
  fixes bs :: bytes
  shows "bit (of_le bs :: 'a::len word) k \<longleftrightarrow>
     k < LENGTH('a) \<and> k div 8 < length bs \<and> bit (bs ! (k div 8)) (k mod 8)"
proof (induction bs arbitrary: k)
  case Nil
  then show ?case by simp
next
  case (Cons b bs)
  show ?case
  proof (cases "k < 8")
    case True
    then show ?thesis
      by (auto simp: bit_simps)
  next
    case False
    then obtain m where m: "k = m + 8"
      by (metis add.commute le_Suc_ex not_less)
    moreover have "(m + 8) div 8 = Suc (m div 8)"
      by simp
    ultimately show ?thesis
      using Cons.IH [of m] by (auto simp: bit_simps dest: bit_imp_le_length)
  qed
qed

lemma nth_le_bytes: "i < n \<Longrightarrow> le_bytes n w ! i = ucast (drop_bit (8 * i) w)"
proof (induction n arbitrary: w i)
  case 0
  then show ?case by simp
next
  case (Suc n)
  then show ?case
    by (cases i) (auto simp: drop_bit_drop_bit ac_simps)
qed

lemma of_le_le_bytes:
  fixes w :: "'a::len word"
  assumes "LENGTH('a) \<le> 8 * n"
  shows "of_le (le_bytes n w) = w"
proof (rule bit_word_eqI)
  fix k
  assume k: "k < LENGTH('a)"
  then have "k div 8 < n"
    using assms by linarith
  then show "bit (of_le (le_bytes n w) :: 'a word) k = bit w k"
    using k by (simp add: bit_of_le nth_le_bytes bit_simps)
qed

lemma le_bytes_of_le:
  fixes bs :: bytes
  assumes "8 * length bs \<le> LENGTH('a)"
  shows "le_bytes (length bs) (of_le bs :: 'a::len word) = bs"
proof (rule nth_equalityI)
  show "length (le_bytes (length bs) (of_le bs :: 'a word)) = length bs"
    by simp
next
  fix i
  assume "i < length (le_bytes (length bs) (of_le bs :: 'a word))"
  then have i: "i < length bs" by simp
  show "le_bytes (length bs) (of_le bs :: 'a word) ! i = bs ! i"
  proof (rule bit_word_eqI)
    fix k
    assume k: "k < LENGTH(8)"
    have "8 * i + k < LENGTH('a)"
      using i k assms by simp
    moreover have "(8 * i + k) div 8 = i" "(8 * i + k) mod 8 = k"
      using k by simp_all
    ultimately show "bit (le_bytes (length bs) (of_le bs :: 'a word) ! i) k = bit (bs ! i) k"
      using i k by (simp add: nth_le_bytes bit_simps bit_of_le)
  qed
qed

lemma of_le_le_bytes_std [simp]:
  "of_le (le_bytes 4 (w :: u32)) = w"
  "of_le (le_bytes 8 (v :: u64)) = v"
  by (simp_all add: of_le_le_bytes)

lemma read_le_append [simp]:
  "read_le n (le_bytes n w @ rest) 0 = Inr (of_le (le_bytes n w))"
  by (simp add: read_le_def)

lemma read_le_skip: "off \<ge> length pre \<Longrightarrow> read_le n (pre @ bs) off = read_le n bs (off - length pre)"
  by (auto simp: read_le_def)

section \<open>Widening and narrowing\<close>

lemma ucast_ucast_16_32 [simp]: "ucast (ucast (x :: u16) :: u32) = x"
  by (rule bit_word_eqI) (simp add: bit_simps)

lemma ucast_ucast_8_32 [simp]: "ucast (ucast (x :: u8) :: u32) = x"
  by (rule bit_word_eqI) (simp add: bit_simps)

end
