(* ===== verification/Filter_Queue.thy ===== *)
theory Filter_Queue
  imports Prelude
begin

text \<open>
  \<^verbatim>\<open>NaCs::FilterQueue<T>\<close>, the queue of nacs-utils through which requests travel from the
  frontend to the controller (the filter) and back. Its source is not in the repository, so it is
  a parameter: the record \<open>fqueue_ops\<close> holds the members that \<^verbatim>\<open>lib/ctrl_iface.cpp\<close> calls, and
  \<open>fqueue_laws\<close> states what that code relies on, in terms of two views of a queue: the requests
  that went through the filter and wait to be popped (\<open>fin\<close>) and those the filter has not
  finished (\<open>pend\<close>). Elements are pointers, here object identities.
\<close>

type_synonym addr = nat

record 'q fqueue_ops =
  fq_push :: "addr \<Rightarrow> 'q \<Rightarrow> 'q"
  fq_pop :: "'q \<Rightarrow> addr option \<times> 'q"
  fq_peek :: "'q \<Rightarrow> addr option \<times> bool"
  fq_get_filter :: "'q \<Rightarrow> addr option"
  fq_forward_filter :: "'q \<Rightarrow> 'q"
  fq_peek_filter :: "'q \<Rightarrow> addr option"
  fq_items :: "'q \<Rightarrow> addr list"

definition head_opt :: "'a list \<Rightarrow> 'a option" where
  "head_opt xs = (case xs of [] \<Rightarrow> None | x # _ \<Rightarrow> Some x)"

lemma head_opt_simps [simp]: "head_opt [] = None" "head_opt (x # xs) = Some x"
  by (simp_all add: head_opt_def)

lemma head_opt_eq_None [simp]: "head_opt xs = None \<longleftrightarrow> xs = []"
  by (cases xs) simp_all

lemma head_opt_eq_Some: "head_opt xs = Some x \<longleftrightarrow> (\<exists>ys. xs = x # ys)"
  by (cases xs) auto

definition fqueue_laws ::
  "'q fqueue_ops \<Rightarrow> ('q \<Rightarrow> addr list) \<Rightarrow> ('q \<Rightarrow> addr list) \<Rightarrow> bool" where
  "fqueue_laws Q fin pend \<longleftrightarrow>
     (\<forall>a q. fin (fq_push Q a q) = fin q \<and> pend (fq_push Q a q) = pend q @ [a]) \<and>
     (\<forall>q. fst (fq_pop Q q) = head_opt (fin q) \<and> fin (snd (fq_pop Q q)) = tl (fin q) \<and>
        pend (snd (fq_pop Q q)) = pend q) \<and>
     (\<forall>q. fq_peek Q q = (head_opt (fin q @ pend q), fin q \<noteq> [])) \<and>
     (\<forall>q. fq_get_filter Q q = head_opt (pend q)) \<and>
     (\<forall>q. fq_peek_filter Q q = head_opt (pend q)) \<and>
     (\<forall>q a as. pend q = a # as \<longrightarrow>
        fin (fq_forward_filter Q q) = fin q @ [a] \<and> pend (fq_forward_filter Q q) = as) \<and>
     (\<forall>q. fq_items Q q = fin q @ pend q)"

lemma fqueue_lawsD:
  assumes "fqueue_laws Q fin pend"
  shows "fin (fq_push Q a q) = fin q" "pend (fq_push Q a q) = pend q @ [a]"
    "fst (fq_pop Q q) = head_opt (fin q)" "fin (snd (fq_pop Q q)) = tl (fin q)"
    "pend (snd (fq_pop Q q)) = pend q"
    "fq_peek Q q = (head_opt (fin q @ pend q), fin q \<noteq> [])"
    "fq_get_filter Q q = head_opt (pend q)" "fq_peek_filter Q q = head_opt (pend q)"
    "pend q = b # bs \<Longrightarrow> fin (fq_forward_filter Q q) = fin q @ [b]"
    "pend q = b # bs \<Longrightarrow> pend (fq_forward_filter Q q) = bs"
    "fq_items Q q = fin q @ pend q"
  using assms by (simp_all add: fqueue_laws_def)

text \<open>A pair of lists satisfies the laws, so they can hold together.\<close>

definition list_fqueue :: "(addr list \<times> addr list) fqueue_ops" where
  "list_fqueue = \<lparr>
     fq_push = (\<lambda>a (f, p). (f, p @ [a])),
     fq_pop = (\<lambda>(f, p). (head_opt f, (tl f, p))),
     fq_peek = (\<lambda>(f, p). (head_opt (f @ p), f \<noteq> [])),
     fq_get_filter = (\<lambda>(f, p). head_opt p),
     fq_forward_filter = (\<lambda>(f, p). (f @ take 1 p, tl p)),
     fq_peek_filter = (\<lambda>(f, p). head_opt p),
     fq_items = (\<lambda>(f, p). f @ p)\<rparr>"

lemma list_fqueue_laws: "fqueue_laws list_fqueue fst snd"
  by (auto simp: fqueue_laws_def list_fqueue_def)

end
