(* ===== verification/Pulser_Common.thy ===== *)
theory Pulser_Common
  imports Prelude
begin

text \<open>
  \<^verbatim>\<open>lib/pulser_common.h\<close>: the number of TTL banks and the hardware version with its two
  comparisons. The theory also fixes what both pulser classes share without a header of their
  own: the calls that issue one FPGA instruction (the \<^verbatim>\<open>template<bool checked>\<close> members of
  \<^verbatim>\<open>Pulser\<close> and \<^verbatim>\<open>DummyPulser\<close>) as a datatype, the instruction times of
  \<^verbatim>\<open>Seq::Zynq::PulseTime\<close> (a header of nacs-seq, a parameter here), and the record of
  members that \<^verbatim>\<open>template<typename Pulser> class Controller\<close> uses of its template argument.
\<close>

section \<open>Constants and versions\<close>

definition NUM_TTL_BANKS :: nat where
  "NUM_TTL_BANKS = 8"

definition max_wait_t :: u32 where
  "max_wait_t = push_bit 24 1 - 1"

record pulser_version_t =
  major :: u32
  minor :: u32

definition check_compatible :: "pulser_version_t \<Rightarrow> pulser_version_t \<Rightarrow> bool" where
  "check_compatible self ver \<longleftrightarrow> major self = major ver \<and> minor self \<ge> minor ver"

definition check_at_least :: "pulser_version_t \<Rightarrow> pulser_version_t \<Rightarrow> bool" where
  "check_at_least self ver =
     (if major self > major ver then True
      else if major self < major ver then False
      else minor self \<ge> minor ver)"

text \<open>Decimal digits, as \<^verbatim>\<open>std::to_string\<close> prints an unsigned integer.\<close>

fun dec_string :: "nat \<Rightarrow> string" where
  "dec_string n =
     (if n < 10 then [char_of (48 + n)]
      else dec_string (n div 10) @ [char_of (48 + n mod 10)])"

declare dec_string.simps [simp del]

definition to_string :: "pulser_version_t \<Rightarrow> string" where
  "to_string ver = dec_string (unat (major ver)) @ ''.'' @ dec_string (unat (minor ver))"

section \<open>Instruction times\<close>

text \<open>The constants of \<^verbatim>\<open>Seq::Zynq::PulseTime\<close> that the sources name, in FPGA steps of 10 ns.\<close>

record pulse_times =
  PT_Min :: u32
  PT_Min2 :: u32
  PT_Clock :: u32
  PT_DAC :: u32
  PT_Clear :: u32
  PT_DDSFreq :: u32
  PT_DDSAmp :: u32
  PT_DDSPhase :: u32
  PT_DDSReset :: u32
  PT_LoopBack :: u32

section \<open>Instruction calls\<close>

text \<open>One constructor per member that issues an instruction, in the order of the class.\<close>

datatype pulse =
    P_ttl bool u32 u32 int
  | P_clock bool u8
  | P_dac bool u8 u16
  | P_wait bool u32
  | P_wait_trigger bool u8 bool u32
  | P_clear_error
  | P_dds_set_freq bool int u32
  | P_dds_set_amp bool int u16
  | P_dds_set_phase bool int u16
  | P_dds_reset bool int
  | P_loopback bool u32
  | P_dds_get_phase bool int
  | P_dds_get_amp bool int
  | P_dds_get_freq bool int

text \<open>The arguments that the assertions of the two classes accept.\<close>

definition bank_ok :: "int \<Rightarrow> bool" where
  "bank_ok bank \<longleftrightarrow> bank \<ge> 0 \<and> bank < int NUM_TTL_BANKS"

definition NDDS :: nat where
  "NDDS = 22"

definition chn_ok :: "int \<Rightarrow> bool" where
  "chn_ok i \<longleftrightarrow> 0 \<le> i \<and> i < int NDDS"

fun valid_pulse :: "pulse \<Rightarrow> bool" where
  "valid_pulse (P_ttl c v t bank) \<longleftrightarrow> t \<le> max_wait_t \<and> bank_ok bank"
| "valid_pulse (P_wait c t) \<longleftrightarrow> t \<le> max_wait_t"
| "valid_pulse (P_wait_trigger c chn raise t) \<longleftrightarrow> t \<le> max_wait_t"
| "valid_pulse (P_dds_set_freq c i v) \<longleftrightarrow> chn_ok i"
| "valid_pulse (P_dds_set_amp c i a) \<longleftrightarrow> chn_ok i"
| "valid_pulse (P_dds_set_phase c i a) \<longleftrightarrow> chn_ok i"
| "valid_pulse (P_dds_reset c i) \<longleftrightarrow> chn_ok i"
| "valid_pulse (P_dds_get_phase c i) \<longleftrightarrow> chn_ok i"
| "valid_pulse (P_dds_get_amp c i) \<longleftrightarrow> chn_ok i"
| "valid_pulse (P_dds_get_freq c i) \<longleftrightarrow> chn_ok i"
| "valid_pulse _ \<longleftrightarrow> True"

text \<open>The time an instruction takes, and whether it pushes a result.\<close>

fun pulse_time :: "pulse_times \<Rightarrow> pulse \<Rightarrow> u32" where
  "pulse_time pt (P_ttl c v t bank) = t"
| "pulse_time pt (P_clock c d) = PT_Clock pt"
| "pulse_time pt (P_dac c d v) = PT_DAC pt"
| "pulse_time pt (P_wait c t) = t"
| "pulse_time pt (P_wait_trigger c chn raise t) = t"
| "pulse_time pt P_clear_error = PT_Clear pt"
| "pulse_time pt (P_dds_set_freq c i v) = PT_DDSFreq pt"
| "pulse_time pt (P_dds_set_amp c i v) = PT_DDSAmp pt"
| "pulse_time pt (P_dds_set_phase c i v) = PT_DDSPhase pt"
| "pulse_time pt (P_dds_reset c i) = PT_DDSReset pt"
| "pulse_time pt (P_loopback c v) = PT_LoopBack pt"
| "pulse_time pt (P_dds_get_phase c i) = PT_DDSPhase pt"
| "pulse_time pt (P_dds_get_amp c i) = PT_DDSAmp pt"
| "pulse_time pt (P_dds_get_freq c i) = PT_DDSFreq pt"

section \<open>The members the controller uses\<close>

record 'p pulser_ops =
  p_pulse :: "pulse \<Rightarrow> 'p \<Rightarrow> 'p result"
  p_ttl_himask :: "int \<Rightarrow> 'p \<Rightarrow> (u32 \<times> 'p) result"
  p_ttl_lomask :: "int \<Rightarrow> 'p \<Rightarrow> (u32 \<times> 'p) result"
  p_set_ttl_himask :: "u32 \<Rightarrow> int \<Rightarrow> 'p \<Rightarrow> 'p result"
  p_set_ttl_lomask :: "u32 \<Rightarrow> int \<Rightarrow> 'p \<Rightarrow> 'p result"
  p_cur_ttl :: "int \<Rightarrow> 'p \<Rightarrow> (u32 \<times> 'p) result"
  p_cur_clock :: "'p \<Rightarrow> (u8 \<times> 'p) result"
  p_timing_ok :: "'p \<Rightarrow> (bool \<times> 'p) result"
  p_is_finished :: "'p \<Rightarrow> (bool \<times> 'p) result"
  p_release_hold :: "'p \<Rightarrow> 'p result"
  p_set_hold :: "'p \<Rightarrow> 'p result"
  p_toggle_init :: "'p \<Rightarrow> 'p result"
  p_try_get_result :: "'p \<Rightarrow> (u32 option \<times> 'p) result"
  p_check_dds :: "int \<Rightarrow> bool \<Rightarrow> 'p \<Rightarrow> (bool \<times> 'p) result"
  p_dds_exists :: "int \<Rightarrow> 'p \<Rightarrow> (bool \<times> 'p) result"
  p_dump_dds :: "int \<Rightarrow> 'p \<Rightarrow> (string \<times> 'p) result"
  p_hw_version :: "'p \<Rightarrow> (pulser_version_t \<times> 'p) result"
  p_set_dds_timing1 :: "u32 \<Rightarrow> u32 \<Rightarrow> u32 \<Rightarrow> u32 \<Rightarrow> u32 \<Rightarrow> 'p \<Rightarrow> 'p result"
  p_get_dds_timing1 :: "'p \<Rightarrow> (u8 list \<times> 'p) result"

section \<open>Facts about versions\<close>

lemma check_at_least_lex:
  "check_at_least a b \<longleftrightarrow>
     major b < major a \<or> major b = major a \<and> minor b \<le> minor a"
  by (auto simp: check_at_least_def)

lemma check_compatible_iff:
  "check_compatible a b \<longleftrightarrow> check_at_least a b \<and> major a = major b"
  by (auto simp: check_compatible_def check_at_least_lex)

lemma check_at_least_trans:
  "check_at_least a b \<Longrightarrow> check_at_least b c \<Longrightarrow> check_at_least a c"
  by (auto simp: check_at_least_lex)

lemma check_at_least_total: "check_at_least a b \<or> check_at_least b a"
  by (auto simp: check_at_least_lex)

lemma max_wait_t_eq: "max_wait_t = 0xffffff"
  by (simp add: max_wait_t_def)

lemmas [bank_simps] = NUM_TTL_BANKS_def NDDS_def bank_ok_def chn_ok_def

section \<open>The packed time and bank word\<close>

lemma take_bit_max_wait_t:
  assumes "t \<le> max_wait_t"
  shows "take_bit 24 t = t" "drop_bit 24 t = 0"
proof -
  have t: "unat t < 2 ^ 24"
    using assms by (simp add: max_wait_t_eq word_le_nat_alt)
  then show "take_bit 24 t = t"
    by (simp add: word_unat_eq_iff unsigned_take_bit_eq take_bit_nat_eq_self)
  show "drop_bit 24 t = 0"
    using t by (simp add: drop_bit_eq_div word_unat_eq_iff unat_div unat_word_ariths)
qed

lemma bank_cases:
  assumes "bank_ok b"
  obtains "b = 0" | "b = 1" | "b = 2" | "b = 3" | "b = 4" | "b = 5" | "b = 6" | "b = 7"
  using assms by (force simp: bank_simps)

lemma ttl_word_bank:
  assumes "t \<le> max_wait_t" and "bank_ok b"
  shows "drop_bit 24 (t OR push_bit 24 (word_of_int b)) = (word_of_int b :: u32)"
  using assms(2)
  by (cases rule: bank_cases) (simp_all add: drop_bit_or take_bit_max_wait_t [OF assms(1)])

lemma ttl_word_time:
  assumes "t \<le> max_wait_t"
  shows "(t OR push_bit 24 w) AND (push_bit 24 1 - 1) = (t :: u32)"
proof -
  have "(t OR push_bit 24 w) AND (push_bit 24 1 - 1) = take_bit 24 (t OR push_bit 24 w)"
    by (simp add: take_bit_eq_mask mask_eq_exp_minus_1)
  also have "\<dots> = t"
    by (simp add: take_bit_or take_bit_max_wait_t [OF assms] take_bit_push_bit)
  finally show ?thesis .
qed

lemma unat_word_of_int_small [simp]:
  "0 \<le> i \<Longrightarrow> i < 2 ^ 32 \<Longrightarrow> unat (word_of_int i :: u32) = nat i"
  by (simp add: unsigned_of_int take_bit_int_eq_self)

end
