(* ===== verification/Ctrl_Iface.thy ===== *)
theory Ctrl_Iface
  imports Filter_Queue Pulser_Common
begin

unbundle bit_operations_syntax

text \<open>
  \<^verbatim>\<open>lib/ctrl_iface.h\<close> and \<^verbatim>\<open>lib/ctrl_iface.cpp\<close>: the frontend half of the controller. The state
  is the record \<open>ctrl_iface\<close>; \<^verbatim>\<open>class Controller\<close> derives from it, and its model extends the
  record, so every operation here works on any extension. Requests live in a store indexed by
  object identity (what the pointers in the queues point to). Callbacks and notification objects
  are opaque values; calling one appends an entry to \<open>m_log\<close>, in the order of the calls. The two
  virtual functions that the controller overrides are the arguments \<open>cset\<close> and \<open>cget\<close>.
  \<^verbatim>\<open>getTime()\<close> is the next entry of \<open>m_times\<close>.
\<close>

section \<open>Data\<close>

record DDSState =
  ds_freq :: u32
  ds_amp :: u16
  ds_amp_enable :: bool
  ds_phase_enable :: bool
  ds_phase :: u16

definition DDSState_init :: DDSState where
  "DDSState_init = \<lparr>ds_freq = -1, ds_amp = 0, ds_amp_enable = False, ds_phase_enable = False,
     ds_phase = 0\<rparr>"

datatype ReqOP = TTL | DDSFreq | DDSAmp | DDSPhase | DDSReset | Clock

fun op_num :: "ReqOP \<Rightarrow> u32" where
  "op_num TTL = 0"
| "op_num DDSFreq = 1"
| "op_num DDSAmp = 2"
| "op_num DDSPhase = 3"
| "op_num DDSReset = 4"
| "op_num Clock = 5"

record ReqCmd =
  rc_opcode :: ReqOP
  rc_has_res :: bool
  rc_is_override :: bool
  rc_operand :: u32
  rc_val :: u32

record 'cb CacheEntry =
  ce_t :: u64
  ce_val :: u32
  ce_cbs :: "'cb list"

type_synonym 'cb cmd_cache = "u32 \<Rightarrow> 'cb CacheEntry option"

datatype ReqSeqState = SeqCancel | SeqInit | SeqStart | SeqFlushed | SeqEnd

fun seq_state_num :: "ReqSeqState \<Rightarrow> int" where
  "seq_state_num SeqCancel = -1"
| "seq_state_num SeqInit = 0"
| "seq_state_num SeqStart = 1"
| "seq_state_num SeqFlushed = 2"
| "seq_state_num SeqEnd = 3"

instantiation ReqSeqState :: linorder
begin

definition less_eq_ReqSeqState :: "ReqSeqState \<Rightarrow> ReqSeqState \<Rightarrow> bool" where
  "less_eq_ReqSeqState a b \<longleftrightarrow> seq_state_num a \<le> seq_state_num b"

definition less_ReqSeqState :: "ReqSeqState \<Rightarrow> ReqSeqState \<Rightarrow> bool" where
  "less_ReqSeqState a b \<longleftrightarrow> seq_state_num a < seq_state_num b"

instance
proof
  fix x y z :: ReqSeqState
  show "x < y \<longleftrightarrow> x \<le> y \<and> \<not> y \<le> x"
    by (auto simp: less_eq_ReqSeqState_def less_ReqSeqState_def)
  show "x \<le> x"
    by (simp add: less_eq_ReqSeqState_def)
  show "x \<le> y \<Longrightarrow> y \<le> z \<Longrightarrow> x \<le> z"
    by (simp add: less_eq_ReqSeqState_def)
  show "x \<le> y \<Longrightarrow> y \<le> x \<Longrightarrow> x = y"
    by (cases x; cases y) (simp_all add: less_eq_ReqSeqState_def)
  show "x \<le> y \<or> y \<le> x"
    by (auto simp: less_eq_ReqSeqState_def)
qed

end

lemmas seq_state_less = less_eq_ReqSeqState_def less_ReqSeqState_def

record 'nt ReqSeq =
  rs_id :: u64
  rs_seq_len_ns :: u64
  rs_code :: bytes
  rs_ttl_mask :: "u32 list"
  rs_ver :: u32
  rs_is_cmd :: bool
  rs_cancel :: bool
  rs_state :: ReqSeqState
  rs_processed_state :: ReqSeqState
  rs_notify :: 'nt

datatype ('cb, 'nt) call =
    Callback 'cb u32
  | NotifySetId 'nt u64
  | NotifyStart 'nt u64
  | NotifyFlushed 'nt u64
  | NotifyEnd 'nt u64
  | NotifyCancel 'nt u64
  | NotifyFree 'nt

record ('q, 'cb, 'nt) ctrl_iface =
  m_quit :: bool
  m_seq_cnt :: u64
  m_state_cnt :: u64
  m_dirty :: bool
  m_observed :: bool
  m_had_seq :: bool
  m_cmd_queue :: 'q
  m_seq_queue :: 'q
  m_cmd_store :: "addr \<Rightarrow> ReqCmd option"
  m_cmd_next :: addr
  m_seq_store :: "addr \<Rightarrow> 'nt ReqSeq option"
  m_seq_next :: addr
  m_cmd_cache :: "'cb cmd_cache"
  m_bkend_evt :: nat
  m_times :: "nat \<Rightarrow> u64"
  m_log :: "('cb, 'nt) call list"

definition getTime ::
  "('q, 'cb, 'nt, 'z) ctrl_iface_scheme \<Rightarrow> u64 \<times> ('q, 'cb, 'nt, 'z) ctrl_iface_scheme" where
  "getTime s = (m_times s 0, s\<lparr>m_times := \<lambda>i. m_times s (Suc i)\<rparr>)"

definition log_calls ::
  "('cb, 'nt) call list \<Rightarrow> ('q, 'cb, 'nt, 'z) ctrl_iface_scheme
    \<Rightarrow> ('q, 'cb, 'nt, 'z) ctrl_iface_scheme" where
  "log_calls cs s = s\<lparr>m_log := m_log s @ cs\<rparr>"

section \<open>The command cache\<close>

definition cache_key :: "ReqOP \<Rightarrow> u32 \<Rightarrow> bool \<Rightarrow> u32 result" where
  "cache_key op operand is_override =
     bindR (assertR (op \<noteq> TTL)) (\<lambda>_.
     bindR (assertR (op \<noteq> Clock \<or> \<not> is_override)) (\<lambda>_.
     Inr (push_bit 27 (op_num op) OR push_bit 26 (of_bool is_override) OR operand)))"

text \<open>\<^verbatim>\<open>m_cache[key]\<close> of \<^verbatim>\<open>std::map\<close>: a missing entry is created with the default values.\<close>

definition cache_entry :: "'cb cmd_cache \<Rightarrow> u32 \<Rightarrow> 'cb CacheEntry" where
  "cache_entry cache key =
     (case cache key of Some e \<Rightarrow> e | None \<Rightarrow> \<lparr>ce_t = 0, ce_val = 0, ce_cbs = []\<rparr>)"

definition update_entry ::
  "u64 \<Rightarrow> u32 \<Rightarrow> u32 \<Rightarrow> 'cb cmd_cache \<Rightarrow> 'cb cmd_cache \<times> ('cb \<times> u32) list" where
  "update_entry t val key cache =
     (cache(key \<mapsto> \<lparr>ce_t = t, ce_val = val, ce_cbs = []\<rparr>),
      map (\<lambda>cb. (cb, val)) (ce_cbs (cache_entry cache key)))"

definition is_dds_op :: "ReqOP \<Rightarrow> bool" where
  "is_dds_op op \<longleftrightarrow> op = DDSFreq \<or> op = DDSAmp \<or> op = DDSPhase"

definition cache_set ::
  "u64 \<Rightarrow> ReqOP \<Rightarrow> u32 \<Rightarrow> bool \<Rightarrow> u32 \<Rightarrow> 'cb cmd_cache
    \<Rightarrow> ('cb cmd_cache \<times> ('cb \<times> u32) list) result" where
  "cache_set t op operand is_override val cache =
     bindR (cache_key op operand is_override) (\<lambda>key.
       let (cache1, calls1) = update_entry t val key cache
       in if \<not> is_override \<and> is_dds_op op then
            bindR (cache_key op operand True) (\<lambda>key2.
              case cache1 key2 of
                None \<Rightarrow> Inr (cache1, calls1)
              | Some e \<Rightarrow>
                  if ce_val e \<noteq> -1
                  then let (cache2, calls2) = update_entry t val key2 cache1
                       in Inr (cache2, calls1 @ calls2)
                  else Inr (cache1, calls1))
          else Inr (cache1, calls1))"

definition cache_get ::
  "u64 \<Rightarrow> ReqOP \<Rightarrow> u32 \<Rightarrow> bool \<Rightarrow> 'cb \<Rightarrow> 'cb cmd_cache
    \<Rightarrow> (bool \<times> 'cb cmd_cache \<times> ('cb \<times> u32) list) result" where
  "cache_get t op operand is_override cb cache =
     bindR (cache_key op operand is_override) (\<lambda>key.
       let e = cache_entry cache key
       in if t - ce_t e \<le> 100000000 then Inr (True, cache(key \<mapsto> e), [(cb, ce_val e)])
          else if is_override then
            (let e' = (if ce_t e = 0 then e\<lparr>ce_val := -1\<rparr> else e)
             in Inr (True, cache(key \<mapsto> e'), [(cb, ce_val e')]))
          else
            (let was_empty = (ce_cbs e = [])
             in Inr (\<not> was_empty, cache(key \<mapsto> e\<lparr>ce_cbs := ce_cbs e @ [cb]\<rparr>), [])))"

definition dds_ops :: "ReqOP list" where
  "dds_ops = [DDSFreq, DDSAmp, DDSPhase]"

definition cache_ovr_on :: "'cb cmd_cache \<Rightarrow> nat \<times> ReqOP \<Rightarrow> bool" where
  "cache_ovr_on cache = (\<lambda>(i, op).
     case cache_key op (of_nat i) True of
       Inl _ \<Rightarrow> False
     | Inr key \<Rightarrow> (case cache key of None \<Rightarrow> False | Some e \<Rightarrow> ce_val e \<noteq> -1))"

definition cache_has_dds_ovr :: "'cb cmd_cache \<Rightarrow> bool" where
  "cache_has_dds_ovr cache =
     list_ex (cache_ovr_on cache) (List.product [0 ..< 22] dds_ops)"

section \<open>Dirty tracking and requests\<close>

type_synonym ('q, 'cb, 'nt, 'z) iface = "('q, 'cb, 'nt, 'z) ctrl_iface_scheme"

definition set_dirty :: "('q, 'cb, 'nt, 'z) iface \<Rightarrow> ('q, 'cb, 'nt, 'z) iface" where
  "set_dirty s = (if m_observed s \<and> \<not> m_had_seq s then s\<lparr>m_dirty := True\<rparr> else s)"

definition set_observed :: "('q, 'cb, 'nt, 'z) iface \<Rightarrow> ('q, 'cb, 'nt, 'z) iface" where
  "set_observed s = s\<lparr>m_observed := True\<rparr>"

definition send_cmd ::
  "'q fqueue_ops \<Rightarrow> ReqCmd \<Rightarrow> ('q, 'cb, 'nt, 'z) iface \<Rightarrow> ('q, 'cb, 'nt, 'z) iface" where
  "send_cmd Q cmd s =
     s\<lparr>m_cmd_store := (m_cmd_store s)(m_cmd_next s \<mapsto> cmd), m_cmd_next := Suc (m_cmd_next s),
       m_cmd_queue := fq_push Q (m_cmd_next s) (m_cmd_queue s)\<rparr>"

definition cmd_cache_set ::
  "ReqOP \<Rightarrow> u32 \<Rightarrow> bool \<Rightarrow> u32 \<Rightarrow> ('q, 'cb, 'nt, 'z) iface \<Rightarrow> ('q, 'cb, 'nt, 'z) iface result" where
  "cmd_cache_set op operand is_override val s =
     (let (t, s1) = getTime s
      in bindR (cache_set t op operand is_override val (m_cmd_cache s1)) (\<lambda>(cache, calls).
           Inr (log_calls (map (\<lambda>(cb, v). Callback cb v) calls) (s1\<lparr>m_cmd_cache := cache\<rparr>))))"

text \<open>The overridable \<^verbatim>\<open>concurrent_set\<close> and \<^verbatim>\<open>concurrent_get\<close>.\<close>

type_synonym 's concurrent_set_fn = "ReqOP \<Rightarrow> u32 \<Rightarrow> bool \<Rightarrow> u32 \<Rightarrow> 's \<Rightarrow> (bool \<times> 's) result"
type_synonym 's concurrent_get_fn = "ReqOP \<Rightarrow> u32 \<Rightarrow> bool \<Rightarrow> 's \<Rightarrow> (u32 option \<times> 's) result"

definition operand_mask :: u32 where
  "operand_mask = push_bit 26 1 - 1"

definition send_set_cmd ::
  "'q fqueue_ops \<Rightarrow> ('q, 'cb, 'nt, 'z) iface concurrent_set_fn \<Rightarrow> ReqOP \<Rightarrow> u32 \<Rightarrow> bool \<Rightarrow> u32
    \<Rightarrow> ('q, 'cb, 'nt, 'z) iface \<Rightarrow> ('q, 'cb, 'nt, 'z) iface result" where
  "send_set_cmd Q cset op operand is_override val s =
     bindR (cset op operand is_override val (set_dirty s)) (\<lambda>(handled, s1).
       let s2 = (if handled then s1
                 else send_cmd Q \<lparr>rc_opcode = op, rc_has_res = False, rc_is_override = is_override,
                        rc_operand = operand AND operand_mask, rc_val = val\<rparr> s1)
       in cmd_cache_set op operand is_override val s2)"

definition send_get_cmd ::
  "'q fqueue_ops \<Rightarrow> ('q, 'cb, 'nt, 'z) iface concurrent_get_fn \<Rightarrow> ReqOP \<Rightarrow> u32 \<Rightarrow> bool \<Rightarrow> 'cb
    \<Rightarrow> ('q, 'cb, 'nt, 'z) iface \<Rightarrow> ('q, 'cb, 'nt, 'z) iface result" where
  "send_get_cmd Q cget op operand is_override cb s =
     bindR (cget op operand is_override (set_observed s)) (\<lambda>(got, s1).
       case got of
         Some val \<Rightarrow>
           bindR (cmd_cache_set op operand is_override val s1) (\<lambda>s2.
             Inr (log_calls [Callback cb val] s2))
       | None \<Rightarrow>
           (let (t, s2) = getTime s1
            in bindR (cache_get t op operand is_override cb (m_cmd_cache s2)) (\<lambda>(hit, cache, calls).
                 let s3 = log_calls (map (\<lambda>(c, v). Callback c v) calls) (s2\<lparr>m_cmd_cache := cache\<rparr>)
                 in if hit then Inr s3
                    else Inr (send_cmd Q \<lparr>rc_opcode = op, rc_has_res = True,
                           rc_is_override = is_override, rc_operand = operand AND operand_mask,
                           rc_val = 0\<rparr> s3))))"

definition send_ttl_set_cmd ::
  "'q fqueue_ops \<Rightarrow> ('q, 'cb, 'nt, 'z) iface concurrent_set_fn \<Rightarrow> u32 \<Rightarrow> bool \<Rightarrow> u32
    \<Rightarrow> ('q, 'cb, 'nt, 'z) iface \<Rightarrow> ('q, 'cb, 'nt, 'z) iface result" where
  "send_ttl_set_cmd Q cset operand is_override val s =
     bindR (cset TTL operand is_override val (set_dirty s)) (\<lambda>(handled, s1).
       Inr (if handled then s1
            else send_cmd Q \<lparr>rc_opcode = TTL, rc_has_res = False, rc_is_override = is_override,
                   rc_operand = operand AND operand_mask, rc_val = val\<rparr> s1))"

definition send_ttl_get_cmd ::
  "('q, 'cb, 'nt, 'z) iface concurrent_get_fn \<Rightarrow> u32 \<Rightarrow> bool
    \<Rightarrow> ('q, 'cb, 'nt, 'z) iface \<Rightarrow> (u32 \<times> ('q, 'cb, 'nt, 'z) iface) result" where
  "send_ttl_get_cmd cget operand is_override s =
     bindR (cget TTL operand is_override (set_observed s)) (\<lambda>(got, s1).
       case got of Some val \<Rightarrow> Inr (val, s1) | None \<Rightarrow> Inl Abort)"

text \<open>\<^verbatim>\<open>uint32_t(val) | uint32_t(bank << 2)\<close>\<close>

definition ttl_operand :: "u32 \<Rightarrow> int \<Rightarrow> u32" where
  "ttl_operand typ bank = typ OR push_bit 2 (word_of_int bank)"

definition set_ttl ::
  "'q fqueue_ops \<Rightarrow> ('q, 'cb, 'nt, 'z) iface concurrent_set_fn \<Rightarrow> int \<Rightarrow> u32 \<Rightarrow> bool
    \<Rightarrow> ('q, 'cb, 'nt, 'z) iface \<Rightarrow> ('q, 'cb, 'nt, 'z) iface result" where
  "set_ttl Q cset bank msk val s =
     (if msk = 0 then Inr s else send_ttl_set_cmd Q cset (ttl_operand (of_bool val) bank) False msk s)"

definition set_ttl_ovr ::
  "'q fqueue_ops \<Rightarrow> ('q, 'cb, 'nt, 'z) iface concurrent_set_fn \<Rightarrow> int \<Rightarrow> u32 \<Rightarrow> int
    \<Rightarrow> ('q, 'cb, 'nt, 'z) iface \<Rightarrow> ('q, 'cb, 'nt, 'z) iface result" where
  "set_ttl_ovr Q cset bank msk val s =
     (if msk = 0 then Inr s
      else send_ttl_set_cmd Q cset (ttl_operand (word_of_int val) bank) True msk s)"

definition get_ttl ::
  "('q, 'cb, 'nt, 'z) iface concurrent_get_fn \<Rightarrow> int
    \<Rightarrow> ('q, 'cb, 'nt, 'z) iface \<Rightarrow> (u32 \<times> ('q, 'cb, 'nt, 'z) iface) result" where
  "get_ttl cget bank s = send_ttl_get_cmd cget (ttl_operand 0 bank) False s"

definition get_ttl_ovrlo ::
  "('q, 'cb, 'nt, 'z) iface concurrent_get_fn \<Rightarrow> int
    \<Rightarrow> ('q, 'cb, 'nt, 'z) iface \<Rightarrow> (u32 \<times> ('q, 'cb, 'nt, 'z) iface) result" where
  "get_ttl_ovrlo cget bank s = send_ttl_get_cmd cget (ttl_operand 0 bank) True s"

definition get_ttl_ovrhi ::
  "('q, 'cb, 'nt, 'z) iface concurrent_get_fn \<Rightarrow> int
    \<Rightarrow> ('q, 'cb, 'nt, 'z) iface \<Rightarrow> (u32 \<times> ('q, 'cb, 'nt, 'z) iface) result" where
  "get_ttl_ovrhi cget bank s = send_ttl_get_cmd cget (ttl_operand 1 bank) True s"

definition set_dds ::
  "'q fqueue_ops \<Rightarrow> ('q, 'cb, 'nt, 'z) iface concurrent_set_fn \<Rightarrow> ReqOP \<Rightarrow> int \<Rightarrow> u32
    \<Rightarrow> ('q, 'cb, 'nt, 'z) iface \<Rightarrow> ('q, 'cb, 'nt, 'z) iface result" where
  "set_dds Q cset op chn val s =
     bindR (assertR (is_dds_op op)) (\<lambda>_. send_set_cmd Q cset op (word_of_int chn) False val s)"

definition set_dds_ovr ::
  "'q fqueue_ops \<Rightarrow> ('q, 'cb, 'nt, 'z) iface concurrent_set_fn \<Rightarrow> ReqOP \<Rightarrow> int \<Rightarrow> u32
    \<Rightarrow> ('q, 'cb, 'nt, 'z) iface \<Rightarrow> ('q, 'cb, 'nt, 'z) iface result" where
  "set_dds_ovr Q cset op chn val s =
     bindR (assertR (is_dds_op op)) (\<lambda>_. send_set_cmd Q cset op (word_of_int chn) True val s)"

definition get_dds ::
  "'q fqueue_ops \<Rightarrow> ('q, 'cb, 'nt, 'z) iface concurrent_get_fn \<Rightarrow> ReqOP \<Rightarrow> int \<Rightarrow> 'cb
    \<Rightarrow> ('q, 'cb, 'nt, 'z) iface \<Rightarrow> ('q, 'cb, 'nt, 'z) iface result" where
  "get_dds Q cget op chn cb s =
     bindR (assertR (is_dds_op op)) (\<lambda>_. send_get_cmd Q cget op (word_of_int chn) False cb s)"

definition get_dds_ovr ::
  "'q fqueue_ops \<Rightarrow> ('q, 'cb, 'nt, 'z) iface concurrent_get_fn \<Rightarrow> ReqOP \<Rightarrow> int \<Rightarrow> 'cb
    \<Rightarrow> ('q, 'cb, 'nt, 'z) iface \<Rightarrow> ('q, 'cb, 'nt, 'z) iface result" where
  "get_dds_ovr Q cget op chn cb s =
     bindR (assertR (is_dds_op op)) (\<lambda>_. send_get_cmd Q cget op (word_of_int chn) True cb s)"

definition reset_dds :: "'q fqueue_ops \<Rightarrow> int
    \<Rightarrow> ('q, 'cb, 'nt, 'z) iface \<Rightarrow> ('q, 'cb, 'nt, 'z) iface result" where
  "reset_dds Q chn s =
     (let s1 = send_cmd Q \<lparr>rc_opcode = DDSReset, rc_has_res = False, rc_is_override = False,
                 rc_operand = word_of_int chn AND operand_mask, rc_val = 0\<rparr> (set_dirty s)
      in bindR (cmd_cache_set DDSFreq (word_of_int chn) True (-1) s1) (\<lambda>s2.
         bindR (cmd_cache_set DDSAmp (word_of_int chn) True (-1) s2) (\<lambda>s3.
         cmd_cache_set DDSPhase (word_of_int chn) True (-1) s3)))"

definition set_clock ::
  "'q fqueue_ops \<Rightarrow> ('q, 'cb, 'nt, 'z) iface concurrent_set_fn \<Rightarrow> u8
    \<Rightarrow> ('q, 'cb, 'nt, 'z) iface \<Rightarrow> ('q, 'cb, 'nt, 'z) iface result" where
  "set_clock Q cset val s = send_set_cmd Q cset Clock 0 False (ucast val) s"

definition get_clock ::
  "'q fqueue_ops \<Rightarrow> ('q, 'cb, 'nt, 'z) iface concurrent_get_fn \<Rightarrow> 'cb
    \<Rightarrow> ('q, 'cb, 'nt, 'z) iface \<Rightarrow> ('q, 'cb, 'nt, 'z) iface result" where
  "get_clock Q cget cb s = send_get_cmd Q cget Clock 0 False cb s"

definition iface_has_dds_ovr :: "('q, 'cb, 'nt, 'z) iface \<Rightarrow> bool" where
  "iface_has_dds_ovr s = cache_has_dds_ovr (m_cmd_cache s)"

definition quit :: "('q, 'cb, 'nt, 'z) iface \<Rightarrow> ('q, 'cb, 'nt, 'z) iface" where
  "quit s = s\<lparr>m_quit := True\<rparr>"

section \<open>Sequences\<close>

definition seq_run_code ::
  "'q fqueue_ops \<Rightarrow> bool \<Rightarrow> u32 \<Rightarrow> u64 \<Rightarrow> u32 list \<Rightarrow> bytes \<Rightarrow> 'nt
    \<Rightarrow> ('q, 'cb, 'nt, 'z) iface \<Rightarrow> u64 \<times> ('q, 'cb, 'nt, 'z) iface" where
  "seq_run_code Q is_cmd ver seq_len_ns ttl_mask code notify s =
     (let s1 = set_dirty s;
          id = m_seq_cnt s1 + 1;
          s2 = log_calls [NotifySetId notify id] (s1\<lparr>m_seq_cnt := id\<rparr>);
          a = m_seq_next s2;
          seq = \<lparr>rs_id = id, rs_seq_len_ns = seq_len_ns, rs_code = code, rs_ttl_mask = ttl_mask,
                  rs_ver = ver, rs_is_cmd = is_cmd, rs_cancel = False, rs_state = SeqInit,
                  rs_processed_state = SeqInit, rs_notify = notify\<rparr>
      in (id, s2\<lparr>m_seq_store := (m_seq_store s2)(a \<mapsto> seq), m_seq_next := Suc a,
                m_seq_queue := fq_push Q a (m_seq_queue s2)\<rparr>))"

fun cancel_loop ::
  "u64 \<Rightarrow> addr list \<Rightarrow> bool \<Rightarrow> (addr \<Rightarrow> 'nt ReqSeq option)
    \<Rightarrow> (bool \<times> (addr \<Rightarrow> 'nt ReqSeq option)) result" where
  "cancel_loop sid [] found st = Inr (found, st)"
| "cancel_loop sid (a # as) found st =
     (case st a of
        None \<Rightarrow> Inl OutOfRange
      | Some seq \<Rightarrow>
          if sid = 0 \<or> rs_id seq = sid
          then cancel_loop sid as True (st(a \<mapsto> seq\<lparr>rs_cancel := True\<rparr>))
          else cancel_loop sid as found st)"

definition cancel_seq ::
  "'q fqueue_ops \<Rightarrow> u64 \<Rightarrow> ('q, 'cb, 'nt, 'z) iface \<Rightarrow> (bool \<times> ('q, 'cb, 'nt, 'z) iface) result" where
  "cancel_seq Q sid s =
     bindR (cancel_loop sid (fq_items Q (m_seq_queue s)) False (m_seq_store s)) (\<lambda>(found, st).
       Inr (found, s\<lparr>m_seq_store := st\<rparr>))"

text \<open>The backend's side of the queues.\<close>

definition backend_event :: "('q, 'cb, 'nt, 'z) iface \<Rightarrow> ('q, 'cb, 'nt, 'z) iface" where
  "backend_event s = s\<lparr>m_bkend_evt := Suc (m_bkend_evt s)\<rparr>"

definition get_seq :: "'q fqueue_ops \<Rightarrow> ('q, 'cb, 'nt, 'z) iface \<Rightarrow> addr option" where
  "get_seq Q s = fq_get_filter Q (m_seq_queue s)"

definition finish_seq :: "'q fqueue_ops \<Rightarrow> ('q, 'cb, 'nt, 'z) iface \<Rightarrow> ('q, 'cb, 'nt, 'z) iface" where
  "finish_seq Q s = backend_event (s\<lparr>m_seq_queue := fq_forward_filter Q (m_seq_queue s)\<rparr>)"

definition get_cmd :: "'q fqueue_ops \<Rightarrow> ('q, 'cb, 'nt, 'z) iface \<Rightarrow> addr option" where
  "get_cmd Q s = fq_get_filter Q (m_cmd_queue s)"

definition finish_cmd :: "'q fqueue_ops \<Rightarrow> ('q, 'cb, 'nt, 'z) iface \<Rightarrow> ('q, 'cb, 'nt, 'z) iface" where
  "finish_cmd Q s = s\<lparr>m_cmd_queue := fq_forward_filter Q (m_cmd_queue s)\<rparr>"

text \<open>The predicate of \<^verbatim>\<open>wait\<close>, and what it returns once woken or timed out.\<close>

definition wait_pred :: "'q fqueue_ops \<Rightarrow> ('q, 'cb, 'nt, 'z) iface \<Rightarrow> bool" where
  "wait_pred Q s \<longleftrightarrow>
     m_quit s \<or> fq_get_filter Q (m_seq_queue s) \<noteq> None \<or> fq_get_filter Q (m_cmd_queue s) \<noteq> None"

definition iface_wait :: "('q, 'cb, 'nt, 'z) iface \<Rightarrow> bool" where
  "iface_wait s \<longleftrightarrow> \<not> m_quit s"

section \<open>The frontend loop body\<close>

definition seq_notifications :: "'nt ReqSeq \<Rightarrow> ('cb, 'nt) call list" where
  "seq_notifications seq =
     (let state = rs_state seq; pstate = rs_processed_state seq; n = rs_notify seq; id = rs_id seq
      in (if state \<ge> SeqStart \<and> pstate < SeqStart then [NotifyStart n id] else [])
       @ (if state \<ge> SeqFlushed \<and> pstate < SeqFlushed then [NotifyFlushed n id] else [])
       @ (if state \<ge> SeqEnd \<and> pstate < SeqEnd then [NotifyEnd n id] else [])
       @ (if state = SeqCancel \<and> pstate \<noteq> SeqCancel then [NotifyCancel n id] else []))"

definition run_callbacks :: "addr \<Rightarrow> ('q, 'cb, 'nt, 'z) iface \<Rightarrow> ('q, 'cb, 'nt, 'z) iface result" where
  "run_callbacks a s =
     (case m_seq_store s a of
        None \<Rightarrow> Inl OutOfRange
      | Some seq \<Rightarrow>
          Inr (log_calls (seq_notifications seq)
            (s\<lparr>m_seq_store := (m_seq_store s)(a \<mapsto> seq\<lparr>rs_processed_state := rs_state seq\<rparr>)\<rparr>)))"

text \<open>Freeing a sequence runs the destructor of its notification object.\<close>

definition free_seq :: "addr \<Rightarrow> ('q, 'cb, 'nt, 'z) iface \<Rightarrow> ('q, 'cb, 'nt, 'z) iface result" where
  "free_seq a s =
     (case m_seq_store s a of
        None \<Rightarrow> Inl OutOfRange
      | Some seq \<Rightarrow>
          Inr (log_calls [NotifyFree (rs_notify seq)] (s\<lparr>m_seq_store := (m_seq_store s)(a := None)\<rparr>)))"

fun frontend_seqs ::
  "'q fqueue_ops \<Rightarrow> nat \<Rightarrow> addr option \<Rightarrow> ('q, 'cb, 'nt, 'z) iface
    \<Rightarrow> (addr option \<times> ('q, 'cb, 'nt, 'z) iface) result" where
  "frontend_seqs Q 0 curseq s = Inl OutOfFuel"
| "frontend_seqs Q (Suc fuel) curseq s =
     (let (got, q) = fq_pop Q (m_seq_queue s); s1 = s\<lparr>m_seq_queue := q\<rparr>
      in case got of
           None \<Rightarrow> Inr (curseq, s1)
         | Some a \<Rightarrow>
             bindR (run_callbacks a s1) (\<lambda>s2.
             bindR (free_seq a s2) (\<lambda>s3.
             frontend_seqs Q fuel (if curseq = Some a then None else curseq) s3)))"

fun frontend_cmds ::
  "'q fqueue_ops \<Rightarrow> nat \<Rightarrow> ('q, 'cb, 'nt, 'z) iface \<Rightarrow> ('q, 'cb, 'nt, 'z) iface result" where
  "frontend_cmds Q 0 s = Inl OutOfFuel"
| "frontend_cmds Q (Suc fuel) s =
     (let (got, q) = fq_pop Q (m_cmd_queue s); s1 = s\<lparr>m_cmd_queue := q\<rparr>
      in case got of
           None \<Rightarrow> Inr s1
         | Some a \<Rightarrow>
             (case m_cmd_store s1 a of
                None \<Rightarrow> Inl OutOfRange
              | Some cmd \<Rightarrow>
                  bindR (if rc_has_res cmd
                         then cmd_cache_set (rc_opcode cmd) (rc_operand cmd) (rc_is_override cmd)
                                (rc_val cmd) s1
                         else Inr s1) (\<lambda>s2.
                  frontend_cmds Q fuel (s2\<lparr>m_cmd_store := (m_cmd_store s2)(a := None)\<rparr>))))"

text \<open>
  Every iteration of the two loops pops one request, so one more than the queue's length is enough.
\<close>

definition run_frontend ::
  "'q fqueue_ops \<Rightarrow> ('q, 'cb, 'nt, 'z) iface \<Rightarrow> ('q, 'cb, 'nt, 'z) iface result" where
  "run_frontend Q s0 =
     (let s = s0\<lparr>m_bkend_evt := 0\<rparr>;
          curseq = fq_peek_filter Q (m_seq_queue s)
      in bindR (frontend_seqs Q (Suc (length (fq_items Q (m_seq_queue s)))) curseq s) (\<lambda>(cur, s1).
         bindR (case cur of None \<Rightarrow> Inr s1 | Some a \<Rightarrow> run_callbacks a s1) (\<lambda>s2.
         frontend_cmds Q (Suc (length (fq_items Q (m_cmd_queue s2)))) s2)))"

definition get_state_id ::
  "'q fqueue_ops \<Rightarrow> ('q, 'cb, 'nt, 'z) iface \<Rightarrow> u64 \<times> ('q, 'cb, 'nt, 'z) iface" where
  "get_state_id Q s =
     (let (seq, fin) = fq_peek Q (m_seq_queue s);
          has_seq = (seq \<noteq> None \<and> \<not> fin);
          (new_id, s1) =
            (if has_seq \<noteq> m_had_seq s
             then (True, s\<lparr>m_had_seq := has_seq, m_state_cnt := m_state_cnt s + 1\<rparr>)
             else if m_dirty s then (True, s\<lparr>m_state_cnt := m_state_cnt s + 1\<rparr>)
             else (False, s));
          s2 = s1\<lparr>m_dirty := False\<rparr>;
          s3 = (if new_id then s2\<lparr>m_observed := False\<rparr> else s2)
      in (push_bit 63 (of_bool has_seq) OR m_state_cnt s3, s3))"

definition has_pending :: "'q fqueue_ops \<Rightarrow> ('q, 'cb, 'nt, 'z) iface \<Rightarrow> bool \<times> bool" where
  "has_pending Q s =
     (let cmdres = fq_peek Q (m_cmd_queue s); seqres = fq_peek Q (m_seq_queue s)
      in if snd cmdres then (True, True)
         else if snd seqres then (True, True)
         else (fst seqres \<noteq> None \<or> fst cmdres \<noteq> None, False))"

section \<open>Facts about the cache\<close>

lemma cache_key_eq:
  "cache_key op a ovr = Inr k \<longleftrightarrow>
     op \<noteq> TTL \<and> (op = Clock \<longrightarrow> \<not> ovr) \<and>
     k = push_bit 27 (op_num op) OR push_bit 26 (of_bool ovr) OR a"
  by (auto simp: cache_key_def)

lemma cache_key_dds [simp]:
  "is_dds_op op \<Longrightarrow>
   cache_key op a ovr = Inr (push_bit 27 (op_num op) OR push_bit 26 (of_bool ovr) OR a)"
  by (auto simp: cache_key_def is_dds_op_def)

lemma small_operand:
  assumes "(a :: u32) < 2 ^ 26"
  shows "take_bit 26 a = a" "drop_bit 26 a = 0" "drop_bit 27 a = 0"
proof -
  have a: "unat a < 2 ^ 26"
    using assms by (simp add: word_less_nat_alt)
  then show "take_bit 26 a = a"
    by (simp add: word_unat_eq_iff unsigned_take_bit_eq take_bit_nat_eq_self)
  show "drop_bit 26 a = 0" "drop_bit 27 a = 0"
    using a by (simp_all add: drop_bit_eq_div word_unat_eq_iff unat_div unat_word_ariths)
qed

lemma cache_key_fields:
  assumes "a < 2 ^ 26"
  shows "take_bit 26 (push_bit 27 (op_num op) OR push_bit 26 (of_bool ovr) OR a) = a"
    "drop_bit 27 (push_bit 27 (op_num op) OR push_bit 26 (of_bool ovr) OR a) = op_num op"
    "odd (drop_bit 26 (push_bit 27 (op_num op) OR push_bit 26 (of_bool ovr) OR a)) = ovr"
  by (cases op; cases ovr; simp add: small_operand [OF assms])+

lemma op_num_inject: "op_num a = op_num b \<longleftrightarrow> a = b"
  by (cases a; cases b) simp_all

lemma cache_key_inject:
  assumes "a < 2 ^ 26" and "b < 2 ^ 26"
    and "cache_key op a ovr = Inr k" and "cache_key op' b ovr' = Inr k"
  shows "op = op' \<and> a = b \<and> ovr = ovr'"
proof -
  have k: "k = push_bit 27 (op_num op) OR push_bit 26 (of_bool ovr) OR a"
    "k = push_bit 27 (op_num op') OR push_bit 26 (of_bool ovr') OR b"
    using assms(3,4) by (auto simp: cache_key_eq)
  have "a = b" "op_num op = op_num op'" "ovr = ovr'"
    using cache_key_fields [OF assms(1), of op ovr] cache_key_fields [OF assms(2), of op' ovr'] k
    by metis+
  then show ?thesis
    by (simp add: op_num_inject)
qed

lemma cache_key_ovr_distinct:
  assumes "a < 2 ^ 26" and "is_dds_op op"
  shows "push_bit 27 (op_num op) OR push_bit 26 (of_bool True) OR a \<noteq>
     (push_bit 27 (op_num op) OR push_bit 26 (of_bool False) OR a :: u32)"
  using cache_key_inject [OF assms(1,1), of op True _ op False] assms(2)
  by (metis cache_key_dds)

lemma operand_mask_small:
  assumes "(a :: u32) < 2 ^ 26"
  shows "a AND operand_mask = a"
  using small_operand(1) [OF assms] by (simp add: operand_mask_def take_bit_eq_mask mask_eq_exp_minus_1)

text \<open>The value a channel is overridden to, as the frontend knows it; \<open>-1\<close> for no override.\<close>

definition cached_ovr :: "'cb cmd_cache \<Rightarrow> ReqOP \<Rightarrow> u32 \<Rightarrow> u32" where
  "cached_ovr cache op a =
     (case cache_key op a True of
        Inl _ \<Rightarrow> -1
      | Inr k \<Rightarrow> (case cache k of None \<Rightarrow> -1 | Some e \<Rightarrow> ce_val e))"

lemma cache_set_total:
  assumes "op \<noteq> TTL" and "op = Clock \<longrightarrow> \<not> ovr"
  shows "\<exists>c' calls. cache_set t op a ovr v c = Inr (c', calls)"
  using assms
  by (auto simp: cache_set_def cache_key_def is_dds_op_def update_entry_def Let_def split: option.splits)

lemma cache_set_normal:
  assumes "is_dds_op op" and "a < 2 ^ 26" and "cache_set t op a False v c = Inr (c', calls)"
  shows "cached_ovr c' op a = (if cached_ovr c op a = -1 then -1 else v)"
proof -
  note d = cache_key_ovr_distinct [OF assms(2,1)]
  show ?thesis
    using assms(1,3) d
    by (auto simp: cache_set_def update_entry_def cached_ovr_def Let_def split: option.splits if_splits)
qed

lemma cache_set_override:
  assumes "is_dds_op op" and "cache_set t op a True v c = Inr (c', calls)"
  shows "cached_ovr c' op a = v"
  using assms by (auto simp: cache_set_def update_entry_def cached_ovr_def Let_def)

text \<open>The callbacks that wait for the answer to a query of \<open>key\<close>.\<close>

definition waiting :: "'cb cmd_cache \<Rightarrow> u32 \<Rightarrow> 'cb list" where
  "waiting c k = (case c k of None \<Rightarrow> [] | Some e \<Rightarrow> ce_cbs e)"

lemma waiting_entry: "ce_cbs (cache_entry c k) = waiting c k"
  by (simp add: waiting_def cache_entry_def split: option.splits)

lemma waiting_upd [simp]:
  "waiting (c(k \<mapsto> e)) k' = (if k' = k then ce_cbs e else waiting c k')"
  by (simp add: waiting_def)

lemma cache_get_accounts:
  assumes "cache_get t op a ovr cb c = Inr (hit, c', calls)" and "cache_key op a ovr = Inr k"
  shows "waiting c' k @ map fst calls = waiting c k @ [cb]"
    and "k' \<noteq> k \<Longrightarrow> c' k' = c k'"
    and "hit \<longleftrightarrow> calls \<noteq> [] \<or> waiting c k \<noteq> []"
  using assms
  by (auto simp: cache_get_def Let_def waiting_entry cache_entry_def waiting_def
      split: if_splits option.splits)

lemma cache_set_accounts:
  assumes "cache_set t op a ovr v c = Inr (c', calls)" and "cache_key op a ovr = Inr k"
  shows "waiting c' k = []" and "(\<forall>cb \<in> set (waiting c k). (cb, v) \<in> set calls)"
    and "set (waiting c' k') \<subseteq> set (waiting c k')"
  using assms
  by (auto simp: cache_set_def update_entry_def Let_def waiting_entry split: if_splits option.splits)

end
