(* ===== verification/Pulser_Iface.thy ===== *)
theory Pulser_Iface
  imports Pulser_Common
begin

text \<open>
  The contract between the controller and its pulser. \<^verbatim>\<open>class Controller\<close> is a template over the
  pulser class and relies on three things: the two TTL override masks of a bank are plain storage
  that nothing else writes (\<open>ttl_masks\<close>), no member fails when its arguments are in range and
  \<^verbatim>\<open>toggle_init\<close> is only called on a finished pulser (\<open>pulser_port\<close>), and instructions leave the
  masks alone (\<open>pulser_iface\<close>). The software pulser is shown to satisfy all of it in
  \<open>Dummy_Pulser\<close>, the register level one the first in \<open>Pulser\<close>.
\<close>

locale ttl_masks =
  fixes P :: "'p pulser_ops"
    and inv :: "'p \<Rightarrow> bool"
    and lo :: "'p \<Rightarrow> int \<Rightarrow> u32"
    and hi :: "'p \<Rightarrow> int \<Rightarrow> u32"
  assumes lomask: "inv p \<Longrightarrow> bank_ok b \<Longrightarrow>
      \<exists>p'. p_ttl_lomask P b p = Inr (lo p b, p') \<and> inv p' \<and> lo p' = lo p \<and> hi p' = hi p"
    and himask: "inv p \<Longrightarrow> bank_ok b \<Longrightarrow>
      \<exists>p'. p_ttl_himask P b p = Inr (hi p b, p') \<and> inv p' \<and> lo p' = lo p \<and> hi p' = hi p"
    and set_lomask: "inv p \<Longrightarrow> bank_ok b \<Longrightarrow>
      \<exists>p'. p_set_ttl_lomask P v b p = Inr p' \<and> inv p' \<and> lo p' = (lo p)(b := v) \<and> hi p' = hi p"
    and set_himask: "inv p \<Longrightarrow> bank_ok b \<Longrightarrow>
      \<exists>p'. p_set_ttl_himask P v b p = Inr p' \<and> inv p' \<and> lo p' = lo p \<and> hi p' = (hi p)(b := v)"

locale pulser_port =
  fixes P :: "'p pulser_ops"
    and inv :: "'p \<Rightarrow> bool"
    and idle :: "'p \<Rightarrow> bool"
  assumes pulse: "inv p \<Longrightarrow> valid_pulse c \<Longrightarrow> \<exists>p'. p_pulse P c p = Inr p' \<and> inv p'"
    and is_finished: "inv p \<Longrightarrow>
      \<exists>b p'. p_is_finished P p = Inr (b, p') \<and> inv p' \<and> (b \<longleftrightarrow> idle p')"
    and cur_ttl: "inv p \<Longrightarrow> bank_ok b \<Longrightarrow>
      \<exists>v p'. p_cur_ttl P b p = Inr (v, p') \<and> inv p' \<and> (idle p \<longrightarrow> idle p')"
    and cur_clock: "inv p \<Longrightarrow> \<exists>v p'. p_cur_clock P p = Inr (v, p') \<and> inv p'"
    and timing_ok: "inv p \<Longrightarrow> \<exists>v p'. p_timing_ok P p = Inr (v, p') \<and> inv p'"
    and release_hold: "inv p \<Longrightarrow> \<exists>p'. p_release_hold P p = Inr p' \<and> inv p'"
    and set_hold: "inv p \<Longrightarrow> \<exists>p'. p_set_hold P p = Inr p' \<and> inv p' \<and> (idle p \<longrightarrow> idle p')"
    and toggle_init: "inv p \<Longrightarrow> idle p \<Longrightarrow> \<exists>p'. p_toggle_init P p = Inr p' \<and> inv p'"
    and try_get_result: "inv p \<Longrightarrow> \<exists>v p'. p_try_get_result P p = Inr (v, p') \<and> inv p'"
    and check_dds: "inv p \<Longrightarrow> \<exists>v p'. p_check_dds P chn force p = Inr (v, p') \<and> inv p'"
    and dds_exists: "inv p \<Longrightarrow> \<exists>v p'. p_dds_exists P chn p = Inr (v, p') \<and> inv p'"
    and dump_dds: "inv p \<Longrightarrow> \<exists>v p'. p_dump_dds P chn p = Inr (v, p') \<and> inv p'"

locale pulser_iface = ttl_masks P inv lo hi + pulser_port P inv idle
  for P :: "'p pulser_ops" and inv :: "'p \<Rightarrow> bool" and lo :: "'p \<Rightarrow> int \<Rightarrow> u32"
    and hi :: "'p \<Rightarrow> int \<Rightarrow> u32" and idle :: "'p \<Rightarrow> bool" +
  assumes pulse_masks: "inv p \<Longrightarrow> valid_pulse c \<Longrightarrow>
      p_pulse P c p = Inr p' \<Longrightarrow> lo p' = lo p \<and> hi p' = hi p"
begin

lemma pulses_total:
  assumes "inv p" and "\<forall>c \<in> set cs. valid_pulse c"
  shows "\<exists>p'. foldR (p_pulse P) cs p = Inr p' \<and> inv p' \<and> lo p' = lo p \<and> hi p' = hi p"
proof -
  have "\<exists>q'. p_pulse P c q = Inr q' \<and> inv q' \<and> lo q' = lo p \<and> hi q' = hi p"
    if "c \<in> set cs" and q: "inv q \<and> lo q = lo p \<and> hi q = hi p" for c q
  proof -
    have v: "valid_pulse c"
      using that(1) assms(2) by blast
    obtain q' where q': "p_pulse P c q = Inr q'" "inv q'"
      using pulse [OF conjunct1 [OF q] v] by blast
    then show ?thesis
      using pulse_masks [OF conjunct1 [OF q] v q'(1)] q by simp
  qed
  then show ?thesis
    using foldR_total [of cs "\<lambda>q. inv q \<and> lo q = lo p \<and> hi q = hi p" "p_pulse P" p] assms(1)
    by simp
qed

end

end
