(* ===== verification/Controller.thy ===== *)
theory Controller
  imports Ctrl_Iface Pulser_Iface
begin

unbundle bit_operations_syntax

text \<open>
  \<^verbatim>\<open>lib/controller.cpp\<close>: the backend. \<^verbatim>\<open>Controller<Pulser>\<close> derives from \<^verbatim>\<open>CtrlIFace\<close>, so its
  state is the record \<open>ctrl_iface\<close> extended by the private members of the class; the pulser is
  the field \<open>m_p\<close> and its members come in the record argument \<open>P\<close>. \<^verbatim>\<open>getCoarseTime()\<close> is the next
  entry of \<open>m_coarse\<close>, what is sent to the log is appended to \<open>m_lines\<close>. The field \<open>m_calls\<close> is
  a ghost: the calls made on \<open>m_p\<close> that change what the hardware does, in order; no operation
  reads it.
\<close>

section \<open>State\<close>

datatype port_call =
    Issue pulse
  | ReleaseHold
  | SetHold
  | ToggleInit
  | CheckDDS int bool

datatype log_line =
    LogInfo string
  | LogReinit int
  | LogSync nat u32 u32
  | LogSeqError string
  | LogTiming

record ('q, 'cb, 'nt, 'p) controller = "('q, 'cb, 'nt) ctrl_iface" +
  m_p :: 'p
  m_dds_ovr :: "DDSState list"
  m_ttl :: "u32 list"
  m_dds_phase :: "u16 list"
  m_dds_pending_reset :: "bool list"
  m_dds_exist :: "bool list"
  m_dds_check_time :: u64
  m_cmd_waiting :: "addr option"
  m_coarse :: "nat \<Rightarrow> u64"
  m_lines :: "log_line list"
  m_calls :: "port_call list"

definition getCoarseTime ::
  "('q, 'cb, 'nt, 'p) controller \<Rightarrow> u64 \<times> ('q, 'cb, 'nt, 'p) controller" where
  "getCoarseTime s = (m_coarse s 0, s\<lparr>m_coarse := \<lambda>i. m_coarse s (Suc i)\<rparr>)"

definition log_line ::
  "log_line \<Rightarrow> ('q, 'cb, 'nt, 'p) controller \<Rightarrow> ('q, 'cb, 'nt, 'p) controller" where
  "log_line l s = s\<lparr>m_lines := m_lines s @ [l]\<rparr>"

text \<open>Calls of a member of \<^verbatim>\<open>m_p\<close>: one that returns a value, one that does not.\<close>

definition p_get ::
  "('p \<Rightarrow> ('a \<times> 'p) result) \<Rightarrow> ('q, 'cb, 'nt, 'p) controller
    \<Rightarrow> ('a \<times> ('q, 'cb, 'nt, 'p) controller) result" where
  "p_get f s = bindR (f (m_p s)) (\<lambda>(v, p). Inr (v, s\<lparr>m_p := p\<rparr>))"

definition p_do ::
  "('p \<Rightarrow> 'p result) \<Rightarrow> ('q, 'cb, 'nt, 'p) controller
    \<Rightarrow> ('q, 'cb, 'nt, 'p) controller result" where
  "p_do f s = bindR (f (m_p s)) (\<lambda>p. Inr (s\<lparr>m_p := p\<rparr>))"

definition called ::
  "port_call \<Rightarrow> ('q, 'cb, 'nt, 'p) controller \<Rightarrow> ('q, 'cb, 'nt, 'p) controller" where
  "called c s = s\<lparr>m_calls := m_calls s @ [c]\<rparr>"

definition issue ::
  "'p pulser_ops \<Rightarrow> pulse \<Rightarrow> ('q, 'cb, 'nt, 'p) controller
    \<Rightarrow> ('q, 'cb, 'nt, 'p) controller result" where
  "issue P c s = p_do (p_pulse P c) (called (Issue c) s)"

definition ctrl_release_hold ::
  "'p pulser_ops \<Rightarrow> ('q, 'cb, 'nt, 'p) controller \<Rightarrow> ('q, 'cb, 'nt, 'p) controller result" where
  "ctrl_release_hold P s = p_do (p_release_hold P) (called ReleaseHold s)"

section \<open>Concurrent access from the frontend\<close>

definition concurrent_set ::
  "'p pulser_ops \<Rightarrow> ('q, 'cb, 'nt, 'p) controller concurrent_set_fn" where
  "concurrent_set P op operand is_override val s =
     (if op \<noteq> TTL \<or> \<not> is_override then Inr (False, s)
      else
        let type = operand AND 3; bank = uint (drop_bit 2 operand)
        in bindR (assertR (0 \<le> bank \<and> bank < int NUM_TTL_BANKS)) (\<lambda>_.
           bindR (p_get (p_ttl_lomask P bank) s) (\<lambda>(lomask, s1).
           bindR (p_get (p_ttl_himask P bank) s1) (\<lambda>(himask, s2).
           let set_masks = (\<lambda>lo hi.
             bindR (p_do (p_set_ttl_lomask P lo bank) s2) (\<lambda>s3.
             bindR (p_do (p_set_ttl_himask P hi bank) s3) (\<lambda>s4. Inr (True, s4))))
           in if type = 0 then set_masks (lomask OR val) (himask AND NOT val)
              else if type = 1 then set_masks (lomask AND NOT val) (himask OR val)
              else if type = 2 then set_masks (lomask AND NOT val) (himask AND NOT val)
              else Inr (False, s2)))))"

definition concurrent_get ::
  "'p pulser_ops \<Rightarrow> ('q, 'cb, 'nt, 'p) controller concurrent_get_fn" where
  "concurrent_get P op operand is_override s =
     (if op = Clock then
        bindR (p_get (p_cur_clock P) s) (\<lambda>(v, s1). Inr (Some (ucast v), s1))
      else if op \<noteq> TTL then Inr (None, s)
      else
        let type = operand AND 3; bank = uint (drop_bit 2 operand)
        in bindR (assertR (0 \<le> bank \<and> bank < int NUM_TTL_BANKS)) (\<lambda>_.
           if \<not> is_override then
             (if type \<noteq> 0 then Inr (None, s)
              else
                bindR (p_get (p_cur_ttl P bank) s) (\<lambda>(ttl, s1).
                bindR (p_get (p_ttl_himask P bank) s1) (\<lambda>(himask, s2).
                bindR (p_get (p_ttl_lomask P bank) s2) (\<lambda>(lomask, s3).
                Inr (Some ((ttl OR himask) AND NOT lomask), s3)))))
           else if type = 0 then
             bindR (p_get (p_ttl_lomask P bank) s) (\<lambda>(v, s1). Inr (Some v, s1))
           else if type = 1 then
             bindR (p_get (p_ttl_himask P bank) s) (\<lambda>(v, s1). Inr (Some v, s1))
           else Inr (None, s)))"

definition ctrl_set_dds_timing1 ::
  "'p pulser_ops \<Rightarrow> int \<Rightarrow> int \<Rightarrow> int \<Rightarrow> int \<Rightarrow> int \<Rightarrow> ('q, 'cb, 'nt, 'p) controller
    \<Rightarrow> ('q, 'cb, 'nt, 'p) controller result" where
  "ctrl_set_dds_timing1 P adsu wrlow adhd fuddl fudhd s =
     (let timings = [adsu, wrlow, adhd, fuddl, fudhd];
          has_default = list_ex (\<lambda>t. t < 0) timings;
          has_set = list_ex (\<lambda>t. t \<ge> 0) timings
      in if list_ex (\<lambda>t. t > 7) timings
         then Inl (RuntimeError ''DDS write timing out of bound (max is 7).'')
         else if \<not> has_set then Inr s
         else
           bindR (p_get (p_hw_version P) s) (\<lambda>(hw_ver, s1).
           if \<not> check_at_least hw_ver \<lparr>major = 5, minor = 4\<rparr>
           then Inl (RuntimeError (''DDS write timing requires hardware version 5.4, got ''
                  @ to_string hw_ver))
           else
             bindR (if has_default
                    then bindR (p_get (p_get_dds_timing1 P) s1) (\<lambda>(defs, s2).
                           Inr (map2 (\<lambda>t d. if t < 0 then uint d else t) timings defs, s2))
                    else Inr (timings, s1)) (\<lambda>(ts, s2).
             p_do (p_set_dds_timing1 P (word_of_int (ts ! 0)) (word_of_int (ts ! 1))
                     (word_of_int (ts ! 2)) (word_of_int (ts ! 3)) (word_of_int (ts ! 4))) s2)))"

definition get_active_dds :: "('q, 'cb, 'nt, 'p) controller \<Rightarrow> int list" where
  "get_active_dds s = map int (filter (\<lambda>i. m_dds_exist s ! i) [0 ..< NDDS])"

fun ttl_ovr_loop ::
  "'p pulser_ops \<Rightarrow> int list \<Rightarrow> ('q, 'cb, 'nt, 'p) controller
    \<Rightarrow> (bool \<times> ('q, 'cb, 'nt, 'p) controller) result" where
  "ttl_ovr_loop P [] s = Inr (False, s)"
| "ttl_ovr_loop P (bank # banks) s =
     bindR (p_get (p_ttl_lomask P bank) s) (\<lambda>(lo, s1).
       if lo \<noteq> 0 then Inr (True, s1)
       else bindR (p_get (p_ttl_himask P bank) s1) (\<lambda>(hi, s2).
              if hi \<noteq> 0 then Inr (True, s2) else ttl_ovr_loop P banks s2))"

definition has_ttl_ovr ::
  "'p pulser_ops \<Rightarrow> ('q, 'cb, 'nt, 'p) controller
    \<Rightarrow> (bool \<times> ('q, 'cb, 'nt, 'p) controller) result" where
  "has_ttl_ovr P s = ttl_ovr_loop P (map int [0 ..< NUM_TTL_BANKS]) s"

section \<open>DDS housekeeping\<close>

definition check_dds ::
  "'p pulser_ops \<Rightarrow> nat \<Rightarrow> ('q, 'cb, 'nt, 'p) controller
    \<Rightarrow> (bool \<times> ('q, 'cb, 'nt, 'p) controller) result" where
  "check_dds P chn s =
     bindR (assertR (m_cmd_waiting s = None)) (\<lambda>_.
     bindR (nthR (m_dds_pending_reset s) chn) (\<lambda>pending.
     bindR (if pending then
              bindR (nthR (m_dds_ovr s) chn) (\<lambda>ovr.
              bindR (updR (m_dds_ovr s) chn
                       (ovr\<lparr>ds_phase_enable := False, ds_amp_enable := False, ds_freq := -1\<rparr>)) (\<lambda>ovrs.
              bindR (updR (m_dds_phase s) chn 0) (\<lambda>phases.
              Inr (s\<lparr>m_dds_ovr := ovrs, m_dds_phase := phases\<rparr>))))
            else Inr s) (\<lambda>s1.
     bindR (p_get (p_check_dds P (int chn) pending) (called (CheckDDS (int chn) pending) s1)) (\<lambda>(res, s2).
     bindR (updR (m_dds_pending_reset s2) chn False) (\<lambda>rs.
     Inr (res, s2\<lparr>m_dds_pending_reset := rs\<rparr>))))))"

text \<open>The lines of a dump; the text ends at the first empty rest.\<close>

function text_lines :: "string \<Rightarrow> string list" where
  "text_lines cs =
     (if cs = [] then []
      else takeWhile (\<lambda>c. c \<noteq> CHR 0x0A) cs #
        (case dropWhile (\<lambda>c. c \<noteq> CHR 0x0A) cs of [] \<Rightarrow> [] | _ # rest \<Rightarrow> text_lines rest))"
  by auto

termination
proof (relation "measure length")
  fix cs :: string and c rest
  assume "dropWhile (\<lambda>c. c \<noteq> CHR 0x0A) cs = c # rest"
  then have "Suc (length rest) \<le> length cs"
    by (metis length_Cons length_dropWhile_le)
  then show "(rest, cs) \<in> measure length"
    by simp
qed simp

declare text_lines.simps [simp del]

definition dump_dds ::
  "'p pulser_ops \<Rightarrow> nat \<Rightarrow> ('q, 'cb, 'nt, 'p) controller
    \<Rightarrow> ('q, 'cb, 'nt, 'p) controller result" where
  "dump_dds P i s =
     bindR (assertR (m_cmd_waiting s = None)) (\<lambda>_.
     bindR (p_get (p_dump_dds P (int i)) s) (\<lambda>(str, s1).
     Inr (fold (\<lambda>l. log_line (LogInfo l)) (text_lines str) s1)))"

definition detect_dds_chn ::
  "'p pulser_ops \<Rightarrow> bool \<Rightarrow> nat \<Rightarrow> ('q, 'cb, 'nt, 'p) controller
    \<Rightarrow> ('q, 'cb, 'nt, 'p) controller result" where
  "detect_dds_chn P force i s =
     bindR (p_get (p_dds_exists P (int i)) s) (\<lambda>(ex, s1).
       if \<not> ex then
         bindR (updR (m_dds_exist s1) i False) (\<lambda>es.
         bindR (updR (m_dds_pending_reset s1) i False) (\<lambda>rs.
         Inr (s1\<lparr>m_dds_exist := es, m_dds_pending_reset := rs\<rparr>)))
       else
         bindR (updR (m_dds_exist s1) i True) (\<lambda>es.
         bindR (if force then updR (m_dds_pending_reset s1) i True
                else Inr (m_dds_pending_reset s1)) (\<lambda>rs.
         bindR (check_dds P i (s1\<lparr>m_dds_exist := es, m_dds_pending_reset := rs\<rparr>)) (\<lambda>(res, s2).
         let s3 = (if res \<and> force then log_line (LogReinit (int i)) s2 else s2)
         in if force then dump_dds P i s3 else Inr s3))))"

definition detect_dds ::
  "'p pulser_ops \<Rightarrow> bool \<Rightarrow> ('q, 'cb, 'nt, 'p) controller
    \<Rightarrow> ('q, 'cb, 'nt, 'p) controller result" where
  "detect_dds P force s =
     bindR (assertR (m_cmd_waiting s = None)) (\<lambda>_.
       let (t, s1) = getCoarseTime s
       in if \<not> force \<and> t < m_dds_check_time s1 + 1000000000 \<and>
             \<not> list_ex (\<lambda>v. v) (m_dds_pending_reset s1) then Inr s1
          else bindR (foldR (detect_dds_chn P force) [0 ..< NDDS] s1) (\<lambda>s2.
                 Inr (s2\<lparr>m_dds_check_time := t\<rparr>)))"

definition sync_ttl_bank ::
  "'p pulser_ops \<Rightarrow> nat \<Rightarrow> ('q, 'cb, 'nt, 'p) controller
    \<Rightarrow> ('q, 'cb, 'nt, 'p) controller result" where
  "sync_ttl_bank P i s =
     bindR (p_get (p_cur_ttl P (int i)) s) (\<lambda>(ttl, s1).
     bindR (nthR (m_ttl s1) i) (\<lambda>old.
       if ttl \<noteq> old then
         bindR (updR (m_ttl s1) i ttl) (\<lambda>ts.
         Inr (log_line (LogSync i old ttl) (s1\<lparr>m_ttl := ts\<rparr>)))
       else Inr s1))"

definition sync_ttl ::
  "'p pulser_ops \<Rightarrow> ('q, 'cb, 'nt, 'p) controller
    \<Rightarrow> ('q, 'cb, 'nt, 'p) controller result" where
  "sync_ttl P s = foldR (sync_ttl_bank P) [0 ..< NUM_TTL_BANKS] s"


section \<open>What the backend runs against\<close>

text \<open>
  The parameters of the class and of the code it calls: the pulser's members, the queue, the
  instruction times of nacs-seq, \<^verbatim>\<open>getCoarseRes()\<close> and \<^verbatim>\<open>setBit\<close> of nacs-utils, and \<open>e_frontend\<close>, what the other threads did
  to the shared state since the last time a loop of the worker looked. A function of the whole
  state stands for any sequence of such steps.
\<close>

record ('q, 'cb, 'nt, 'p) ctrl_env =
  e_P :: "'p pulser_ops"
  e_Q :: "'q fqueue_ops"
  e_pt :: pulse_times
  e_res :: u64
  e_setBit :: "u32 \<Rightarrow> u8 \<Rightarrow> bool \<Rightarrow> u32"
  e_frontend :: "('q, 'cb, 'nt, 'p) controller \<Rightarrow> ('q, 'cb, 'nt, 'p) controller"

record runner =
  r_ttlmask :: "u32 list"
  r_preserve_ttl :: "u32 list"
  r_t :: u64
  r_start_t :: u64
  r_min_t :: u64
  r_process_cmd :: bool
  r_released :: bool

definition Runner ::
  "('q, 'cb, 'nt, 'p) ctrl_env \<Rightarrow> u32 list \<Rightarrow> u64 \<Rightarrow> ('q, 'cb, 'nt, 'p) controller
    \<Rightarrow> runner \<times> ('q, 'cb, 'nt, 'p) controller" where
  "Runner E ttlmask seq_len_ns s =
     (let (t, s1) = getCoarseTime s
      in (\<lparr>r_ttlmask = ttlmask,
            r_preserve_ttl = map2 (\<lambda>msk ttl. NOT msk AND ttl) ttlmask (m_ttl s1),
            r_t = 0, r_start_t = t, r_min_t = max (e_res E * 20) 500000000,
            r_process_cmd = (seq_len_ns > 1000000000), r_released = False\<rparr>, s1))"

definition update_preserve_ttl :: "u32 \<Rightarrow> nat \<Rightarrow> runner \<Rightarrow> runner result" where
  "update_preserve_ttl ttl bank r =
     bindR (nthR (r_ttlmask r) bank) (\<lambda>msk.
     bindR (updR (r_preserve_ttl r) bank (ttl AND NOT msk)) (\<lambda>xs.
     Inr (r\<lparr>r_preserve_ttl := xs\<rparr>)))"

definition enable_process_cmd :: "runner \<Rightarrow> runner" where
  "enable_process_cmd r = r\<lparr>r_process_cmd := True\<rparr>"

section \<open>Requests from the queue\<close>

type_synonym ('q, 'cb, 'nt, 'p) rstate = "runner option \<times> ('q, 'cb, 'nt, 'p) controller"

definition run_cmd_ttl ::
  "('q, 'cb, 'nt, 'p) ctrl_env \<Rightarrow> bool \<Rightarrow> ReqCmd \<Rightarrow> ('q, 'cb, 'nt, 'p) rstate
    \<Rightarrow> ((u32 \<times> bool) \<times> ('q, 'cb, 'nt, 'p) rstate) result" where
  "run_cmd_ttl E checked cmd = (\<lambda>(r, s).
     bindR (assertR (\<not> rc_has_res cmd \<and> \<not> rc_is_override cmd)) (\<lambda>_.
       let type = rc_operand cmd AND 3; bank = unat (drop_bit 2 (rc_operand cmd))
       in bindR (nthR (m_ttl s) bank) (\<lambda>old.
          let ttl = (if type \<noteq> 0 then old OR rc_val cmd else old AND NOT (rc_val cmd))
          in bindR (updR (m_ttl s) bank ttl) (\<lambda>ts.
             bindR (case r of
                      None \<Rightarrow> Inr None
                    | Some r0 \<Rightarrow> bindR (update_preserve_ttl ttl bank r0) (\<lambda>r1. Inr (Some r1))) (\<lambda>r'.
             bindR (issue (e_P E) (P_ttl checked ttl (PT_Min (e_pt E)) (int bank)) (s\<lparr>m_ttl := ts\<rparr>)) (\<lambda>s'.
             Inr ((PT_Min (e_pt E), False), (r', s'))))))))"

definition run_cmd_freq ::
  "('q, 'cb, 'nt, 'p) ctrl_env \<Rightarrow> bool \<Rightarrow> ReqCmd \<Rightarrow> ('q, 'cb, 'nt, 'p) controller
    \<Rightarrow> ((u32 \<times> bool) \<times> ('q, 'cb, 'nt, 'p) controller) result" where
  "run_cmd_freq E checked cmd s =
     (let has_res = rc_has_res cmd; chn = unat (rc_operand cmd); val = rc_val cmd;
          T = PT_DDSFreq (e_pt E)
      in bindR (assertR (chn < 22)) (\<lambda>_.
         bindR (nthR (m_dds_ovr s) chn) (\<lambda>ovr.
         let is_override = (rc_is_override cmd \<or> (ds_freq ovr \<noteq> -1 \<and> \<not> has_res))
         in if is_override then
              bindR (assertR (\<not> has_res)) (\<lambda>_.
                if val = ds_freq ovr then Inr ((0, False), s)
                else
                  bindR (updR (m_dds_ovr s) chn (ovr\<lparr>ds_freq := val\<rparr>)) (\<lambda>ovrs.
                  let s1 = s\<lparr>m_dds_ovr := ovrs\<rparr>
                  in if val = -1 then Inr ((0, False), s1)
                     else bindR (issue (e_P E) (P_dds_set_freq checked (int chn) val) s1) (\<lambda>s2.
                            Inr ((T, False), s2))))
            else if \<not> has_res then
              bindR (issue (e_P E) (P_dds_set_freq checked (int chn) val) s) (\<lambda>s2.
              Inr ((T, False), s2))
            else
              bindR (issue (e_P E) (P_dds_get_freq checked (int chn)) s) (\<lambda>s2.
              Inr ((T, True), s2)))))"

definition run_cmd_amp ::
  "('q, 'cb, 'nt, 'p) ctrl_env \<Rightarrow> bool \<Rightarrow> ReqCmd \<Rightarrow> ('q, 'cb, 'nt, 'p) controller
    \<Rightarrow> ((u32 \<times> bool) \<times> ('q, 'cb, 'nt, 'p) controller) result" where
  "run_cmd_amp E checked cmd s =
     (let has_res = rc_has_res cmd; chn = unat (rc_operand cmd); val = rc_val cmd;
          val16 = ucast val :: u16; T = PT_DDSAmp (e_pt E)
      in bindR (assertR (chn < 22)) (\<lambda>_.
         bindR (nthR (m_dds_ovr s) chn) (\<lambda>ovr.
         let is_override = (rc_is_override cmd \<or> (ds_amp_enable ovr \<and> \<not> has_res))
         in if is_override then
              bindR (assertR (\<not> has_res)) (\<lambda>_.
                if val16 = ds_amp ovr \<and> ds_amp_enable ovr then Inr ((0, False), s)
                else if val = -1 then
                  (if ds_amp_enable ovr then
                     bindR (updR (m_dds_ovr s) chn (ovr\<lparr>ds_amp_enable := False\<rparr>)) (\<lambda>ovrs.
                     Inr ((0, False), s\<lparr>m_dds_ovr := ovrs\<rparr>))
                   else Inr ((0, False), s))
                else
                  bindR (updR (m_dds_ovr s) chn
                     (ovr\<lparr>ds_amp := val16 AND (push_bit 12 1 - 1), ds_amp_enable := True\<rparr>)) (\<lambda>ovrs.
                  bindR (issue (e_P E) (P_dds_set_amp checked (int chn) val16) (s\<lparr>m_dds_ovr := ovrs\<rparr>)) (\<lambda>s2.
                  Inr ((T, False), s2))))
            else if \<not> has_res then
              bindR (issue (e_P E) (P_dds_set_amp checked (int chn) val16) s) (\<lambda>s2.
              Inr ((T, False), s2))
            else
              bindR (issue (e_P E) (P_dds_get_amp checked (int chn)) s) (\<lambda>s2.
              Inr ((T, True), s2)))))"

definition run_cmd_phase ::
  "('q, 'cb, 'nt, 'p) ctrl_env \<Rightarrow> bool \<Rightarrow> ReqCmd \<Rightarrow> ('q, 'cb, 'nt, 'p) controller
    \<Rightarrow> ((u32 \<times> bool) \<times> ('q, 'cb, 'nt, 'p) controller) result" where
  "run_cmd_phase E checked cmd s =
     (let has_res = rc_has_res cmd; chn = unat (rc_operand cmd); val = rc_val cmd;
          val16 = ucast val :: u16; T = PT_DDSPhase (e_pt E)
      in bindR (assertR (chn < 22)) (\<lambda>_.
         bindR (nthR (m_dds_ovr s) chn) (\<lambda>ovr.
         let is_override = (rc_is_override cmd \<or> (ds_phase_enable ovr \<and> \<not> has_res))
         in if is_override then
              bindR (assertR (\<not> has_res)) (\<lambda>_.
                if val16 = ds_phase ovr \<and> ds_phase_enable ovr then Inr ((0, False), s)
                else if val = -1 then
                  (if ds_phase_enable ovr then
                     bindR (updR (m_dds_ovr s) chn (ovr\<lparr>ds_phase_enable := False\<rparr>)) (\<lambda>ovrs.
                     Inr ((0, False), s\<lparr>m_dds_ovr := ovrs\<rparr>))
                   else Inr ((0, False), s))
                else
                  bindR (updR (m_dds_ovr s) chn
                     (ovr\<lparr>ds_phase := val16, ds_phase_enable := True\<rparr>)) (\<lambda>ovrs.
                  bindR (updR (m_dds_phase s) chn val16) (\<lambda>phases.
                  bindR (issue (e_P E) (P_dds_set_phase checked (int chn) val16)
                     (s\<lparr>m_dds_ovr := ovrs, m_dds_phase := phases\<rparr>)) (\<lambda>s2.
                  Inr ((T, False), s2)))))
            else if \<not> has_res then
              bindR (updR (m_dds_phase s) chn val16) (\<lambda>phases.
              bindR (issue (e_P E) (P_dds_set_phase checked (int chn) val16)
                 (s\<lparr>m_dds_phase := phases\<rparr>)) (\<lambda>s2.
              Inr ((T, False), s2)))
            else
              bindR (issue (e_P E) (P_dds_get_phase checked (int chn)) s) (\<lambda>s2.
              Inr ((T, True), s2)))))"

definition run_cmd_reset ::
  "ReqCmd \<Rightarrow> ('q, 'cb, 'nt, 'p) controller
    \<Rightarrow> ((u32 \<times> bool) \<times> ('q, 'cb, 'nt, 'p) controller) result" where
  "run_cmd_reset cmd s =
     bindR (assertR (\<not> rc_is_override cmd \<and> \<not> rc_has_res cmd \<and> rc_val cmd = 0)) (\<lambda>_.
     bindR (assertR (unat (rc_operand cmd) < 22)) (\<lambda>_.
     bindR (updR (m_dds_pending_reset s) (unat (rc_operand cmd)) True) (\<lambda>rs.
     Inr ((0, False), s\<lparr>m_dds_pending_reset := rs\<rparr>))))"

definition run_cmd_clock ::
  "('q, 'cb, 'nt, 'p) ctrl_env \<Rightarrow> bool \<Rightarrow> ReqCmd \<Rightarrow> ('q, 'cb, 'nt, 'p) controller
    \<Rightarrow> ((u32 \<times> bool) \<times> ('q, 'cb, 'nt, 'p) controller) result" where
  "run_cmd_clock E checked cmd s =
     bindR (assertR (\<not> rc_is_override cmd \<and> \<not> rc_has_res cmd \<and> rc_operand cmd = 0)) (\<lambda>_.
     bindR (issue (e_P E) (P_clock checked (ucast (rc_val cmd))) s) (\<lambda>s2.
     Inr ((PT_Clock (e_pt E), False), s2)))"

definition keep_runner ::
  "runner option \<Rightarrow> ((u32 \<times> bool) \<times> ('q, 'cb, 'nt, 'p) controller) result
    \<Rightarrow> ((u32 \<times> bool) \<times> ('q, 'cb, 'nt, 'p) rstate) result" where
  "keep_runner r m = bindR m (\<lambda>(v, s). Inr (v, (r, s)))"

definition run_cmd ::
  "('q, 'cb, 'nt, 'p) ctrl_env \<Rightarrow> bool \<Rightarrow> ReqCmd \<Rightarrow> ('q, 'cb, 'nt, 'p) rstate
    \<Rightarrow> ((u32 \<times> bool) \<times> ('q, 'cb, 'nt, 'p) rstate) result" where
  "run_cmd E checked cmd = (\<lambda>(r, s).
     case rc_opcode cmd of
       TTL \<Rightarrow> run_cmd_ttl E checked cmd (r, s)
     | DDSFreq \<Rightarrow> keep_runner r (run_cmd_freq E checked cmd s)
     | DDSAmp \<Rightarrow> keep_runner r (run_cmd_amp E checked cmd s)
     | DDSPhase \<Rightarrow> keep_runner r (run_cmd_phase E checked cmd s)
     | DDSReset \<Rightarrow> keep_runner r (run_cmd_reset cmd s)
     | Clock \<Rightarrow> keep_runner r (run_cmd_clock E checked cmd s))"

definition finish_event ::
  "('q, 'cb, 'nt, 'p) ctrl_env \<Rightarrow> bool \<Rightarrow> ('q, 'cb, 'nt, 'p) controller
    \<Rightarrow> ('q, 'cb, 'nt, 'p) controller" where
  "finish_event E checked s =
     (let s1 = finish_cmd (e_Q E) s in if \<not> checked then backend_event s1 else s1)"

definition try_get_result ::
  "('q, 'cb, 'nt, 'p) ctrl_env \<Rightarrow> bool \<Rightarrow> ('q, 'cb, 'nt, 'p) controller
    \<Rightarrow> ((bool \<times> bool) \<times> ('q, 'cb, 'nt, 'p) controller) result" where
  "try_get_result E checked s =
     (case m_cmd_waiting s of
        None \<Rightarrow> Inr ((False, False), s)
      | Some a \<Rightarrow>
          bindR (p_get (p_try_get_result (e_P E)) s) (\<lambda>(got, s1).
            case got of
              None \<Rightarrow> Inr ((True, False), s1)
            | Some v \<Rightarrow>
                (case m_cmd_store s1 a of
                   None \<Rightarrow> Inl OutOfRange
                 | Some cmd \<Rightarrow>
                     Inr ((True, True), finish_event E checked
                       (s1\<lparr>m_cmd_store := (m_cmd_store s1)(a \<mapsto> cmd\<lparr>rc_val := v\<rparr>),
                           m_cmd_waiting := None\<rparr>)))))"

text \<open>The block that runs the command \<open>a\<close> that \<^verbatim>\<open>get_cmd\<close> returned.\<close>

definition process_next ::
  "('q, 'cb, 'nt, 'p) ctrl_env \<Rightarrow> bool \<Rightarrow> addr \<Rightarrow> ('q, 'cb, 'nt, 'p) rstate
    \<Rightarrow> ((u32 \<times> bool) \<times> ('q, 'cb, 'nt, 'p) rstate) result" where
  "process_next E checked a = (\<lambda>(r, s).
     case m_cmd_store s a of
       None \<Rightarrow> Inl OutOfRange
     | Some cmd \<Rightarrow>
         bindR (run_cmd E checked cmd (r, s)) (\<lambda>((stept, needs_res), (r', s')).
           Inr ((stept, True),
             (r', if needs_res then s'\<lparr>m_cmd_waiting := Some a\<rparr> else finish_event E checked s'))))"

definition process_reqcmd ::
  "('q, 'cb, 'nt, 'p) ctrl_env \<Rightarrow> bool \<Rightarrow> ('q, 'cb, 'nt, 'p) rstate
    \<Rightarrow> ((u32 \<times> bool) \<times> ('q, 'cb, 'nt, 'p) rstate) result" where
  "process_reqcmd E checked = (\<lambda>(r, s).
     bindR (try_get_result E checked s) (\<lambda>((processed, res_read), s1).
       if res_read then Inr ((0, True), (r, s1))
       else if m_cmd_waiting s1 \<noteq> None then Inr ((0, True), (r, s1))
       else case get_cmd (e_Q E) s1 of
              None \<Rightarrow> Inr ((0, processed), (r, s1))
            | Some a \<Rightarrow> process_next E checked a (r, s1)))"

section \<open>Running a sequence\<close>

text \<open>Array access with a C++ \<^verbatim>\<open>int\<close>.\<close>

definition nthI :: "'a list \<Rightarrow> int \<Rightarrow> 'a result" where
  "nthI xs i = (if i < 0 then Inl OutOfRange else nthR xs (nat i))"

definition updI :: "'a list \<Rightarrow> int \<Rightarrow> 'a \<Rightarrow> 'a list result" where
  "updI xs i v = (if i < 0 then Inl OutOfRange else updR xs (nat i) v)"

type_synonym ('q, 'cb, 'nt, 'p) running = "runner \<times> ('q, 'cb, 'nt, 'p) controller"

text \<open>\<^verbatim>\<open>m_t += t\<close> followed by one instruction.\<close>

definition advance ::
  "('q, 'cb, 'nt, 'p) ctrl_env \<Rightarrow> u64 \<Rightarrow> pulse \<Rightarrow> ('q, 'cb, 'nt, 'p) running
    \<Rightarrow> ('q, 'cb, 'nt, 'p) running result" where
  "advance E t c = (\<lambda>(r, s).
     bindR (issue (e_P E) c s) (\<lambda>s'. Inr (r\<lparr>r_t := r_t r + t\<rparr>, s')))"

lemma max_wait_64: "(ucast max_wait_t :: u64) = 0xffffff"
  by (simp add: max_wait_t_eq)

text \<open>The loop of the lambda \<^verbatim>\<open>output_wait\<close>, after its \<^verbatim>\<open>m_t += t\<close>.\<close>

function output_waits ::
  "'p pulser_ops \<Rightarrow> bool \<Rightarrow> u64 \<Rightarrow> ('q, 'cb, 'nt, 'p) controller
    \<Rightarrow> ('q, 'cb, 'nt, 'p) controller result" where
  "output_waits P checked t s =
     (if t > ucast max_wait_t + 100 then
        bindR (issue P (P_wait checked max_wait_t) s) (output_waits P checked (t - ucast max_wait_t))
      else if t > ucast max_wait_t then
        (let t0 = t div 2
         in bindR (issue P (P_wait checked (ucast t0)) s)
              (issue P (P_wait checked (ucast (t - t0)))))
      else if t > 0 then issue P (P_wait checked (ucast t)) s
      else Inr s)"
  by auto

termination
proof (relation "measure (\<lambda>(P, checked, t, s). unat t)")
  fix t :: u64
  assume "t > ucast max_wait_t + 100"
  then have "(0xffffff :: u64) \<le> t"
    by (simp add: max_wait_64 word_le_nat_alt word_less_nat_alt)
  then show "((P, checked, t - ucast max_wait_t, s), P, checked, t, s') \<in> measure (\<lambda>(P, checked, t, s). unat t)"
    for P :: "'p pulser_ops" and checked and s s' :: "('q, 'cb, 'nt, 'p) controller"
    by (simp add: max_wait_64 unat_sub word_le_nat_alt)
qed simp

declare output_waits.simps [simp del]

definition output_wait ::
  "('q, 'cb, 'nt, 'p) ctrl_env \<Rightarrow> bool \<Rightarrow> u64 \<Rightarrow> ('q, 'cb, 'nt, 'p) running
    \<Rightarrow> ('q, 'cb, 'nt, 'p) running result" where
  "output_wait E checked t = (\<lambda>(r, s).
     bindR (output_waits (e_P E) checked t s) (\<lambda>s'. Inr (r\<lparr>r_t := r_t r + t\<rparr>, s')))"

text \<open>
  The \<^verbatim>\<open>while (true)\<close> of \<^verbatim>\<open>Runner::wait\<close>; \<open>fuel\<close> bounds its iterations, since it polls the clock
  and the queue. \<^verbatim>\<open>release_first\<close> is the branch for \<^verbatim>\<open>!m_released\<close>.
\<close>

definition release_first ::
  "('q, 'cb, 'nt, 'p) ctrl_env \<Rightarrow> bool \<Rightarrow> u64 \<Rightarrow> ('q, 'cb, 'nt, 'p) running
    \<Rightarrow> (u64 \<times> ('q, 'cb, 'nt, 'p) running) result" where
  "release_first E checked t = (\<lambda>(r, s).
     if r_released r then Inr (t, (r, s))
     else
       bindR (assertR (t \<ge> 2000)) (\<lambda>_.
       bindR (advance E 1000 (P_wait checked 1000) (r\<lparr>r_released := True\<rparr>, s)) (\<lambda>(r1, s1).
       bindR (ctrl_release_hold (e_P E) s1) (\<lambda>s2. Inr (t - 1000, (r1, s2))))))"

text \<open>The rest of an iteration that has time for requests; the result is the remaining time.\<close>

definition wait_poll ::
  "('q, 'cb, 'nt, 'p) ctrl_env \<Rightarrow> bool \<Rightarrow> u64 \<Rightarrow> ('q, 'cb, 'nt, 'p) running
    \<Rightarrow> (u64 \<times> ('q, 'cb, 'nt, 'p) running) result" where
  "wait_poll E checked t rs =
     bindR (release_first E checked t rs) (\<lambda>(t1, (r1, s1)).
     bindR (process_reqcmd E checked (Some r1, s1)) (\<lambda>((stept, processed), (r2, s2)).
       case r2 of
         None \<Rightarrow> Inl Abort
       | Some r3 \<Rightarrow>
           Inr (if \<not> processed then (t1, (r3, s2))
                else (t1 - ucast stept, (r3\<lparr>r_t := r_t r3 + ucast stept\<rparr>, s2)))))"

fun wait_loop ::
  "('q, 'cb, 'nt, 'p) ctrl_env \<Rightarrow> bool \<Rightarrow> nat \<Rightarrow> u64 \<Rightarrow> ('q, 'cb, 'nt, 'p) running
    \<Rightarrow> ('q, 'cb, 'nt, 'p) running result" where
  "wait_loop E checked 0 t rs = Inl OutOfFuel"
| "wait_loop E checked (Suc fuel) t (r, s0) =
     (let (tnow, s) = getCoarseTime (e_frontend E s0);
          seq_rt = r_start_t r + r_t r * 10;
          thresh_rt = tnow + r_min_t r
      in if seq_rt < thresh_rt then
           (let min_seqt = max ((seq_rt - thresh_rt) div 10) 10000
            in if t \<le> min_seqt + 3000 then output_wait E checked t (r, s)
               else bindR (output_wait E checked min_seqt (r, s))
                      (wait_loop E checked fuel (t - min_seqt)))
         else
           bindR (wait_poll E checked t (r, s)) (\<lambda>(t', rs'). wait_loop E checked fuel t' rs'))"

definition runner_wait ::
  "('q, 'cb, 'nt, 'p) ctrl_env \<Rightarrow> nat \<Rightarrow> bool \<Rightarrow> u64 \<Rightarrow> ('q, 'cb, 'nt, 'p) running
    \<Rightarrow> ('q, 'cb, 'nt, 'p) running result" where
  "runner_wait E fuel checked t = (\<lambda>(r, s).
     if \<not> r_process_cmd r then output_wait E checked t (r, s)
     else if t < 2000 then advance E t (P_wait checked (ucast t)) (r, s)
     else wait_loop E checked fuel t (r, s))"

definition runner_ttl ::
  "('q, 'cb, 'nt, 'p) ctrl_env \<Rightarrow> nat \<Rightarrow> u32 \<Rightarrow> u64 \<Rightarrow> int \<Rightarrow> ('q, 'cb, 'nt, 'p) running
    \<Rightarrow> ('q, 'cb, 'nt, 'p) running result" where
  "runner_ttl E fuel ttl t bank = (\<lambda>(r, s).
     bindR (nthI (r_preserve_ttl r) bank) (\<lambda>keep.
     bindR (updI (m_ttl s) bank (ttl OR keep)) (\<lambda>ts.
       let s1 = s\<lparr>m_ttl := ts\<rparr>
       in if t \<le> 1000 then advance E t (P_ttl True (ttl OR keep) (ucast t) bank) (r, s1)
          else bindR (advance E 100 (P_ttl True (ttl OR keep) 100 bank) (r, s1))
                 (runner_wait E fuel True (t - 100)))))"

definition runner_ttl1 ::
  "('q, 'cb, 'nt, 'p) ctrl_env \<Rightarrow> nat \<Rightarrow> int \<Rightarrow> bool \<Rightarrow> u64 \<Rightarrow> ('q, 'cb, 'nt, 'p) running
    \<Rightarrow> ('q, 'cb, 'nt, 'p) running result" where
  "runner_ttl1 E fuel full_chn val t = (\<lambda>(r, s).
     let chn = (word_of_int (full_chn AND 31) :: u8); bank = uint (chn div 32)
     in bindR (nthI (m_ttl s) bank) (\<lambda>old.
        runner_ttl E fuel (e_setBit E old chn val) t bank (r, s)))"

definition runner_dds_freq ::
  "('q, 'cb, 'nt, 'p) ctrl_env \<Rightarrow> nat \<Rightarrow> u8 \<Rightarrow> u32 \<Rightarrow> ('q, 'cb, 'nt, 'p) running
    \<Rightarrow> ('q, 'cb, 'nt, 'p) running result" where
  "runner_dds_freq E fuel chn freq = (\<lambda>(r, s).
     bindR (nthR (m_dds_ovr s) (unat chn)) (\<lambda>ovr.
       if ds_freq ovr \<noteq> -1 then runner_wait E fuel True (ucast (PT_DDSFreq (e_pt E))) (r, s)
       else advance E (ucast (PT_DDSFreq (e_pt E))) (P_dds_set_freq True (uint chn) freq) (r, s)))"

definition runner_dds_amp ::
  "('q, 'cb, 'nt, 'p) ctrl_env \<Rightarrow> nat \<Rightarrow> u8 \<Rightarrow> u16 \<Rightarrow> ('q, 'cb, 'nt, 'p) running
    \<Rightarrow> ('q, 'cb, 'nt, 'p) running result" where
  "runner_dds_amp E fuel chn amp = (\<lambda>(r, s).
     bindR (nthR (m_dds_ovr s) (unat chn)) (\<lambda>ovr.
       if ds_amp_enable ovr then runner_wait E fuel True (ucast (PT_DDSAmp (e_pt E))) (r, s)
       else advance E (ucast (PT_DDSAmp (e_pt E))) (P_dds_set_amp True (uint chn) amp) (r, s)))"

definition runner_dds_phase ::
  "('q, 'cb, 'nt, 'p) ctrl_env \<Rightarrow> nat \<Rightarrow> u8 \<Rightarrow> u16 \<Rightarrow> ('q, 'cb, 'nt, 'p) running
    \<Rightarrow> ('q, 'cb, 'nt, 'p) running result" where
  "runner_dds_phase E fuel chn phase = (\<lambda>(r, s).
     bindR (nthR (m_dds_ovr s) (unat chn)) (\<lambda>ovr.
       if ds_phase_enable ovr then runner_wait E fuel True (ucast (PT_DDSPhase (e_pt E))) (r, s)
       else
         bindR (updR (m_dds_phase s) (unat chn) phase) (\<lambda>phases.
         advance E (ucast (PT_DDSPhase (e_pt E))) (P_dds_set_phase True (uint chn) phase)
           (r, s\<lparr>m_dds_phase := phases\<rparr>))))"

definition runner_dds_detphase ::
  "('q, 'cb, 'nt, 'p) ctrl_env \<Rightarrow> nat \<Rightarrow> u8 \<Rightarrow> u16 \<Rightarrow> ('q, 'cb, 'nt, 'p) running
    \<Rightarrow> ('q, 'cb, 'nt, 'p) running result" where
  "runner_dds_detphase E fuel chn detphase = (\<lambda>(r, s).
     bindR (nthR (m_dds_ovr s) (unat chn)) (\<lambda>ovr.
       if ds_phase_enable ovr then runner_wait E fuel True (ucast (PT_DDSPhase (e_pt E))) (r, s)
       else
         bindR (nthR (m_dds_phase s) (unat chn)) (\<lambda>phase.
         runner_dds_phase E fuel chn (phase + detphase) (r, s))))"

definition runner_dac ::
  "('q, 'cb, 'nt, 'p) ctrl_env \<Rightarrow> u8 \<Rightarrow> u16 \<Rightarrow> ('q, 'cb, 'nt, 'p) running
    \<Rightarrow> ('q, 'cb, 'nt, 'p) running result" where
  "runner_dac E chn V rs = advance E (ucast (PT_DAC (e_pt E))) (P_dac True chn V) rs"

definition runner_clock ::
  "('q, 'cb, 'nt, 'p) ctrl_env \<Rightarrow> bool \<Rightarrow> u8 \<Rightarrow> ('q, 'cb, 'nt, 'p) running
    \<Rightarrow> ('q, 'cb, 'nt, 'p) running result" where
  "runner_clock E checked period rs =
     advance E (ucast (PT_Clock (e_pt E))) (P_clock checked period) rs"

definition runner_wait_trigger ::
  "('q, 'cb, 'nt, 'p) ctrl_env \<Rightarrow> u8 \<Rightarrow> bool \<Rightarrow> u32 \<Rightarrow> ('q, 'cb, 'nt, 'p) running
    \<Rightarrow> ('q, 'cb, 'nt, 'p) running result" where
  "runner_wait_trigger E chn trig_raise timeout = (\<lambda>(r, s).
     bindR (issue (e_P E) (P_wait_trigger True chn trig_raise timeout) s) (\<lambda>s1.
       let (t, s2) = getCoarseTime s1
       in Inr (r\<lparr>r_t := 0, r_start_t := t\<rparr>, s2)))"

text \<open>
  \<^verbatim>\<open>ExeState::run\<close> of nacs-seq calls the members of the runner. They return nothing, so the calls
  are a function of the program alone: the parameter \<open>exe\<close> gives, for the kind of program, the
  minimum time (\<open>None\<close>: the interpreter's default), the code and the version, the calls and
  the message of the exception that ended them, if any.
\<close>

datatype runner_call =
    R_ttl1 int bool u64
  | R_ttl u32 u64 int
  | R_dds_freq u8 u32
  | R_dds_amp u8 u16
  | R_dds_phase u8 u16
  | R_dds_detphase u8 u16
  | R_dac u8 u16
  | R_clock u8
  | R_wait u64
  | R_wait_trigger u8 bool u32

type_synonym exe_fn = "bool \<Rightarrow> u32 option \<Rightarrow> bytes \<Rightarrow> u32 \<Rightarrow> runner_call list \<times> string option"

fun run_call ::
  "('q, 'cb, 'nt, 'p) ctrl_env \<Rightarrow> nat \<Rightarrow> runner_call \<Rightarrow> ('q, 'cb, 'nt, 'p) running
    \<Rightarrow> ('q, 'cb, 'nt, 'p) running result" where
  "run_call E fuel (R_ttl1 chn v t) rs = runner_ttl1 E fuel chn v t rs"
| "run_call E fuel (R_ttl v t bank) rs = runner_ttl E fuel v t bank rs"
| "run_call E fuel (R_dds_freq chn v) rs = runner_dds_freq E fuel chn v rs"
| "run_call E fuel (R_dds_amp chn v) rs = runner_dds_amp E fuel chn v rs"
| "run_call E fuel (R_dds_phase chn v) rs = runner_dds_phase E fuel chn v rs"
| "run_call E fuel (R_dds_detphase chn v) rs = runner_dds_detphase E fuel chn v rs"
| "run_call E fuel (R_dac chn v) rs = runner_dac E chn v rs"
| "run_call E fuel (R_clock v) rs = runner_clock E True v rs"
| "run_call E fuel (R_wait t) rs = runner_wait E fuel True t rs"
| "run_call E fuel (R_wait_trigger chn v t) rs = runner_wait_trigger E chn v t rs"


text \<open>The polling loops of \<^verbatim>\<open>run_seq\<close>; each reads the pulser once per iteration.\<close>

fun drain_results ::
  "('q, 'cb, 'nt, 'p) ctrl_env \<Rightarrow> nat \<Rightarrow> ('q, 'cb, 'nt, 'p) controller
    \<Rightarrow> ('q, 'cb, 'nt, 'p) controller result" where
  "drain_results E 0 s = Inl OutOfFuel"
| "drain_results E (Suc fuel) s =
     bindR (try_get_result E False (e_frontend E s)) (\<lambda>((waiting, _), s1).
       if \<not> waiting then Inr s1 else drain_results E fuel s1)"

fun wait_finished ::
  "('q, 'cb, 'nt, 'p) ctrl_env \<Rightarrow> nat \<Rightarrow> ('q, 'cb, 'nt, 'p) controller
    \<Rightarrow> ('q, 'cb, 'nt, 'p) controller result" where
  "wait_finished E 0 s = Inl OutOfFuel"
| "wait_finished E (Suc fuel) s =
     bindR (p_get (p_is_finished (e_P E)) s) (\<lambda>(fin, s1).
       if fin then Inr s1 else wait_finished E fuel (e_frontend E s1))"

fun wait_seq_end ::
  "('q, 'cb, 'nt, 'p) ctrl_env \<Rightarrow> nat \<Rightarrow> ('q, 'cb, 'nt, 'p) running
    \<Rightarrow> ('q, 'cb, 'nt, 'p) running result" where
  "wait_seq_end E 0 rs = Inl OutOfFuel"
| "wait_seq_end E (Suc fuel) (r, s) =
     bindR (p_get (p_is_finished (e_P E)) s) (\<lambda>(fin, s1).
       if fin then Inr (r, s1)
       else
         bindR (process_reqcmd E False (Some r, e_frontend E s1)) (\<lambda>(_, (r2, s2)).
           case r2 of None \<Rightarrow> Inl Abort | Some r3 \<Rightarrow> wait_seq_end E fuel (r3, s2)))"

definition set_seq_state ::
  "addr \<Rightarrow> ReqSeqState \<Rightarrow> ('q, 'cb, 'nt, 'p) controller
    \<Rightarrow> ('q, 'cb, 'nt, 'p) controller result" where
  "set_seq_state a st s =
     (case m_seq_store s a of
        None \<Rightarrow> Inl OutOfRange
      | Some seq \<Rightarrow> Inr (s\<lparr>m_seq_store := (m_seq_store s)(a \<mapsto> seq\<lparr>rs_state := st\<rparr>)\<rparr>))"

text \<open>Up to the start of the sequence: no command and no result of an earlier one is left.\<close>

definition run_seq_begin ::
  "('q, 'cb, 'nt, 'p) ctrl_env \<Rightarrow> nat \<Rightarrow> addr \<Rightarrow> ('q, 'cb, 'nt, 'p) controller
    \<Rightarrow> ('q, 'cb, 'nt, 'p) controller result" where
  "run_seq_begin E fuel a s =
     bindR (drain_results E fuel s) (\<lambda>s1.
     bindR (wait_finished E fuel s1) (\<lambda>s2.
     bindR (sync_ttl (e_P E) s2) (\<lambda>s3.
     bindR (p_do (p_set_hold (e_P E)) (called SetHold s3)) (\<lambda>s4.
     bindR (p_do (p_toggle_init (e_P E)) (called ToggleInit s4)) (\<lambda>s5.
     bindR (set_seq_state a SeqStart s5) (\<lambda>s6. Inr (backend_event s6)))))))"

text \<open>
  The \<^verbatim>\<open>try\<close> block. The instruction members raise no exception (only assertions), so what it
  catches comes from the interpreter.
\<close>

definition run_seq_code ::
  "('q, 'cb, 'nt, 'p) ctrl_env \<Rightarrow> exe_fn \<Rightarrow> nat \<Rightarrow> 'nt ReqSeq \<Rightarrow> ('q, 'cb, 'nt, 'p) running
    \<Rightarrow> ('q, 'cb, 'nt, 'p) running result" where
  "run_seq_code E exe fuel seq rs =
     bindR (assertR (rs_ver seq = 1 \<or> rs_ver seq = 2 \<or> rs_ver seq = 3)) (\<lambda>_.
       let min_time = (if rs_ver seq > 1 then Some (PT_Min2 (e_pt E)) else None);
           (calls, err) = exe (rs_is_cmd seq) min_time (rs_code seq) (rs_ver seq)
       in bindR (foldR (run_call E fuel) calls rs) (\<lambda>(r, s).
            Inr (r, case err of None \<Rightarrow> s | Some msg \<Rightarrow> log_line (LogSeqError msg) s)))"

text \<open>After the last instruction: release the hold and tell the frontend.\<close>

definition run_seq_flush ::
  "('q, 'cb, 'nt, 'p) ctrl_env \<Rightarrow> nat \<Rightarrow> addr \<Rightarrow> bool \<Rightarrow> ('q, 'cb, 'nt, 'p) running
    \<Rightarrow> ('q, 'cb, 'nt, 'p) running result" where
  "run_seq_flush E fuel a is_cmd rs =
     bindR (runner_wait E fuel False (ucast (PT_Min (e_pt E))) rs) (\<lambda>(r1, s1).
     bindR (ctrl_release_hold (e_P E) s1) (\<lambda>s2.
     bindR (set_seq_state a SeqFlushed s2) (\<lambda>s3.
     if is_cmd then Inr (r1, backend_event s3)
     else runner_clock E False 9 (r1, backend_event s3))))"

text \<open>Wait for the sequence to finish.\<close>

definition run_seq_finish ::
  "('q, 'cb, 'nt, 'p) ctrl_env \<Rightarrow> nat \<Rightarrow> addr \<Rightarrow> bool \<Rightarrow> ('q, 'cb, 'nt, 'p) running
    \<Rightarrow> ('q, 'cb, 'nt, 'p) running result" where
  "run_seq_finish E fuel a is_cmd rs =
     bindR (wait_seq_end E fuel rs) (\<lambda>(r1, s1).
     bindR (set_seq_state a SeqEnd s1) (\<lambda>s2.
     if is_cmd then Inr (enable_process_cmd r1, backend_event s2)
     else bindR (runner_wait E fuel False 1000000 (enable_process_cmd r1, backend_event s2))
            (runner_clock E False 255)))"

definition reinit_dds ::
  "'p pulser_ops \<Rightarrow> nat \<Rightarrow> ('q, 'cb, 'nt, 'p) controller
    \<Rightarrow> ('q, 'cb, 'nt, 'p) controller result" where
  "reinit_dds P i s =
     bindR (nthR (m_dds_exist s) i) (\<lambda>ex.
       if \<not> ex then Inr s
       else bindR (check_dds P i s) (\<lambda>(res, s1).
              if res then dump_dds P i (log_line (LogReinit (int i)) s1) else Inr s1))"

definition run_seq_cleanup ::
  "('q, 'cb, 'nt, 'p) ctrl_env \<Rightarrow> ('q, 'cb, 'nt, 'p) controller
    \<Rightarrow> ('q, 'cb, 'nt, 'p) controller result" where
  "run_seq_cleanup E s =
     bindR (p_get (p_timing_ok (e_P E)) s) (\<lambda>(ok, s1).
     bindR (issue (e_P E) P_clear_error (if ok then s1 else log_line LogTiming s1)) (\<lambda>s2.
       if m_cmd_waiting s2 = None then foldR (reinit_dds (e_P E)) [0 ..< NDDS] s2 else Inr s2))"

definition run_seq ::
  "('q, 'cb, 'nt, 'p) ctrl_env \<Rightarrow> exe_fn \<Rightarrow> nat \<Rightarrow> addr \<Rightarrow> ('q, 'cb, 'nt, 'p) controller
    \<Rightarrow> ('q, 'cb, 'nt, 'p) controller result" where
  "run_seq E exe fuel a s =
     bindR (run_seq_begin E fuel a s) (\<lambda>s1.
       case m_seq_store s1 a of
         None \<Rightarrow> Inl OutOfRange
       | Some seq \<Rightarrow>
           bindR (run_seq_code E exe fuel seq (Runner E (rs_ttl_mask seq) (rs_seq_len_ns seq) s1)) (\<lambda>rs2.
           bindR (run_seq_flush E fuel a (rs_is_cmd seq) rs2) (\<lambda>rs3.
           bindR (run_seq_finish E fuel a (rs_is_cmd seq) rs3) (\<lambda>(r4, s4). run_seq_cleanup E s4))))"

section \<open>The worker\<close>

definition worker_seq ::
  "('q, 'cb, 'nt, 'p) ctrl_env \<Rightarrow> exe_fn \<Rightarrow> nat \<Rightarrow> ('q, 'cb, 'nt, 'p) controller
    \<Rightarrow> ('q, 'cb, 'nt, 'p) controller result" where
  "worker_seq E exe fuel s =
     (case get_seq (e_Q E) s of
        None \<Rightarrow> Inr s
      | Some a \<Rightarrow>
          (case m_seq_store s a of
             None \<Rightarrow> Inl OutOfRange
           | Some seq \<Rightarrow>
               bindR (if rs_cancel seq then set_seq_state a SeqCancel s else run_seq E exe fuel a s) (\<lambda>s1.
               Inr (finish_seq (e_Q E) s1))))"

definition detect_if_idle ::
  "('q, 'cb, 'nt, 'p) ctrl_env \<Rightarrow> ('q, 'cb, 'nt, 'p) controller
    \<Rightarrow> ('q, 'cb, 'nt, 'p) controller result" where
  "detect_if_idle E s = (if m_cmd_waiting s = None then detect_dds (e_P E) False s else Inr s)"

definition worker_iter ::
  "('q, 'cb, 'nt, 'p) ctrl_env \<Rightarrow> exe_fn \<Rightarrow> nat \<Rightarrow> ('q, 'cb, 'nt, 'p) controller
    \<Rightarrow> ('q, 'cb, 'nt, 'p) controller result" where
  "worker_iter E exe fuel s =
     bindR (worker_seq E exe fuel s) (\<lambda>s1.
     bindR (p_get (p_is_finished (e_P E)) s1) (\<lambda>(fin, s2).
     bindR (if fin then sync_ttl (e_P E) s2 else Inr s2) (\<lambda>s3.
     bindR (detect_if_idle E s3) (\<lambda>s4.
     bindR (process_reqcmd E False (None, s4)) (\<lambda>(_, (_, s5)).
     detect_if_idle E s5)))))"

text \<open>
  The thread: \<^verbatim>\<open>wait\<close> lets the other threads run, then returns whether to go on. It runs until
  \<^verbatim>\<open>quit\<close>, so \<open>n\<close> bounds the iterations.
\<close>

fun worker ::
  "('q, 'cb, 'nt, 'p) ctrl_env \<Rightarrow> exe_fn \<Rightarrow> nat \<Rightarrow> nat \<Rightarrow> ('q, 'cb, 'nt, 'p) controller
    \<Rightarrow> ('q, 'cb, 'nt, 'p) controller result" where
  "worker E exe fuel 0 s = Inl OutOfFuel"
| "worker E exe fuel (Suc n) s =
     (let s1 = e_frontend E s
      in if iface_wait s1 then bindR (worker_iter E exe fuel s1) (worker E exe fuel n) else Inr s1)"

definition controller_fields ::
  "'q \<Rightarrow> 'q \<Rightarrow> 'p \<Rightarrow> (nat \<Rightarrow> u64) \<Rightarrow> (nat \<Rightarrow> u64) \<Rightarrow> u32 list \<Rightarrow> ('q, 'cb, 'nt, 'p) controller" where
  "controller_fields cq sq p clk coarse ttl0 = \<lparr>
     m_quit = False, m_seq_cnt = 0, m_state_cnt = 0, m_dirty = False, m_observed = False,
     m_had_seq = False, m_cmd_queue = cq, m_seq_queue = sq,
     m_cmd_store = (\<lambda>_. None), m_cmd_next = 0, m_seq_store = (\<lambda>_. None), m_seq_next = 0,
     m_cmd_cache = (\<lambda>_. None), m_bkend_evt = 0, m_times = clk, m_log = [],
     m_p = p, m_dds_ovr = replicate NDDS DDSState_init, m_ttl = ttl0,
     m_dds_phase = replicate NDDS 0, m_dds_pending_reset = replicate NDDS False,
     m_dds_exist = replicate NDDS False, m_dds_check_time = 0, m_cmd_waiting = None,
     m_coarse = coarse, m_lines = [], m_calls = []\<rparr>"

text \<open>
  The constructor; \<open>ttl0\<close> is the indeterminate content of \<^verbatim>\<open>m_ttl\<close> before it is filled, \<open>cq\<close> and
  \<open>sq\<close> are empty queues.
\<close>

definition init_ttl_bank ::
  "'p pulser_ops \<Rightarrow> nat \<Rightarrow> ('q, 'cb, 'nt, 'p) controller
    \<Rightarrow> ('q, 'cb, 'nt, 'p) controller result" where
  "init_ttl_bank P i s =
     bindR (p_get (p_cur_ttl P (int i)) s) (\<lambda>(ttl, s1).
     bindR (updR (m_ttl s1) i ttl) (\<lambda>ts. Inr (s1\<lparr>m_ttl := ts\<rparr>)))"

definition Controller_init ::
  "'p pulser_ops \<Rightarrow> ('q, 'cb, 'nt, 'p) controller \<Rightarrow> ('q, 'cb, 'nt, 'p) controller result" where
  "Controller_init P s =
     bindR (foldR (init_ttl_bank P) [0 ..< NUM_TTL_BANKS] s) (\<lambda>s1.
     bindR (detect_dds P True s1) (\<lambda>s2.
     issue P P_clear_error s2))"

end
