(* ===== verification/Dummy_Pulser.thy ===== *)
theory Dummy_Pulser
  imports Pulser_Iface
begin

text \<open>
  \<^verbatim>\<open>lib/dummy_pulser.h\<close> and \<^verbatim>\<open>lib/dummy_pulser.cpp\<close>: the software pulser. Its state is the
  record \<open>dummy_pulser\<close>, with the two FIFOs as lists (head first), the fixed size arrays as lists
  of that length and the time points in nanoseconds as natural numbers. \<^verbatim>\<open>steady_clock\<close> is part
  of the state: \<open>dm_now\<close> is the last reading and \<open>dm_ticks\<close> an arbitrary sequence of advances, one
  per reading, so the clock never goes back and a statement for all \<open>dm_ticks\<close> is a statement for
  every schedule. The class documents that the FIFO members are called from one thread, and the
  model runs each member as one step.
\<close>

section \<open>Data\<close>

record DDS =
  dds_init :: bool
  dds_amp :: u16
  dds_phase :: u16
  dds_freq :: u32

datatype OP =
    OP_TTL
  | OP_Clock
  | OP_DAC
  | OP_Wait
  | OP_ClearErr
  | OP_DDSSetFreq
  | OP_DDSSetAmp
  | OP_DDSSetPhase
  | OP_DDSReset
  | OP_LoopBack
  | OP_DDSGetFreq
  | OP_DDSGetAmp
  | OP_DDSGetPhase

record Cmd =
  cmd_op :: OP
  cmd_timing :: bool
  cmd_t :: nat
  cmd_v1 :: u32
  cmd_v2 :: u32

record dummy_pulser =
  dm_ttl_hi :: "u32 list"
  dm_ttl_lo :: "u32 list"
  dm_ttl :: "u32 list"
  dm_dma_ttl_mask :: "u32 list"
  dm_clock :: u8
  dm_cmds_empty :: bool
  dm_timing_ok :: bool
  dm_timing_check :: bool
  dm_loopback_reg :: u32
  dm_results :: "u32 list"
  dm_cmds :: "Cmd list"
  dm_hold :: bool
  dm_force_release :: bool
  dm_dds :: "DDS list"
  dm_release_time :: nat
  dm_now :: nat
  dm_ticks :: "nat \<Rightarrow> nat"

definition max_result_count :: nat where
  "max_result_count = 4097"

definition max_cmd_count :: nat where
  "max_cmd_count = 4096"

section \<open>The clock\<close>

definition steady_now :: "dummy_pulser \<Rightarrow> nat \<times> dummy_pulser" where
  "steady_now d =
     (let n = dm_now d + dm_ticks d 0
      in (n, d\<lparr>dm_now := n, dm_ticks := \<lambda>i. dm_ticks d (Suc i)\<rparr>))"

definition sleep_until :: "nat \<Rightarrow> dummy_pulser \<Rightarrow> dummy_pulser" where
  "sleep_until t d = d\<lparr>dm_now := max (dm_now d) t\<rparr>"

text \<open>The default member initialisers; \<open>t0\<close> is the clock at construction.\<close>

definition DummyPulser :: "nat \<Rightarrow> (nat \<Rightarrow> nat) \<Rightarrow> dummy_pulser" where
  "DummyPulser t0 ticks = \<lparr>
     dm_ttl_hi = replicate NUM_TTL_BANKS 0,
     dm_ttl_lo = replicate NUM_TTL_BANKS 0,
     dm_ttl = replicate NUM_TTL_BANKS 0,
     dm_dma_ttl_mask = replicate NUM_TTL_BANKS 0,
     dm_clock = 255,
     dm_cmds_empty = True,
     dm_timing_ok = True,
     dm_timing_check = False,
     dm_loopback_reg = 0,
     dm_results = [],
     dm_cmds = [],
     dm_hold = False,
     dm_force_release = False,
     dm_dds = replicate NDDS \<lparr>dds_init = False, dds_amp = 0, dds_phase = 0, dds_freq = 0\<rparr>,
     dm_release_time = t0,
     dm_now = t0,
     dm_ticks = ticks\<rparr>"

text \<open>
  The move constructor: a new object with the fields in its initialiser list and loop taken from
  \<open>o\<close> and every other field at its default.
\<close>

definition dummy_move :: "dummy_pulser \<Rightarrow> dummy_pulser" where
  "dummy_move other = (DummyPulser (dm_now other) (dm_ticks other))\<lparr>
     dm_clock := dm_clock other,
     dm_cmds_empty := dm_cmds_empty other,
     dm_timing_ok := dm_timing_ok other,
     dm_timing_check := dm_timing_check other,
     dm_results := dm_results other,
     dm_cmds := dm_cmds other,
     dm_hold := dm_hold other,
     dm_force_release := dm_force_release other,
     dm_dds := dm_dds other,
     dm_release_time := dm_release_time other,
     dm_ttl_hi := dm_ttl_hi other,
     dm_ttl_lo := dm_ttl_lo other,
     dm_ttl := dm_ttl other\<rparr>"

section \<open>Executing commands\<close>

definition add_result :: "u32 \<Rightarrow> dummy_pulser \<Rightarrow> dummy_pulser" where
  "add_result v d =
     d\<lparr>dm_results := dm_results d @ [if length (dm_results d) \<ge> max_result_count then 0 else v]\<rparr>"

definition with_dds ::
  "u32 \<Rightarrow> (DDS \<Rightarrow> DDS) \<Rightarrow> dummy_pulser \<Rightarrow> dummy_pulser result" where
  "with_dds i f d =
     bindR (nthR (dm_dds d) (unat i)) (\<lambda>x.
     bindR (updR (dm_dds d) (unat i) (f x)) (\<lambda>xs. Inr (d\<lparr>dm_dds := xs\<rparr>)))"

definition get_dds_field ::
  "u32 \<Rightarrow> (DDS \<Rightarrow> u32) \<Rightarrow> dummy_pulser \<Rightarrow> dummy_pulser result" where
  "get_dds_field i f d = bindR (nthR (dm_dds d) (unat i)) (\<lambda>x. Inr (add_result (f x) d))"

definition dummy_run_cmd ::
  "pulse_times \<Rightarrow> Cmd \<Rightarrow> dummy_pulser \<Rightarrow> (u32 \<times> dummy_pulser) result" where
  "dummy_run_cmd pt cmd d =
     (let v1 = cmd_v1 cmd; v2 = cmd_v2 cmd;
          ret = (\<lambda>t m. bindR m (\<lambda>d'. Inr (t, d')))
      in case cmd_op cmd of
        OP_TTL \<Rightarrow>
          (let t = v1 AND (push_bit 24 1 - 1); bank = drop_bit 24 v1
           in ret t (bindR (updR (dm_ttl d) (unat bank) v2) (\<lambda>xs. Inr (d\<lparr>dm_ttl := xs\<rparr>))))
      | OP_Clock \<Rightarrow> ret (PT_Clock pt) (Inr (d\<lparr>dm_clock := ucast v1\<rparr>))
      | OP_DAC \<Rightarrow> ret (PT_DAC pt) (Inr d)
      | OP_Wait \<Rightarrow> ret v1 (Inr d)
      | OP_ClearErr \<Rightarrow> ret (PT_Clear pt) (Inr (d\<lparr>dm_timing_ok := True\<rparr>))
      | OP_DDSSetFreq \<Rightarrow> ret (PT_DDSFreq pt) (with_dds v1 (\<lambda>x. x\<lparr>dds_freq := v2\<rparr>) d)
      | OP_DDSSetAmp \<Rightarrow> ret (PT_DDSAmp pt) (with_dds v1 (\<lambda>x. x\<lparr>dds_amp := ucast v2\<rparr>) d)
      | OP_DDSSetPhase \<Rightarrow> ret (PT_DDSPhase pt) (with_dds v1 (\<lambda>x. x\<lparr>dds_phase := ucast v2\<rparr>) d)
      | OP_DDSReset \<Rightarrow>
          ret (PT_DDSReset pt)
            (with_dds v1 (\<lambda>x. x\<lparr>dds_amp := 0, dds_phase := 0, dds_freq := 0\<rparr>) d)
      | OP_LoopBack \<Rightarrow> ret (PT_LoopBack pt) (Inr (add_result v1 d))
      | OP_DDSGetFreq \<Rightarrow> ret (PT_DDSFreq pt) (get_dds_field v1 dds_freq d)
      | OP_DDSGetAmp \<Rightarrow> ret (PT_DDSAmp pt) (get_dds_field v1 (\<lambda>x. ucast (dds_amp x)) d)
      | OP_DDSGetPhase \<Rightarrow> ret (PT_DDSPhase pt) (get_dds_field v1 (\<lambda>x. ucast (dds_phase x)) d))"

text \<open>
  The body of the loop of \<^verbatim>\<open>run_past_cmds\<close> once it has decided to run \<open>cmd\<close> at \<open>startt\<close>. The
  duration is computed in 32 bits, as \<^verbatim>\<open>steps * 10\<close> is.
\<close>

definition exec_cmd :: "pulse_times \<Rightarrow> nat \<Rightarrow> Cmd \<Rightarrow> dummy_pulser \<Rightarrow> dummy_pulser result" where
  "exec_cmd pt startt cmd d =
     bindR (dummy_run_cmd pt cmd (d\<lparr>dm_timing_check := cmd_timing cmd\<rparr>)) (\<lambda>(steps, d').
       Inr (d'\<lparr>dm_release_time := startt + unat (steps * 10), dm_cmds := tl (dm_cmds d')\<rparr>))"

fun run_past_loop ::
  "pulse_times \<Rightarrow> nat \<Rightarrow> bool \<Rightarrow> Cmd list \<Rightarrow> dummy_pulser \<Rightarrow> (bool \<times> dummy_pulser) result" where
  "run_past_loop pt cur_t cmd_run [] d = Inr (cmd_run, d\<lparr>dm_cmds_empty := True\<rparr>)"
| "run_past_loop pt cur_t cmd_run (cmd # cmds) d =
     (let cmdt = cmd_t cmd; startt = dm_release_time d
      in if cmdt > startt then
           (let d1 = (if dm_timing_check d then d\<lparr>dm_timing_ok := False\<rparr> else d)
            in bindR (assertR (cmdt \<le> cur_t)) (\<lambda>_.
               bindR (exec_cmd pt cmdt cmd d1) (run_past_loop pt cur_t True cmds)))
         else if startt > cur_t then Inr (cmd_run, d)
         else bindR (exec_cmd pt startt cmd d) (run_past_loop pt cur_t True cmds))"

definition held :: "dummy_pulser \<Rightarrow> bool" where
  "held d \<longleftrightarrow> dm_hold d \<and> \<not> dm_force_release d"

definition run_past_cmds :: "pulse_times \<Rightarrow> nat \<Rightarrow> dummy_pulser \<Rightarrow> (bool \<times> dummy_pulser) result" where
  "run_past_cmds pt cur_t d =
     (if held d then Inr (False, d) else run_past_loop pt cur_t False (dm_cmds d) d)"

section \<open>Advancing to the present\<close>

text \<open>
  The \<^verbatim>\<open>do\<close> loop of \<^verbatim>\<open>forward_time(bool, lock)\<close>. A blocking call repeats until a command ran;
  \<open>fuel\<close> bounds the repetitions, and one is enough (\<open>forward_loop_total\<close> below).
\<close>

definition read_past_release :: "dummy_pulser \<Rightarrow> nat \<times> dummy_pulser" where
  "read_past_release d =
     (let (cur_t, d1) = steady_now d
      in if cur_t < dm_release_time d1 then steady_now (sleep_until (dm_release_time d1) d1)
         else (cur_t, d1))"

fun forward_loop :: "pulse_times \<Rightarrow> nat \<Rightarrow> bool \<Rightarrow> dummy_pulser \<Rightarrow> dummy_pulser result" where
  "forward_loop pt 0 block d = Inl OutOfFuel"
| "forward_loop pt (Suc fuel) block d =
     (let (cur_t, d1) = read_past_release d
      in bindR (run_past_cmds pt cur_t d1) (\<lambda>(ran, d2).
           if block \<and> \<not> ran then forward_loop pt fuel block d2 else Inr d2))"

definition forward_time_locked :: "pulse_times \<Rightarrow> bool \<Rightarrow> dummy_pulser \<Rightarrow> dummy_pulser result" where
  "forward_time_locked pt block d =
     (if dm_cmds d = [] \<or> held d then
        (if block
         then Inl (RuntimeError ''Waiting for command queue without releasing hold.'')
         else Inr d)
      else forward_loop pt 1 block d)"

definition forward_time :: "pulse_times \<Rightarrow> bool \<Rightarrow> dummy_pulser \<Rightarrow> dummy_pulser result" where
  "forward_time pt block d =
     (if dm_cmds_empty d then Inr d else forward_time_locked pt block d)"

section \<open>Queueing commands\<close>

text \<open>
  \<^verbatim>\<open>add_cmd\<close> makes room first: a full queue is released by force and run until it has space.
\<close>

fun add_cmd_loop :: "pulse_times \<Rightarrow> nat \<Rightarrow> dummy_pulser \<Rightarrow> dummy_pulser result" where
  "add_cmd_loop pt fuel d =
     (if length (dm_cmds d) < max_cmd_count then Inr d
      else case fuel of
        0 \<Rightarrow> Inl OutOfFuel
      | Suc n \<Rightarrow>
          (let d1 = (if dm_force_release d then d
                     else let (t, d') = steady_now (d\<lparr>dm_force_release := True\<rparr>)
                          in d'\<lparr>dm_release_time := t\<rparr>)
           in bindR (forward_time_locked pt True d1) (add_cmd_loop pt n)))"

declare add_cmd_loop.simps [simp del]

definition add_cmd ::
  "pulse_times \<Rightarrow> OP \<Rightarrow> bool \<Rightarrow> u32 \<Rightarrow> u32 \<Rightarrow> dummy_pulser \<Rightarrow> dummy_pulser result" where
  "add_cmd pt op timing v1 v2 d =
     (let (t, d1) = steady_now d;
          cmd = \<lparr>cmd_op = op, cmd_timing = timing, cmd_t = t, cmd_v1 = v1, cmd_v2 = v2\<rparr>
      in bindR (add_cmd_loop pt (length (dm_cmds d1)) d1) (\<lambda>d2.
           Inr (d2\<lparr>dm_cmds := dm_cmds d2 @ [cmd], dm_cmds_empty := False\<rparr>)))"

text \<open>The instruction members; an \<^verbatim>\<open>int\<close> channel becomes a 32 bit operand.\<close>

definition dummy_ttl ::
  "pulse_times \<Rightarrow> bool \<Rightarrow> u32 \<Rightarrow> u32 \<Rightarrow> int \<Rightarrow> dummy_pulser \<Rightarrow> dummy_pulser result" where
  "dummy_ttl pt checked ttl t bank d =
     bindR (assertR (bank_ok bank)) (\<lambda>_.
     bindR (assertR (t \<le> max_wait_t)) (\<lambda>_.
     add_cmd pt OP_TTL checked (t OR push_bit 24 (word_of_int bank)) ttl d))"

definition dummy_clock ::
  "pulse_times \<Rightarrow> bool \<Rightarrow> u8 \<Rightarrow> dummy_pulser \<Rightarrow> dummy_pulser result" where
  "dummy_clock pt checked divider d = add_cmd pt OP_Clock checked (ucast divider) 0 d"

definition dummy_dac ::
  "pulse_times \<Rightarrow> bool \<Rightarrow> u8 \<Rightarrow> u16 \<Rightarrow> dummy_pulser \<Rightarrow> dummy_pulser result" where
  "dummy_dac pt checked dac V d = add_cmd pt OP_DAC checked (ucast dac) (ucast V) d"

definition dummy_wait ::
  "pulse_times \<Rightarrow> bool \<Rightarrow> u32 \<Rightarrow> dummy_pulser \<Rightarrow> dummy_pulser result" where
  "dummy_wait pt checked t d =
     bindR (assertR (t \<le> max_wait_t)) (\<lambda>_. add_cmd pt OP_Wait checked t 0 d)"

definition dummy_clear_error :: "pulse_times \<Rightarrow> dummy_pulser \<Rightarrow> dummy_pulser result" where
  "dummy_clear_error pt d = add_cmd pt OP_ClearErr False 0 0 d"

definition dummy_dds_cmd ::
  "pulse_times \<Rightarrow> OP \<Rightarrow> bool \<Rightarrow> int \<Rightarrow> u32 \<Rightarrow> dummy_pulser \<Rightarrow> dummy_pulser result" where
  "dummy_dds_cmd pt op checked i v d =
     bindR (assertR (i < int NDDS)) (\<lambda>_. add_cmd pt op checked (word_of_int i) v d)"

definition dummy_dds_set_freq ::
  "pulse_times \<Rightarrow> bool \<Rightarrow> int \<Rightarrow> u32 \<Rightarrow> dummy_pulser \<Rightarrow> dummy_pulser result" where
  "dummy_dds_set_freq pt checked i ftw d = dummy_dds_cmd pt OP_DDSSetFreq checked i ftw d"

definition dummy_dds_set_amp ::
  "pulse_times \<Rightarrow> bool \<Rightarrow> int \<Rightarrow> u16 \<Rightarrow> dummy_pulser \<Rightarrow> dummy_pulser result" where
  "dummy_dds_set_amp pt checked i amp d =
     dummy_dds_cmd pt OP_DDSSetAmp checked i (ucast amp) d"

definition dummy_dds_set_phase ::
  "pulse_times \<Rightarrow> bool \<Rightarrow> int \<Rightarrow> u16 \<Rightarrow> dummy_pulser \<Rightarrow> dummy_pulser result" where
  "dummy_dds_set_phase pt checked i phase d =
     dummy_dds_cmd pt OP_DDSSetPhase checked i (ucast phase) d"

definition dummy_dds_reset ::
  "pulse_times \<Rightarrow> bool \<Rightarrow> int \<Rightarrow> dummy_pulser \<Rightarrow> dummy_pulser result" where
  "dummy_dds_reset pt checked i d = dummy_dds_cmd pt OP_DDSReset checked i 0 d"

definition dummy_loopback ::
  "pulse_times \<Rightarrow> bool \<Rightarrow> u32 \<Rightarrow> dummy_pulser \<Rightarrow> dummy_pulser result" where
  "dummy_loopback pt checked data d = add_cmd pt OP_LoopBack checked data 0 d"

definition dummy_dds_get_phase ::
  "pulse_times \<Rightarrow> bool \<Rightarrow> int \<Rightarrow> dummy_pulser \<Rightarrow> dummy_pulser result" where
  "dummy_dds_get_phase pt checked i d = dummy_dds_cmd pt OP_DDSGetPhase checked i 0 d"

definition dummy_dds_get_amp ::
  "pulse_times \<Rightarrow> bool \<Rightarrow> int \<Rightarrow> dummy_pulser \<Rightarrow> dummy_pulser result" where
  "dummy_dds_get_amp pt checked i d = dummy_dds_cmd pt OP_DDSGetAmp checked i 0 d"

definition dummy_dds_get_freq ::
  "pulse_times \<Rightarrow> bool \<Rightarrow> int \<Rightarrow> dummy_pulser \<Rightarrow> dummy_pulser result" where
  "dummy_dds_get_freq pt checked i d = dummy_dds_cmd pt OP_DDSGetFreq checked i 0 d"

definition dummy_wait_trigger ::
  "pulse_times \<Rightarrow> bool \<Rightarrow> u8 \<Rightarrow> bool \<Rightarrow> u32 \<Rightarrow> dummy_pulser \<Rightarrow> dummy_pulser result" where
  "dummy_wait_trigger pt checked chn trig_raise timeout d =
     dummy_wait pt checked timeout d"

fun dummy_pulse :: "pulse_times \<Rightarrow> pulse \<Rightarrow> dummy_pulser \<Rightarrow> dummy_pulser result" where
  "dummy_pulse pt (P_ttl c v t bank) d = dummy_ttl pt c v t bank d"
| "dummy_pulse pt (P_clock c divider) d = dummy_clock pt c divider d"
| "dummy_pulse pt (P_dac c dac V) d = dummy_dac pt c dac V d"
| "dummy_pulse pt (P_wait c t) d = dummy_wait pt c t d"
| "dummy_pulse pt (P_wait_trigger c chn raise t) d = dummy_wait_trigger pt c chn raise t d"
| "dummy_pulse pt P_clear_error d = dummy_clear_error pt d"
| "dummy_pulse pt (P_dds_set_freq c i v) d = dummy_dds_set_freq pt c i v d"
| "dummy_pulse pt (P_dds_set_amp c i v) d = dummy_dds_set_amp pt c i v d"
| "dummy_pulse pt (P_dds_set_phase c i v) d = dummy_dds_set_phase pt c i v d"
| "dummy_pulse pt (P_dds_reset c i) d = dummy_dds_reset pt c i d"
| "dummy_pulse pt (P_loopback c v) d = dummy_loopback pt c v d"
| "dummy_pulse pt (P_dds_get_phase c i) d = dummy_dds_get_phase pt c i d"
| "dummy_pulse pt (P_dds_get_amp c i) d = dummy_dds_get_amp pt c i d"
| "dummy_pulse pt (P_dds_get_freq c i) d = dummy_dds_get_freq pt c i d"

section \<open>Registers, hold and results\<close>

definition dummy_bank :: "('a list) \<Rightarrow> int \<Rightarrow> 'a result" where
  "dummy_bank xs bank = bindR (assertR (bank_ok bank)) (\<lambda>_. nthR xs (nat bank))"

definition dummy_ttl_himask :: "int \<Rightarrow> dummy_pulser \<Rightarrow> (u32 \<times> dummy_pulser) result" where
  "dummy_ttl_himask bank d = bindR (dummy_bank (dm_ttl_hi d) bank) (\<lambda>v. Inr (v, d))"

definition dummy_ttl_lomask :: "int \<Rightarrow> dummy_pulser \<Rightarrow> (u32 \<times> dummy_pulser) result" where
  "dummy_ttl_lomask bank d = bindR (dummy_bank (dm_ttl_lo d) bank) (\<lambda>v. Inr (v, d))"

definition dummy_timing_ok :: "pulse_times \<Rightarrow> dummy_pulser \<Rightarrow> (bool \<times> dummy_pulser) result" where
  "dummy_timing_ok pt d =
     (if \<not> dm_timing_ok d then Inr (False, d)
      else bindR (forward_time pt False d) (\<lambda>d'. Inr (dm_timing_ok d', d')))"

definition dummy_is_finished :: "pulse_times \<Rightarrow> dummy_pulser \<Rightarrow> (bool \<times> dummy_pulser) result" where
  "dummy_is_finished pt d = bindR (forward_time pt False d) (\<lambda>d'. Inr (dm_cmds_empty d', d'))"

definition dummy_cur_ttl :: "pulse_times \<Rightarrow> int \<Rightarrow> dummy_pulser \<Rightarrow> (u32 \<times> dummy_pulser) result" where
  "dummy_cur_ttl pt bank d =
     bindR (assertR (bank_ok bank)) (\<lambda>_.
     bindR (forward_time pt False d) (\<lambda>d'.
     bindR (nthR (dm_ttl d') (nat bank)) (\<lambda>v. Inr (v, d'))))"

definition dummy_cur_clock :: "pulse_times \<Rightarrow> dummy_pulser \<Rightarrow> (u8 \<times> dummy_pulser) result" where
  "dummy_cur_clock pt d = bindR (forward_time pt False d) (\<lambda>d'. Inr (dm_clock d', d'))"

definition dummy_ttl_in :: "int \<Rightarrow> dummy_pulser \<Rightarrow> (u32 \<times> dummy_pulser) result" where
  "dummy_ttl_in bank d = bindR (assertR (bank_ok bank)) (\<lambda>_. Inr (0, d))"

definition dummy_dma_ttl_mask :: "int \<Rightarrow> dummy_pulser \<Rightarrow> (u32 \<times> dummy_pulser) result" where
  "dummy_dma_ttl_mask bank d = bindR (dummy_bank (dm_dma_ttl_mask d) bank) (\<lambda>v. Inr (v, d))"

definition dummy_set_ttl_himask :: "u32 \<Rightarrow> int \<Rightarrow> dummy_pulser \<Rightarrow> dummy_pulser result" where
  "dummy_set_ttl_himask high_mask bank d =
     bindR (assertR (bank_ok bank)) (\<lambda>_.
     bindR (updR (dm_ttl_hi d) (nat bank) high_mask) (\<lambda>xs. Inr (d\<lparr>dm_ttl_hi := xs\<rparr>)))"

definition dummy_set_ttl_lomask :: "u32 \<Rightarrow> int \<Rightarrow> dummy_pulser \<Rightarrow> dummy_pulser result" where
  "dummy_set_ttl_lomask low_mask bank d =
     bindR (assertR (bank_ok bank)) (\<lambda>_.
     bindR (updR (dm_ttl_lo d) (nat bank) low_mask) (\<lambda>xs. Inr (d\<lparr>dm_ttl_lo := xs\<rparr>)))"

definition dummy_set_dma_ttl_mask :: "int \<Rightarrow> u32 \<Rightarrow> dummy_pulser \<Rightarrow> dummy_pulser result" where
  "dummy_set_dma_ttl_mask bank mask_val d =
     bindR (assertR (bank_ok bank)) (\<lambda>_.
     bindR (updR (dm_dma_ttl_mask d) (nat bank) mask_val) (\<lambda>xs. Inr (d\<lparr>dm_dma_ttl_mask := xs\<rparr>)))"

definition dummy_release_hold :: "dummy_pulser \<Rightarrow> dummy_pulser result" where
  "dummy_release_hold d =
     (if \<not> dm_hold d then Inr d
      else let d1 = (if \<not> dm_force_release d
                     then let (t, d') = steady_now d in d'\<lparr>dm_release_time := t\<rparr>
                     else d)
           in Inr (d1\<lparr>dm_hold := False\<rparr>))"

definition dummy_set_hold :: "pulse_times \<Rightarrow> dummy_pulser \<Rightarrow> dummy_pulser result" where
  "dummy_set_hold pt d =
     (if dm_hold d then Inr d
      else bindR (if \<not> dm_force_release d then forward_time_locked pt False d else Inr d) (\<lambda>d'.
             Inr (d'\<lparr>dm_hold := True\<rparr>)))"

definition dummy_toggle_init :: "dummy_pulser \<Rightarrow> dummy_pulser result" where
  "dummy_toggle_init d =
     (if \<not> dm_cmds_empty d then Inl (RuntimeError ''Command stream not empty during init.'')
      else Inr (d\<lparr>dm_force_release := False, dm_timing_ok := True, dm_timing_check := False\<rparr>))"

definition dummy_try_get_result ::
  "pulse_times \<Rightarrow> dummy_pulser \<Rightarrow> (u32 option \<times> dummy_pulser) result" where
  "dummy_try_get_result pt d =
     bindR (forward_time pt False d) (\<lambda>d'.
       case dm_results d' of
         [] \<Rightarrow> Inr (None, d')
       | v # vs \<Rightarrow> Inr (Some v, d'\<lparr>dm_results := vs\<rparr>))"

fun dummy_get_result :: "pulse_times \<Rightarrow> nat \<Rightarrow> dummy_pulser \<Rightarrow> (u32 \<times> dummy_pulser) result" where
  "dummy_get_result pt 0 d = Inl OutOfFuel"
| "dummy_get_result pt (Suc fuel) d =
     bindR (dummy_try_get_result pt d) (\<lambda>(r, d').
       case r of
         Some v \<Rightarrow> Inr (v, d')
       | None \<Rightarrow>
           if dm_cmds d' = [] then Inl (UnderflowError ''No result queued.'')
           else dummy_get_result pt fuel d')"

section \<open>DDS set up and the other members\<close>

definition dds_exists_internal :: "int \<Rightarrow> bool" where
  "dds_exists_internal chn \<longleftrightarrow> 0 \<le> chn \<and> chn < int NDDS"

definition dummy_init_dds :: "pulse_times \<Rightarrow> int \<Rightarrow> dummy_pulser \<Rightarrow> dummy_pulser result" where
  "dummy_init_dds pt chn d =
     (if \<not> dds_exists_internal chn then Inr d
      else bindR (dummy_dds_reset pt False chn d)
             (with_dds (word_of_int chn) (\<lambda>x. x\<lparr>dds_init := True\<rparr>)))"

definition dummy_check_dds ::
  "pulse_times \<Rightarrow> int \<Rightarrow> bool \<Rightarrow> dummy_pulser \<Rightarrow> (bool \<times> dummy_pulser) result" where
  "dummy_check_dds pt chn force d =
     (if \<not> force \<and> dds_exists_internal chn \<and> dds_init (dm_dds d ! nat chn) then Inr (False, d)
      else bindR (dummy_init_dds pt chn d) (\<lambda>d'. Inr (True, d')))"

definition dummy_dds_exists :: "int \<Rightarrow> dummy_pulser \<Rightarrow> (bool \<times> dummy_pulser) result" where
  "dummy_dds_exists chn d = Inr (dds_exists_internal chn, d)"

definition int_string :: "int \<Rightarrow> string" where
  "int_string i = (if i < 0 then ''-'' @ dec_string (nat (- i)) else dec_string (nat i))"

definition dummy_dump_dds :: "int \<Rightarrow> dummy_pulser \<Rightarrow> (string \<times> dummy_pulser) result" where
  "dummy_dump_dds chn d =
     (let line = replicate 31 (CHR ''*'') @ [CHR 0x0A]
      in Inr (line @ ''Dummy DDS board: '' @ int_string chn @ [CHR 0x0A] @ line, d))"

definition dummy_loopback_reg :: "dummy_pulser \<Rightarrow> u32" where
  "dummy_loopback_reg d = dm_loopback_reg d"

definition dummy_set_loopback_reg :: "u32 \<Rightarrow> dummy_pulser \<Rightarrow> dummy_pulser" where
  "dummy_set_loopback_reg val d = d\<lparr>dm_loopback_reg := val\<rparr>"

definition dummy_hw_version :: "dummy_pulser \<Rightarrow> (pulser_version_t \<times> dummy_pulser) result" where
  "dummy_hw_version d = Inr (\<lparr>major = 5, minor = 4\<rparr>, d)"

definition dummy_set_dds_timing1 ::
  "u32 \<Rightarrow> u32 \<Rightarrow> u32 \<Rightarrow> u32 \<Rightarrow> u32 \<Rightarrow> dummy_pulser \<Rightarrow> dummy_pulser result" where
  "dummy_set_dds_timing1 adsu wrlow adhd fuddl fudhd d = Inr d"

definition dummy_get_dds_timing1 :: "dummy_pulser \<Rightarrow> (u8 list \<times> dummy_pulser) result" where
  "dummy_get_dds_timing1 d = Inr ([7, 7, 7, 7, 7], d)"

definition dummy_ops :: "pulse_times \<Rightarrow> dummy_pulser pulser_ops" where
  "dummy_ops pt = \<lparr>
     p_pulse = dummy_pulse pt,
     p_ttl_himask = dummy_ttl_himask,
     p_ttl_lomask = dummy_ttl_lomask,
     p_set_ttl_himask = dummy_set_ttl_himask,
     p_set_ttl_lomask = dummy_set_ttl_lomask,
     p_cur_ttl = dummy_cur_ttl pt,
     p_cur_clock = dummy_cur_clock pt,
     p_timing_ok = dummy_timing_ok pt,
     p_is_finished = dummy_is_finished pt,
     p_release_hold = dummy_release_hold,
     p_set_hold = dummy_set_hold pt,
     p_toggle_init = dummy_toggle_init,
     p_try_get_result = dummy_try_get_result pt,
     p_check_dds = dummy_check_dds pt,
     p_dds_exists = dummy_dds_exists,
     p_dump_dds = dummy_dump_dds,
     p_hw_version = dummy_hw_version,
     p_set_dds_timing1 = dummy_set_dds_timing1,
     p_get_dds_timing1 = dummy_get_dds_timing1\<rparr>"

section \<open>What a command does: the abstract machine\<close>

text \<open>
  The outputs a client can see, and the effect of one command on them, without queue, clock or
  timing. The queue of the implementation is correct when it is a delay in front of this machine.
\<close>

record dummy_view =
  v_ttl :: "u32 list"
  v_clock :: u8
  v_dds :: "DDS list"
  v_results :: "u32 list"

definition view :: "dummy_pulser \<Rightarrow> dummy_view" where
  "view d = \<lparr>v_ttl = dm_ttl d, v_clock = dm_clock d, v_dds = dm_dds d, v_results = dm_results d\<rparr>"

definition push_result :: "u32 \<Rightarrow> dummy_view \<Rightarrow> dummy_view" where
  "push_result v w =
     w\<lparr>v_results := v_results w @ [if length (v_results w) \<ge> max_result_count then 0 else v]\<rparr>"

definition upd_dds :: "u32 \<Rightarrow> (DDS \<Rightarrow> DDS) \<Rightarrow> dummy_view \<Rightarrow> dummy_view" where
  "upd_dds i f w = w\<lparr>v_dds := (v_dds w)[unat i := f (v_dds w ! unat i)]\<rparr>"

definition spec_cmd :: "Cmd \<Rightarrow> dummy_view \<Rightarrow> dummy_view" where
  "spec_cmd cmd w =
     (let v1 = cmd_v1 cmd; v2 = cmd_v2 cmd
      in case cmd_op cmd of
        OP_TTL \<Rightarrow> w\<lparr>v_ttl := (v_ttl w)[unat (drop_bit 24 v1) := v2]\<rparr>
      | OP_Clock \<Rightarrow> w\<lparr>v_clock := ucast v1\<rparr>
      | OP_DDSSetFreq \<Rightarrow> upd_dds v1 (\<lambda>x. x\<lparr>dds_freq := v2\<rparr>) w
      | OP_DDSSetAmp \<Rightarrow> upd_dds v1 (\<lambda>x. x\<lparr>dds_amp := ucast v2\<rparr>) w
      | OP_DDSSetPhase \<Rightarrow> upd_dds v1 (\<lambda>x. x\<lparr>dds_phase := ucast v2\<rparr>) w
      | OP_DDSReset \<Rightarrow> upd_dds v1 (\<lambda>x. x\<lparr>dds_amp := 0, dds_phase := 0, dds_freq := 0\<rparr>) w
      | OP_LoopBack \<Rightarrow> push_result v1 w
      | OP_DDSGetFreq \<Rightarrow> push_result (dds_freq (v_dds w ! unat v1)) w
      | OP_DDSGetAmp \<Rightarrow> push_result (ucast (dds_amp (v_dds w ! unat v1))) w
      | OP_DDSGetPhase \<Rightarrow> push_result (ucast (dds_phase (v_dds w ! unat v1))) w
      | _ \<Rightarrow> w)"

definition cmd_steps :: "pulse_times \<Rightarrow> Cmd \<Rightarrow> u32" where
  "cmd_steps pt cmd =
     (case cmd_op cmd of
        OP_TTL \<Rightarrow> cmd_v1 cmd AND (push_bit 24 1 - 1)
      | OP_Clock \<Rightarrow> PT_Clock pt
      | OP_DAC \<Rightarrow> PT_DAC pt
      | OP_Wait \<Rightarrow> cmd_v1 cmd
      | OP_ClearErr \<Rightarrow> PT_Clear pt
      | OP_DDSSetFreq \<Rightarrow> PT_DDSFreq pt
      | OP_DDSSetAmp \<Rightarrow> PT_DDSAmp pt
      | OP_DDSSetPhase \<Rightarrow> PT_DDSPhase pt
      | OP_DDSReset \<Rightarrow> PT_DDSReset pt
      | OP_LoopBack \<Rightarrow> PT_LoopBack pt
      | OP_DDSGetFreq \<Rightarrow> PT_DDSFreq pt
      | OP_DDSGetAmp \<Rightarrow> PT_DDSAmp pt
      | OP_DDSGetPhase \<Rightarrow> PT_DDSPhase pt)"

section \<open>Invariant\<close>

definition cmd_ok :: "Cmd \<Rightarrow> bool" where
  "cmd_ok cmd =
     (case cmd_op cmd of
        OP_TTL \<Rightarrow> unat (drop_bit 24 (cmd_v1 cmd)) < NUM_TTL_BANKS
      | OP_Clock \<Rightarrow> True
      | OP_DAC \<Rightarrow> True
      | OP_Wait \<Rightarrow> True
      | OP_ClearErr \<Rightarrow> True
      | OP_LoopBack \<Rightarrow> True
      | _ \<Rightarrow> unat (cmd_v1 cmd) < NDDS)"

definition dummy_shape :: "dummy_pulser \<Rightarrow> bool" where
  "dummy_shape d \<longleftrightarrow>
     length (dm_ttl_hi d) = NUM_TTL_BANKS \<and> length (dm_ttl_lo d) = NUM_TTL_BANKS \<and>
     length (dm_ttl d) = NUM_TTL_BANKS \<and> length (dm_dma_ttl_mask d) = NUM_TTL_BANKS \<and>
     length (dm_dds d) = NDDS"

definition cmds_ok :: "dummy_pulser \<Rightarrow> bool" where
  "cmds_ok d \<longleftrightarrow> (\<forall>c \<in> set (dm_cmds d). cmd_ok c \<and> cmd_t c \<le> dm_now d)"

definition dummy_inv :: "dummy_pulser \<Rightarrow> bool" where
  "dummy_inv d \<longleftrightarrow>
     dummy_shape d \<and> cmds_ok d \<and> (dm_cmds_empty d \<longleftrightarrow> dm_cmds d = []) \<and>
     length (dm_cmds d) \<le> max_cmd_count"

text \<open>What executing commands never touches.\<close>

definition same_env :: "dummy_pulser \<Rightarrow> dummy_pulser \<Rightarrow> bool" where
  "same_env d d' \<longleftrightarrow>
     dm_ttl_hi d' = dm_ttl_hi d \<and> dm_ttl_lo d' = dm_ttl_lo d \<and>
     dm_dma_ttl_mask d' = dm_dma_ttl_mask d \<and> dm_loopback_reg d' = dm_loopback_reg d \<and>
     dm_hold d' = dm_hold d \<and> dm_force_release d' = dm_force_release d"

lemma same_env_refl [simp]: "same_env d d"
  by (simp add: same_env_def)

lemma same_env_trans [trans]: "same_env a b \<Longrightarrow> same_env b c \<Longrightarrow> same_env a c"
  by (simp add: same_env_def)

section \<open>Executing the queue\<close>

lemma run_cmd_eq:
  assumes "cmd_ok cmd" and "dummy_shape d"
  shows "dummy_run_cmd pt cmd d =
    (let w = spec_cmd cmd (view d)
     in Inr (cmd_steps pt cmd,
          d\<lparr>dm_ttl := v_ttl w, dm_clock := v_clock w, dm_dds := v_dds w, dm_results := v_results w,
            dm_timing_ok := dm_timing_ok d \<or> cmd_op cmd = OP_ClearErr\<rparr>))"
  using assms
  by (cases "cmd_op cmd")
     (simp_all add: dummy_run_cmd_def spec_cmd_def cmd_steps_def view_def with_dds_def cmd_ok_def
       get_dds_field_def add_result_def push_result_def upd_dds_def Let_def dummy_shape_def)

lemma spec_cmd_lengths [simp]:
  "length (v_ttl (spec_cmd c w)) = length (v_ttl w)"
  "length (v_dds (spec_cmd c w)) = length (v_dds w)"
  by (cases "cmd_op c"; simp add: spec_cmd_def push_result_def upd_dds_def Let_def)+

text \<open>The state after running one valid command that started at \<open>startt\<close>.\<close>

definition after_cmd :: "pulse_times \<Rightarrow> nat \<Rightarrow> Cmd \<Rightarrow> dummy_pulser \<Rightarrow> dummy_pulser" where
  "after_cmd pt startt cmd d =
     (let w = spec_cmd cmd (view d)
      in d\<lparr>dm_ttl := v_ttl w, dm_clock := v_clock w, dm_dds := v_dds w, dm_results := v_results w,
           dm_timing_ok := dm_timing_ok d \<or> cmd_op cmd = OP_ClearErr,
           dm_timing_check := cmd_timing cmd,
           dm_release_time := startt + unat (cmd_steps pt cmd * 10), dm_cmds := tl (dm_cmds d)\<rparr>)"

lemma after_cmd_simps [simp]:
  "dm_cmds (after_cmd pt st c d) = tl (dm_cmds d)"
  "dm_release_time (after_cmd pt st c d) = st + unat (cmd_steps pt c * 10)"
  "dm_timing_check (after_cmd pt st c d) = cmd_timing c"
  "dm_timing_ok (after_cmd pt st c d) = (dm_timing_ok d \<or> cmd_op c = OP_ClearErr)"
  "dm_cmds_empty (after_cmd pt st c d) = dm_cmds_empty d"
  "dm_now (after_cmd pt st c d) = dm_now d"
  "dm_ticks (after_cmd pt st c d) = dm_ticks d"
  "dm_ttl_hi (after_cmd pt st c d) = dm_ttl_hi d"
  "dm_ttl_lo (after_cmd pt st c d) = dm_ttl_lo d"
  "dm_dma_ttl_mask (after_cmd pt st c d) = dm_dma_ttl_mask d"
  "dm_loopback_reg (after_cmd pt st c d) = dm_loopback_reg d"
  "dm_hold (after_cmd pt st c d) = dm_hold d"
  "dm_force_release (after_cmd pt st c d) = dm_force_release d"
  "view (after_cmd pt st c d) = spec_cmd c (view d)"
  "dummy_shape (after_cmd pt st c d) = dummy_shape d"
  by (simp_all add: after_cmd_def Let_def) (simp_all add: view_def dummy_shape_def)

lemma exec_cmd_eq:
  assumes "cmd_ok cmd" and "dummy_shape d"
  shows "exec_cmd pt startt cmd d = Inr (after_cmd pt startt cmd d)"
proof -
  let ?d = "d\<lparr>dm_timing_check := cmd_timing cmd\<rparr>"
  have shape: "dummy_shape ?d" and v: "view ?d = view d"
    using assms by (simp_all add: dummy_shape_def view_def)
  show ?thesis
    by (simp add: exec_cmd_def run_cmd_eq [OF assms(1) shape] v Let_def after_cmd_def)
qed

text \<open>
  Running the queue up to \<open>cur_t\<close>: a prefix of the commands is executed, in order; the rest stays.
\<close>

lemma run_past_loop_prefix:
  assumes "dm_cmds d = cmds" and "dummy_shape d"
    and "\<forall>c \<in> set cmds. cmd_ok c \<and> cmd_t c \<le> cur_t"
  shows "\<exists>d' xs ys. run_past_loop pt cur_t r0 cmds d = Inr (r0 \<or> xs \<noteq> [], d') \<and>
     cmds = xs @ ys \<and> dm_cmds d' = ys \<and> view d' = fold spec_cmd xs (view d) \<and>
     dummy_shape d' \<and> same_env d d' \<and> dm_now d' = dm_now d \<and> dm_ticks d' = dm_ticks d \<and>
     dm_cmds_empty d' = (dm_cmds_empty d \<or> ys = []) \<and>
     (dm_release_time d \<le> cur_t \<longrightarrow> cmds \<noteq> [] \<longrightarrow> xs \<noteq> [])"
  using assms
proof (induction cmds arbitrary: d r0)
  case Nil
  then show ?case
    by (intro exI [of _ "d\<lparr>dm_cmds_empty := True\<rparr>"] exI [of _ "[]"])
       (auto simp: view_def dummy_shape_def same_env_def)
next
  case (Cons c cs)
  have step: "\<exists>d' xs ys. bindR (exec_cmd pt st c d0) (run_past_loop pt cur_t True cs) =
        Inr (r0 \<or> xs \<noteq> [], d') \<and>
     c # cs = xs @ ys \<and> dm_cmds d' = ys \<and> view d' = fold spec_cmd xs (view d) \<and>
     dummy_shape d' \<and> same_env d d' \<and> dm_now d' = dm_now d \<and> dm_ticks d' = dm_ticks d \<and>
     dm_cmds_empty d' = (dm_cmds_empty d \<or> ys = []) \<and>
     (dm_release_time d \<le> cur_t \<longrightarrow> c # cs \<noteq> [] \<longrightarrow> xs \<noteq> [])"
    if d0: "d0 = d \<or> d0 = d\<lparr>dm_timing_ok := False\<rparr>" for d0 st
  proof -
    have c: "cmd_ok c" and sh: "dummy_shape d0"
      using Cons.prems d0 by (auto simp: dummy_shape_def)
    have v: "view d0 = view d" "same_env d d0" "dm_cmds_empty d0 = dm_cmds_empty d"
      "dm_now d0 = dm_now d" "dm_ticks d0 = dm_ticks d" "dm_cmds d0 = c # cs"
      using d0 Cons.prems(1) by (auto simp: view_def same_env_def)
    let ?d1 = "after_cmd pt st c d0"
    from Cons.IH [of ?d1 True] sh v(6) Cons.prems(3)
    obtain d' xs ys where *: "run_past_loop pt cur_t True cs ?d1 = Inr (True, d')"
      "cs = xs @ ys" "dm_cmds d' = ys" "view d' = fold spec_cmd xs (view ?d1)"
      "dummy_shape d'" "same_env ?d1 d'" "dm_now d' = dm_now ?d1" "dm_ticks d' = dm_ticks ?d1"
      "dm_cmds_empty d' = (dm_cmds_empty ?d1 \<or> ys = [])"
      by auto
    have "same_env d d'"
      using v(2) *(6) by (auto simp: same_env_def)
    with * v exec_cmd_eq [OF c sh] show ?thesis
      by (intro exI [of _ d'] exI [of _ "c # xs"] exI [of _ ys]) auto
  qed
  show ?case
  proof (cases "cmd_t c > dm_release_time d")
    case True
    then show ?thesis
      using step [of "if dm_timing_check d then d\<lparr>dm_timing_ok := False\<rparr> else d" "cmd_t c"]
        Cons.prems(3) by (auto simp: Let_def)
  next
    case False
    show ?thesis
    proof (cases "dm_release_time d > cur_t")
      case True
      with False show ?thesis
        using Cons.prems by (intro exI [of _ d] exI [of _ "[]"] exI [of _ "c # cs"]) auto
    next
      case f2: False
      with False show ?thesis
        using step [of d "dm_release_time d"] by (auto simp: Let_def)
    qed
  qed
qed

section \<open>Polling\<close>

text \<open>
  \<open>polled d d'\<close>: the relation between the states before and after any member that first brings
  the queue up to date. Some commands at the head of the queue have been executed, at least one
  unless the pulser is held, and nothing else a client can see has changed.
\<close>

definition polled :: "dummy_pulser \<Rightarrow> dummy_pulser \<Rightarrow> bool" where
  "polled d d' \<longleftrightarrow>
     (\<exists>xs. dm_cmds d = xs @ dm_cmds d' \<and> view d' = fold spec_cmd xs (view d) \<and>
        (\<not> held d \<longrightarrow> dm_cmds d \<noteq> [] \<longrightarrow> xs \<noteq> [])) \<and>
     dummy_inv d' \<and> same_env d d' \<and> dm_now d \<le> dm_now d' \<and> (held d \<longrightarrow> d' = d)"

text \<open>The outputs once every queued command has run.\<close>

definition eventual :: "dummy_pulser \<Rightarrow> dummy_view" where
  "eventual d = fold spec_cmd (dm_cmds d) (view d)"

lemma polled_refl: "dummy_inv d \<Longrightarrow> dm_cmds d = [] \<or> held d \<Longrightarrow> polled d d"
  by (auto simp: polled_def)

lemma polled_eventual: "polled d d' \<Longrightarrow> eventual d' = eventual d"
  by (auto simp: polled_def eventual_def)

lemma polled_length: "polled d d' \<Longrightarrow> length (dm_cmds d') \<le> length (dm_cmds d)"
  unfolding polled_def by (metis le_add2 length_append)

lemma polled_progress:
  "polled d d' \<Longrightarrow> \<not> held d \<Longrightarrow> dm_cmds d \<noteq> [] \<Longrightarrow> length (dm_cmds d') < length (dm_cmds d)"
  unfolding polled_def by (metis add_less_same_cancel2 length_append length_greater_0_conv not_less_iff_gr_or_eq
      add.commute add_cancel_left_left linorder_neqE_nat not_add_less2)

lemma polledD:
  assumes "polled d d'"
  shows "dummy_inv d'" "same_env d d'" "held d' = held d" "dm_now d \<le> dm_now d'"
  using assms by (auto simp: polled_def same_env_def held_def)

lemma steady_now_eq:
  "steady_now d = (dm_now d + dm_ticks d 0,
     d\<lparr>dm_now := dm_now d + dm_ticks d 0, dm_ticks := \<lambda>i. dm_ticks d (Suc i)\<rparr>)"
  by (simp add: steady_now_def Let_def)

lemma read_past_release_eq:
  obtains n tk where "read_past_release d = (n, d\<lparr>dm_now := n, dm_ticks := tk\<rparr>)"
    and "dm_now d \<le> n" and "dm_release_time d \<le> n"
proof (cases "dm_now d + dm_ticks d 0 < dm_release_time d")
  case True
  then show thesis
    by (rule_tac that [of "dm_release_time d + dm_ticks d 1" "\<lambda>i. dm_ticks d (Suc (Suc i))"])
       (simp_all add: read_past_release_def steady_now_eq sleep_until_def)
next
  case False
  then show thesis
    by (rule_tac that [of "dm_now d + dm_ticks d 0" "\<lambda>i. dm_ticks d (Suc i)"])
       (simp_all add: read_past_release_def steady_now_eq)
qed

text \<open>A blocking wait is over after one round: the first command is always due by then.\<close>

lemma forward_loop_total:
  assumes inv: "dummy_inv d" and "\<not> held d" and "dm_cmds d \<noteq> []"
  shows "\<exists>d'. forward_loop pt (Suc fuel) block d = Inr d' \<and> polled d d'"
proof -
  obtain n tk where r: "read_past_release d = (n, d\<lparr>dm_now := n, dm_ticks := tk\<rparr>)"
    and n: "dm_now d \<le> n" "dm_release_time d \<le> n"
    by (rule read_past_release_eq)
  let ?d1 = "d\<lparr>dm_now := n, dm_ticks := tk\<rparr>"
  have d1: "\<not> held ?d1" "view ?d1 = view d" "same_env d ?d1" "dummy_shape ?d1"
    "dm_cmds ?d1 = dm_cmds d" "dm_release_time ?d1 \<le> n" "dm_cmds_empty ?d1 \<longleftrightarrow> dm_cmds d = []"
    "\<forall>c \<in> set (dm_cmds d). cmd_ok c \<and> cmd_t c \<le> n"
    using inv assms(2) n
    by (auto simp: held_def view_def same_env_def dummy_shape_def dummy_inv_def cmds_ok_def)
  obtain d' xs ys where p: "run_past_loop pt n False (dm_cmds d) ?d1 = Inr (False \<or> xs \<noteq> [], d')"
    "dm_cmds d = xs @ ys" "dm_cmds d' = ys" "view d' = fold spec_cmd xs (view ?d1)"
    "dummy_shape d'" "same_env ?d1 d'" "dm_now d' = dm_now ?d1"
    "dm_cmds_empty d' = (dm_cmds_empty ?d1 \<or> ys = [])"
    "dm_release_time ?d1 \<le> n \<longrightarrow> dm_cmds d \<noteq> [] \<longrightarrow> xs \<noteq> []"
    using run_past_loop_prefix [OF d1(5,4,8), of pt False] by blast
  then have xs: "xs \<noteq> []"
    using d1(6) assms(3) by blast
  have "dummy_inv d'"
    using p(2,3,5,7,8) d1(7,8) inv assms(3) by (auto simp: dummy_inv_def cmds_ok_def)
  moreover have "same_env d d'"
    using d1(3) p(6) by (rule same_env_trans)
  ultimately have "polled d d'"
    using p(2,3,4,7) d1(2) n(1) xs assms(2) by (auto simp: polled_def)
  then show ?thesis
    using p(1) xs d1(1) by (simp add: r run_past_cmds_def)
qed

lemma forward_time_locked_poll:
  assumes "dummy_inv d"
  shows "\<exists>d'. forward_time_locked pt False d = Inr d' \<and> polled d d'"
  using assms forward_loop_total [of d pt 0 False]
  by (auto simp: forward_time_locked_def polled_refl)

lemma forward_time_locked_block:
  assumes "dummy_inv d" and "\<not> held d" and "dm_cmds d \<noteq> []"
  shows "\<exists>d'. forward_time_locked pt True d = Inr d' \<and> polled d d'"
  using assms forward_loop_total [of d pt 0 True] by (auto simp: forward_time_locked_def)

lemma forward_time_poll:
  assumes "dummy_inv d"
  shows "\<exists>d'. forward_time pt False d = Inr d' \<and> polled d d'"
  using assms forward_time_locked_poll [OF assms]
  by (auto simp: forward_time_def polled_refl dummy_inv_def)

section \<open>Queueing\<close>

lemma spec_cmd_timeless:
  "cmd_op c = cmd_op c' \<Longrightarrow> cmd_v1 c = cmd_v1 c' \<Longrightarrow> cmd_v2 c = cmd_v2 c' \<Longrightarrow>
   spec_cmd c = spec_cmd c'"
  by (simp add: spec_cmd_def fun_eq_iff)

lemma steady_now_inv:
  assumes "dummy_inv d" and "steady_now d = (t, d')"
  shows "dummy_inv d'" "eventual d' = eventual d" "dm_now d' = t" "dm_cmds d' = dm_cmds d"
    "same_env d d'" "held d' = held d"
  using assms
  by (auto simp: steady_now_eq dummy_inv_def cmds_ok_def eventual_def view_def dummy_shape_def
      same_env_def held_def intro!: trans_le_add1)

text \<open>What queueing a command leaves alone, whether or not it has to make room.\<close>

definition same_masks :: "dummy_pulser \<Rightarrow> dummy_pulser \<Rightarrow> bool" where
  "same_masks d d' \<longleftrightarrow> dm_ttl_hi d' = dm_ttl_hi d \<and> dm_ttl_lo d' = dm_ttl_lo d"

lemma same_env_masks: "same_env d d' \<Longrightarrow> same_masks d d'"
  by (simp add: same_env_def same_masks_def)

lemma same_masks_trans: "same_masks a b \<Longrightarrow> same_masks b c \<Longrightarrow> same_masks a c"
  by (simp add: same_masks_def)

lemma add_cmd_loop_room:
  assumes inv: "dummy_inv d" and fuel: "length (dm_cmds d) \<le> fuel"
  shows "\<exists>d'. add_cmd_loop pt fuel d = Inr d' \<and> dummy_inv d' \<and> eventual d' = eventual d \<and>
     same_masks d d' \<and> length (dm_cmds d') < max_cmd_count \<and> dm_now d \<le> dm_now d'"
proof (cases "length (dm_cmds d) < max_cmd_count")
  case True
  then show ?thesis
    using inv by (subst add_cmd_loop.simps) (simp add: same_masks_def)
next
  case False
  with inv have len: "length (dm_cmds d) = max_cmd_count"
    by (simp add: dummy_inv_def)
  then obtain n where n: "fuel = Suc n" and ne: "dm_cmds d \<noteq> []"
    using fuel by (cases fuel; cases "dm_cmds d") (auto simp: max_cmd_count_def)
  define d1 where "d1 = (if dm_force_release d then d
    else let (t, d') = steady_now (d\<lparr>dm_force_release := True\<rparr>) in d'\<lparr>dm_release_time := t\<rparr>)"
  have d1: "dummy_inv d1" "eventual d1 = eventual d" "same_masks d d1" "\<not> held d1"
    "dm_cmds d1 = dm_cmds d" "dm_now d \<le> dm_now d1"
    using inv by (auto simp: d1_def steady_now_eq dummy_inv_def cmds_ok_def eventual_def view_def
        dummy_shape_def same_masks_def held_def intro!: trans_le_add1)
  obtain d2 where d2: "forward_time_locked pt True d1 = Inr d2" "polled d1 d2"
    using forward_time_locked_block [of d1 pt] d1 ne by auto
  have room: "length (dm_cmds d2) < max_cmd_count"
    using polled_progress [OF d2(2)] d1 ne len by simp
  then have "add_cmd_loop pt fuel d = Inr d2"
    using len d2(1) n
    by (subst add_cmd_loop.simps) (simp add: d1_def [symmetric] Let_def, subst add_cmd_loop.simps, simp)
  then show ?thesis
    using d2 d1 room polled_eventual [OF d2(2)] polledD [OF d2(2)]
    by (auto simp: same_masks_def same_env_def)
qed

lemma add_cmd_queues:
  assumes inv: "dummy_inv d"
    and ok: "cmd_ok \<lparr>cmd_op = op, cmd_timing = b, cmd_t = 0, cmd_v1 = v1, cmd_v2 = v2\<rparr>"
  shows "\<exists>d'. add_cmd pt op b v1 v2 d = Inr d' \<and> dummy_inv d' \<and> same_masks d d' \<and>
     eventual d' =
       spec_cmd \<lparr>cmd_op = op, cmd_timing = b, cmd_t = 0, cmd_v1 = v1, cmd_v2 = v2\<rparr> (eventual d)"
proof -
  obtain t d1 where s: "steady_now d = (t, d1)" by fastforce
  note d1 = steady_now_inv [OF inv s]
  obtain d2 where d2: "add_cmd_loop pt (length (dm_cmds d1)) d1 = Inr d2" "dummy_inv d2"
    "eventual d2 = eventual d1" "same_masks d1 d2" "length (dm_cmds d2) < max_cmd_count"
    "dm_now d1 \<le> dm_now d2"
    using add_cmd_loop_room [OF d1(1) order_refl] by blast
  let ?c = "\<lparr>cmd_op = op, cmd_timing = b, cmd_t = t, cmd_v1 = v1, cmd_v2 = v2\<rparr>"
  let ?d = "d2\<lparr>dm_cmds := dm_cmds d2 @ [?c], dm_cmds_empty := False\<rparr>"
  have c: "spec_cmd ?c = spec_cmd (?c\<lparr>cmd_t := 0\<rparr>)" "cmd_ok ?c"
    using ok by (simp_all add: spec_cmd_def cmd_ok_def fun_eq_iff cong: OP.case_cong)
  have "dummy_inv ?d"
    using d2 d1(3) c(2) by (auto simp: dummy_inv_def cmds_ok_def dummy_shape_def)
  moreover have "eventual ?d = spec_cmd (?c\<lparr>cmd_t := 0\<rparr>) (eventual d)"
    using d1(2) d2(3) c(1) by (simp add: eventual_def view_def)
  moreover have "same_masks d ?d"
    using d1(5) d2(4) by (simp add: same_masks_def same_env_def)
  ultimately show ?thesis
    using d2(1) by (simp add: add_cmd_def s Let_def)
qed

section \<open>Instructions against the abstract machine\<close>

text \<open>What an instruction of the interface means, in terms of its arguments.\<close>

fun spec_pulse :: "pulse \<Rightarrow> dummy_view \<Rightarrow> dummy_view" where
  "spec_pulse (P_ttl c v t bank) w = w\<lparr>v_ttl := (v_ttl w)[nat bank := v]\<rparr>"
| "spec_pulse (P_clock c divider) w = w\<lparr>v_clock := divider\<rparr>"
| "spec_pulse (P_dds_set_freq c i ftw) w =
     w\<lparr>v_dds := (v_dds w)[nat i := (v_dds w ! nat i)\<lparr>dds_freq := ftw\<rparr>]\<rparr>"
| "spec_pulse (P_dds_set_amp c i amp) w =
     w\<lparr>v_dds := (v_dds w)[nat i := (v_dds w ! nat i)\<lparr>dds_amp := amp\<rparr>]\<rparr>"
| "spec_pulse (P_dds_set_phase c i phase) w =
     w\<lparr>v_dds := (v_dds w)[nat i := (v_dds w ! nat i)\<lparr>dds_phase := phase\<rparr>]\<rparr>"
| "spec_pulse (P_dds_reset c i) w =
     w\<lparr>v_dds := (v_dds w)[nat i := (v_dds w ! nat i)\<lparr>dds_amp := 0, dds_phase := 0, dds_freq := 0\<rparr>]\<rparr>"
| "spec_pulse (P_loopback c v) w = push_result v w"
| "spec_pulse (P_dds_get_freq c i) w = push_result (dds_freq (v_dds w ! nat i)) w"
| "spec_pulse (P_dds_get_amp c i) w = push_result (ucast (dds_amp (v_dds w ! nat i))) w"
| "spec_pulse (P_dds_get_phase c i) w = push_result (ucast (dds_phase (v_dds w ! nat i))) w"
| "spec_pulse _ w = w"

lemmas dummy_pulse_defs =
  dummy_ttl_def dummy_clock_def dummy_dac_def dummy_wait_def dummy_wait_trigger_def
  dummy_clear_error_def dummy_dds_set_freq_def dummy_dds_set_amp_def dummy_dds_set_phase_def
  dummy_dds_reset_def dummy_loopback_def dummy_dds_get_phase_def dummy_dds_get_amp_def
  dummy_dds_get_freq_def dummy_dds_cmd_def

lemma chn_ok_nat:
  "chn_ok i \<Longrightarrow> unat (word_of_int i :: u32) = nat i" "chn_ok i \<Longrightarrow> nat i < NDDS"
  by (auto simp: bank_simps nat_less_iff)

lemma bank_ok_nat:
  "bank_ok b \<Longrightarrow> unat (word_of_int b :: u32) = nat b" "bank_ok b \<Longrightarrow> nat b < NUM_TTL_BANKS"
  by (auto simp: bank_simps nat_less_iff)

text \<open>The queue entry of an instruction, with the time stamp \<open>t\<close>.\<close>

fun pulse_cmd :: "nat \<Rightarrow> pulse \<Rightarrow> Cmd" where
  "pulse_cmd t (P_ttl c v dt bank) = Cmd.make OP_TTL c t (dt OR push_bit 24 (word_of_int bank)) v"
| "pulse_cmd t (P_clock c divider) = Cmd.make OP_Clock c t (ucast divider) 0"
| "pulse_cmd t (P_dac c dac V) = Cmd.make OP_DAC c t (ucast dac) (ucast V)"
| "pulse_cmd t (P_wait c dt) = Cmd.make OP_Wait c t dt 0"
| "pulse_cmd t (P_wait_trigger c chn raise dt) = Cmd.make OP_Wait c t dt 0"
| "pulse_cmd t P_clear_error = Cmd.make OP_ClearErr False t 0 0"
| "pulse_cmd t (P_dds_set_freq c i ftw) = Cmd.make OP_DDSSetFreq c t (word_of_int i) ftw"
| "pulse_cmd t (P_dds_set_amp c i amp) = Cmd.make OP_DDSSetAmp c t (word_of_int i) (ucast amp)"
| "pulse_cmd t (P_dds_set_phase c i ph) = Cmd.make OP_DDSSetPhase c t (word_of_int i) (ucast ph)"
| "pulse_cmd t (P_dds_reset c i) = Cmd.make OP_DDSReset c t (word_of_int i) 0"
| "pulse_cmd t (P_loopback c v) = Cmd.make OP_LoopBack c t v 0"
| "pulse_cmd t (P_dds_get_phase c i) = Cmd.make OP_DDSGetPhase c t (word_of_int i) 0"
| "pulse_cmd t (P_dds_get_amp c i) = Cmd.make OP_DDSGetAmp c t (word_of_int i) 0"
| "pulse_cmd t (P_dds_get_freq c i) = Cmd.make OP_DDSGetFreq c t (word_of_int i) 0"

lemma dummy_pulse_add_cmd:
  assumes "valid_pulse c"
  shows "dummy_pulse pt c d =
     add_cmd pt (cmd_op (pulse_cmd 0 c)) (cmd_timing (pulse_cmd 0 c)) (cmd_v1 (pulse_cmd 0 c))
       (cmd_v2 (pulse_cmd 0 c)) d"
  using assms
  by (cases c) (auto simp: dummy_pulse_defs Cmd.make_def chn_ok_def assertR_def)

lemma pulse_cmd_ok: "valid_pulse c \<Longrightarrow> cmd_ok (pulse_cmd t c)"
  by (cases c) (auto simp: cmd_ok_def Cmd.make_def chn_ok_nat ttl_word_bank bank_ok_nat simp del: drop_bit_or)

lemma pulse_cmd_spec: "valid_pulse c \<Longrightarrow> spec_cmd (pulse_cmd t c) w = spec_pulse c w"
  by (cases c)
     (simp_all add: spec_cmd_def Cmd.make_def chn_ok_nat ttl_word_bank bank_ok_nat upd_dds_def
       del: drop_bit_or)

lemma pulse_cmd_steps: "valid_pulse c \<Longrightarrow> cmd_steps pt (pulse_cmd t c) = pulse_time pt c"
  by (cases c) (simp_all add: cmd_steps_def Cmd.make_def ttl_word_time del: push_bit_of_1)

lemma dummy_pulse_spec:
  assumes inv: "dummy_inv d" and v: "valid_pulse c"
  shows "\<exists>d'. dummy_pulse pt c d = Inr d' \<and> dummy_inv d' \<and> same_masks d d' \<and>
     eventual d' = spec_pulse c (eventual d)"
proof -
  let ?c = "pulse_cmd 0 c"
  have c: "\<lparr>cmd_op = cmd_op ?c, cmd_timing = cmd_timing ?c, cmd_t = 0, cmd_v1 = cmd_v1 ?c,
       cmd_v2 = cmd_v2 ?c\<rparr> = ?c"
    by (cases c) (simp_all add: Cmd.make_def)
  show ?thesis
    using add_cmd_queues [OF inv, of "cmd_op ?c" "cmd_timing ?c" "cmd_v1 ?c" "cmd_v2 ?c" pt]
      pulse_cmd_ok [OF v] pulse_cmd_spec [OF v]
    by (simp only: c dummy_pulse_add_cmd [OF v])
qed

section \<open>The software pulser meets the contract\<close>

definition dummy_lo :: "dummy_pulser \<Rightarrow> int \<Rightarrow> u32" where
  "dummy_lo d b = (if bank_ok b then dm_ttl_lo d ! nat b else 0)"

definition dummy_hi :: "dummy_pulser \<Rightarrow> int \<Rightarrow> u32" where
  "dummy_hi d b = (if bank_ok b then dm_ttl_hi d ! nat b else 0)"

definition dummy_idle :: "dummy_pulser \<Rightarrow> bool" where
  "dummy_idle d \<longleftrightarrow> dm_cmds d = []"

lemma dummy_idle_empty: "dummy_inv d \<Longrightarrow> dm_cmds_empty d = dummy_idle d"
  by (simp add: dummy_inv_def dummy_idle_def)

lemma polled_idle: "polled d d' \<Longrightarrow> dummy_idle d \<Longrightarrow> dummy_idle d'"
  by (auto simp: polled_def dummy_idle_def)

lemma dummy_masks_update:
  assumes "dummy_inv d" and "bank_ok b"
  shows "dummy_set_ttl_lomask v b d = Inr (d\<lparr>dm_ttl_lo := (dm_ttl_lo d)[nat b := v]\<rparr>)"
    "dummy_set_ttl_himask v b d = Inr (d\<lparr>dm_ttl_hi := (dm_ttl_hi d)[nat b := v]\<rparr>)"
    "dummy_ttl_lomask b d = Inr (dummy_lo d b, d)"
    "dummy_ttl_himask b d = Inr (dummy_hi d b, d)"
    "dummy_inv (d\<lparr>dm_ttl_lo := (dm_ttl_lo d)[nat b := v]\<rparr>)"
    "dummy_inv (d\<lparr>dm_ttl_hi := (dm_ttl_hi d)[nat b := v]\<rparr>)"
    "dummy_lo (d\<lparr>dm_ttl_lo := (dm_ttl_lo d)[nat b := v]\<rparr>) = (dummy_lo d)(b := v)"
    "dummy_hi (d\<lparr>dm_ttl_hi := (dm_ttl_hi d)[nat b := v]\<rparr>) = (dummy_hi d)(b := v)"
    "dummy_lo (d\<lparr>dm_ttl_hi := (dm_ttl_hi d)[nat b := v]\<rparr>) = dummy_lo d"
    "dummy_hi (d\<lparr>dm_ttl_lo := (dm_ttl_lo d)[nat b := v]\<rparr>) = dummy_hi d"
  using assms bank_ok_nat(2) [OF assms(2)]
  by (auto simp: dummy_set_ttl_lomask_def dummy_set_ttl_himask_def dummy_ttl_lomask_def
      dummy_ttl_himask_def dummy_bank_def dummy_lo_def dummy_hi_def dummy_inv_def dummy_shape_def
      cmds_ok_def fun_eq_iff nth_list_update bank_ok_def nat_eq_iff)

lemma same_masks_lo_hi: "same_masks d d' \<Longrightarrow> dummy_lo d' = dummy_lo d \<and> dummy_hi d' = dummy_hi d"
  by (auto simp: same_masks_def dummy_lo_def dummy_hi_def)

lemma dummy_is_finished_spec:
  assumes "dummy_inv d"
  shows "\<exists>d'. dummy_is_finished pt d = Inr (dummy_idle d', d') \<and> polled d d'"
  using forward_time_poll [OF assms, of pt] dummy_idle_empty
  by (auto simp: dummy_is_finished_def dest: polledD(1))

lemma dummy_cur_ttl_spec:
  assumes "dummy_inv d" and "bank_ok b"
  shows "\<exists>d'. dummy_cur_ttl pt b d = Inr (dm_ttl d' ! nat b, d') \<and> polled d d'"
proof -
  obtain d' where d': "forward_time pt False d = Inr d'" "polled d d'"
    using forward_time_poll [OF assms(1)] by blast
  then have "nat b < length (dm_ttl d')"
    using polledD(1) [OF d'(2)] bank_ok_nat(2) [OF assms(2)]
    by (simp add: dummy_inv_def dummy_shape_def)
  then show ?thesis
    using d' assms(2) by (auto simp: dummy_cur_ttl_def)
qed

lemma dummy_release_hold_inv:
  assumes "dummy_inv d"
  shows "\<exists>d'. dummy_release_hold d = Inr d' \<and> dummy_inv d' \<and> eventual d' = eventual d \<and> \<not> held d'"
  using assms
  by (auto simp: dummy_release_hold_def steady_now_eq dummy_inv_def cmds_ok_def dummy_shape_def
      eventual_def view_def held_def intro!: trans_le_add1)

lemma dummy_set_hold_inv:
  assumes "dummy_inv d"
  shows "\<exists>d'. dummy_set_hold pt d = Inr d' \<and> dummy_inv d' \<and> eventual d' = eventual d \<and>
     dm_hold d' \<and> (dummy_idle d \<longrightarrow> dummy_idle d')"
proof -
  have upd: "dummy_inv (x\<lparr>dm_hold := True\<rparr>) = dummy_inv x"
    "eventual (x\<lparr>dm_hold := True\<rparr>) = eventual x"
    "dummy_idle (x\<lparr>dm_hold := True\<rparr>) = dummy_idle x" for x
    by (simp_all add: dummy_inv_def cmds_ok_def dummy_shape_def eventual_def view_def dummy_idle_def)
  obtain d' where d': "forward_time_locked pt False d = Inr d'" "polled d d'"
    using forward_time_locked_poll [OF assms] by blast
  show ?thesis
    using assms d' polledD(1) [OF d'(2)] polled_eventual [OF d'(2)] polled_idle [OF d'(2)]
    by (auto simp: dummy_set_hold_def upd)
qed

lemma dummy_try_get_result_inv:
  assumes "dummy_inv d"
  shows "\<exists>r d'. dummy_try_get_result pt d = Inr (r, d') \<and> dummy_inv d' \<and> held d' = held d"
proof -
  obtain d' where d': "forward_time pt False d = Inr d'" "polled d d'"
    using forward_time_poll [OF assms(1)] by blast
  have "dummy_inv (x\<lparr>dm_results := rs\<rparr>) = dummy_inv x" "held (x\<lparr>dm_results := rs\<rparr>) = held x" for x rs
    by (simp_all add: dummy_inv_def cmds_ok_def dummy_shape_def held_def)
  then show ?thesis
    using d' polledD [OF d'(2)] by (auto simp: dummy_try_get_result_def split: list.splits)
qed

lemma dummy_check_dds_inv:
  assumes inv: "dummy_inv d"
  shows "\<exists>r d'. dummy_check_dds pt chn force d = Inr (r, d') \<and> dummy_inv d' \<and>
     (chn_ok chn \<longrightarrow> dds_init (dm_dds d' ! nat chn)) \<and> same_masks d d'"
proof (cases "chn_ok chn")
  case False
  then show ?thesis
    using inv by (auto simp: dummy_check_dds_def dds_exists_internal_def dummy_init_dds_def
        chn_ok_def same_masks_def)
next
  case True
  then have ex: "dds_exists_internal chn" "valid_pulse (P_dds_reset False chn)"
    by (simp_all add: dds_exists_internal_def chn_ok_def)
  obtain d1 where d1: "dummy_dds_reset pt False chn d = Inr d1" "dummy_inv d1" "same_masks d d1"
    using dummy_pulse_spec [OF inv ex(2), of pt] by auto
  note n = chn_ok_nat [OF True]
  have len: "nat chn < length (dm_dds d1)"
    using d1(2) n(2) by (simp add: dummy_inv_def dummy_shape_def)
  let ?d = "d1\<lparr>dm_dds := (dm_dds d1)[nat chn := (dm_dds d1 ! nat chn)\<lparr>dds_init := True\<rparr>]\<rparr>"
  have "dummy_init_dds pt chn d = Inr ?d"
    using ex(1) d1(1) len n(1) by (simp add: dummy_init_dds_def with_dds_def)
  moreover have "dummy_inv ?d" "same_masks d ?d"
    using d1 by (simp_all add: dummy_inv_def cmds_ok_def dummy_shape_def same_masks_def)
  ultimately show ?thesis
    using inv len by (auto simp: dummy_check_dds_def same_masks_def)
qed

interpretation dummy: pulser_iface "dummy_ops pt" dummy_inv dummy_lo dummy_hi dummy_idle for pt
proof (unfold_locales, goal_cases)
  case (1 p b) then show ?case by (simp add: dummy_ops_def dummy_masks_update)
next
  case (2 p b) then show ?case by (simp add: dummy_ops_def dummy_masks_update)
next
  case (3 p b v) then show ?case by (simp add: dummy_ops_def dummy_masks_update)
next
  case (4 p b v) then show ?case by (simp add: dummy_ops_def dummy_masks_update)
next
  case (5 p c) then show ?case
    using dummy_pulse_spec [of p c pt] by (auto simp: dummy_ops_def)
next
  case (6 p) then show ?case
    using dummy_is_finished_spec [of p pt] by (auto simp: dummy_ops_def dest: polledD(1))
next
  case (7 p b) then show ?case
    using dummy_cur_ttl_spec [of p b pt] by (auto simp: dummy_ops_def dest: polledD(1) polled_idle)
next
  case (8 p) then show ?case
    using forward_time_poll [of p pt] by (auto simp: dummy_ops_def dummy_cur_clock_def dest: polledD(1))
next
  case (9 p) then show ?case
    using forward_time_poll [of p pt] by (auto simp: dummy_ops_def dummy_timing_ok_def dest: polledD(1))
next
  case (10 p) then show ?case
    using dummy_release_hold_inv [of p] by (auto simp: dummy_ops_def)
next
  case (11 p) then show ?case
    using dummy_set_hold_inv [of p pt] by (auto simp: dummy_ops_def)
next
  case (12 p) then show ?case
    by (auto simp: dummy_ops_def dummy_toggle_init_def dummy_idle_empty)
       (auto simp: dummy_inv_def cmds_ok_def dummy_shape_def)
next
  case (13 p) then show ?case
    using dummy_try_get_result_inv [of p pt] by (auto simp: dummy_ops_def)
next
  case (14 p chn force) then show ?case
    using dummy_check_dds_inv [of p pt chn force] by (auto simp: dummy_ops_def)
next
  case (15 p chn) then show ?case by (simp add: dummy_ops_def dummy_dds_exists_def)
next
  case (16 p chn) then show ?case by (simp add: dummy_ops_def dummy_dump_dds_def Let_def)
next
  case (17 p c p') then show ?case
    using dummy_pulse_spec [of p c pt] same_masks_lo_hi [of p p'] by (auto simp: dummy_ops_def)
qed

section \<open>Timing\<close>

text \<open>The time a list of commands takes, in nanoseconds.\<close>

definition cmds_ns :: "pulse_times \<Rightarrow> Cmd list \<Rightarrow> nat" where
  "cmds_ns pt cmds = (\<Sum>c\<leftarrow>cmds. unat (cmd_steps pt c * 10))"

lemma run_past_loop_on_time:
  assumes "dm_cmds d = cmds" and "dummy_shape d" and "\<forall>c \<in> set cmds. cmd_ok c"
    and "\<forall>c \<in> set cmds. cmd_t c \<le> dm_release_time d"
    and "dm_release_time d + cmds_ns pt cmds \<le> cur_t"
  shows "\<exists>r d'. run_past_loop pt cur_t r0 cmds d = Inr (r, d') \<and> dm_cmds d' = [] \<and>
     dm_release_time d' = dm_release_time d + cmds_ns pt cmds \<and>
     dm_timing_ok d' = (dm_timing_ok d \<or> (\<exists>c \<in> set cmds. cmd_op c = OP_ClearErr))"
  using assms
proof (induction cmds arbitrary: d r0)
  case Nil
  then show ?case by (simp add: cmds_ns_def)
next
  case (Cons c cs)
  let ?d = "after_cmd pt (dm_release_time d) c d"
  have c: "exec_cmd pt (dm_release_time d) c d = Inr ?d" "\<not> cmd_t c > dm_release_time d"
    "\<not> dm_release_time d > cur_t"
    using Cons.prems exec_cmd_eq by auto
  have "\<exists>r d'. run_past_loop pt cur_t True cs ?d = Inr (r, d') \<and> dm_cmds d' = [] \<and>
     dm_release_time d' = dm_release_time ?d + cmds_ns pt cs \<and>
     dm_timing_ok d' = (dm_timing_ok ?d \<or> (\<exists>c \<in> set cs. cmd_op c = OP_ClearErr))"
    by (rule Cons.IH) (use Cons.prems in \<open>auto simp: cmds_ns_def intro: trans_le_add1\<close>)
  then show ?case
    using c by (auto simp: cmds_ns_def)
qed

lemma run_past_loop_late:
  assumes "run_past_loop pt cur_t r0 cmds d = Inr (r, d')" and "dummy_shape d"
    and "\<forall>c \<in> set cmds. cmd_ok c \<and> cmd_op c \<noteq> OP_ClearErr"
  shows "dm_timing_ok d' \<Longrightarrow> dm_timing_ok d"
  using assms
proof (induction cmds arbitrary: d r0)
  case Nil
  then show ?case by auto
next
  case (Cons c cs)
  have ok: "cmd_ok c" "cmd_op c \<noteq> OP_ClearErr"
    using Cons.prems(4) by auto
  have shape: "dummy_shape (d\<lparr>dm_timing_ok := False\<rparr>)"
    using Cons.prems(3) by (simp add: dummy_shape_def)
  have rest: "dm_timing_ok x" if "run_past_loop pt cur_t True cs (after_cmd pt st c x) = Inr (r, d')"
    "dummy_shape x" for st x
    using Cons.IH [OF _ that(1)] Cons.prems(1,4) that(2) ok by auto
  show ?case
    using Cons.prems(1,2) rest [of _ d] rest [of _ "d\<lparr>dm_timing_ok := False\<rparr>"] Cons.prems(3) shape ok
    by (auto simp: Let_def exec_cmd_eq split: if_splits)
qed

lemma run_past_loop_detects:
  assumes "run_past_loop pt cur_t r0 (c # cs) d = Inr (r, d')" and "dummy_shape d"
    and "\<forall>x \<in> set (c # cs). cmd_ok x \<and> cmd_op x \<noteq> OP_ClearErr"
    and "dm_timing_check d" and "cmd_t c > dm_release_time d"
  shows "\<not> dm_timing_ok d'"
proof
  assume ok: "dm_timing_ok d'"
  let ?d = "d\<lparr>dm_timing_ok := False\<rparr>"
  have sh: "dummy_shape ?d"
    using assms(2) by (simp add: dummy_shape_def)
  have run: "run_past_loop pt cur_t True cs (after_cmd pt (cmd_t c) c ?d) = Inr (r, d')"
    using assms sh by (auto simp: Let_def exec_cmd_eq)
  have "dm_timing_ok (after_cmd pt (cmd_t c) c ?d)"
    by (rule run_past_loop_late [OF run]) (use ok sh assms(3) in simp_all)
  then show False
    using assms(3) by simp
qed

section \<open>Results\<close>

lemma spec_cmd_results:
  "\<exists>rs. v_results (spec_cmd c w) = v_results w @ rs"
  by (cases "cmd_op c") (simp_all add: spec_cmd_def push_result_def upd_dds_def Let_def)

lemma fold_spec_cmd_results:
  "\<exists>rs. v_results (fold spec_cmd cs w) = v_results w @ rs"
proof (induction cs arbitrary: w)
  case (Cons c cs)
  then show ?case
    using spec_cmd_results [of c w] by (metis append.assoc fold_simps(2))
qed simp

lemma fold_spec_cmd_pop:
  assumes "v_results w = v # vs" and "length (v_results (fold spec_cmd cs w)) \<le> max_result_count"
  shows "fold spec_cmd cs (w\<lparr>v_results := vs\<rparr>) =
     (fold spec_cmd cs w)\<lparr>v_results := tl (v_results (fold spec_cmd cs w))\<rparr>"
  using assms
proof (induction cs arbitrary: w vs)
  case Nil
  then show ?case by simp
next
  case (Cons c cs)
  obtain rs where rs: "v_results (spec_cmd c w) = v_results w @ rs"
    using spec_cmd_results by blast
  obtain rs' where rs': "v_results (fold spec_cmd cs (spec_cmd c w)) = v_results (spec_cmd c w) @ rs'"
    using fold_spec_cmd_results by blast
  have le: "length (v_results w @ rs) \<le> max_result_count"
    using Cons.prems(2) rs rs' by simp
  have step: "spec_cmd c (w\<lparr>v_results := vs\<rparr>) =
      (spec_cmd c w)\<lparr>v_results := tl (v_results (spec_cmd c w))\<rparr>"
    using Cons.prems(1) rs le
    by (cases "cmd_op c") (auto simp: spec_cmd_def push_result_def upd_dds_def Let_def)
  show ?case
    using Cons.IH [of "spec_cmd c w" "tl (v_results (spec_cmd c w))"] Cons.prems rs by (simp add: step)
qed

lemma dummy_get_result_total:
  assumes "dummy_inv d" and "\<not> held d" and "length (dm_cmds d) < fuel"
  shows "(\<forall>v vs. v_results (eventual d) = v # vs \<longrightarrow>
        (\<exists>d'. dummy_get_result pt fuel d = Inr (v, d') \<and> dummy_inv d' \<and>
           (length (v # vs) \<le> max_result_count \<longrightarrow> eventual d' = (eventual d)\<lparr>v_results := vs\<rparr>)))
     \<and> (v_results (eventual d) = [] \<longrightarrow>
        dummy_get_result pt fuel d = Inl (UnderflowError ''No result queued.''))"
  using assms
proof (induction fuel arbitrary: d)
  case 0
  then show ?case by simp
next
  case (Suc fuel)
  obtain d1 where d1: "forward_time pt False d = Inr d1" "polled d d1"
    using forward_time_poll [OF Suc.prems(1)] by blast
  note p = polledD [OF d1(2)] polled_eventual [OF d1(2)]
  obtain rs where rs: "v_results (eventual d1) = dm_results d1 @ rs"
    using fold_spec_cmd_results [of "dm_cmds d1" "view d1"] by (auto simp: eventual_def view_def)
  show ?case
  proof (cases "dm_results d1")
    case (Cons v vs)
    let ?d = "d1\<lparr>dm_results := vs\<rparr>"
    have "dummy_inv ?d"
      using p(1) by (simp add: dummy_inv_def cmds_ok_def dummy_shape_def)
    moreover have "eventual ?d = (eventual d1)\<lparr>v_results := tl (v_results (eventual d1))\<rparr>"
      if "length (v_results (eventual d1)) \<le> max_result_count"
      using fold_spec_cmd_pop [of "view d1" v vs "dm_cmds d1"] that Cons
      by (simp add: eventual_def view_def)
    ultimately show ?thesis
      using d1(1) Cons rs p(5) by (auto simp: dummy_try_get_result_def)
  next
    case Nil
    show ?thesis
    proof (cases "dm_cmds d1 = []")
      case True
      with Nil have "v_results (eventual d1) = []"
        by (simp add: eventual_def view_def)
      then show ?thesis
        using d1(1) Nil True p(5) by (simp add: dummy_try_get_result_def)
    next
      case False
      then have "dm_cmds d \<noteq> []"
        using d1(2) by (auto simp: polled_def)
      then have "length (dm_cmds d1) < fuel"
        using polled_progress [OF d1(2)] Suc.prems by simp
      then show ?thesis
        using Suc.IH [of d1] p Suc.prems(2) d1(1) Nil False by (auto simp: dummy_try_get_result_def)
    qed
  qed
qed

lemma dummy_get_result_held:
  assumes "dummy_inv d" and "held d" and "dm_results d = []" and "dm_cmds d \<noteq> []"
  shows "dummy_get_result pt fuel d = Inl OutOfFuel"
  using assms
proof (induction fuel)
  case (Suc fuel)
  have "forward_time pt False d = Inr d"
    using Suc.prems by (simp add: forward_time_def forward_time_locked_def dummy_inv_def)
  then show ?case
    using Suc by (simp add: dummy_try_get_result_def)
qed simp


section \<open>Running the queue to its end\<close>

lemma polls_drain:
  assumes "dummy_inv d" and "\<not> held d" and "length (dm_cmds d) \<le> n"
  shows "\<exists>d'. foldR (\<lambda>_. forward_time pt False) [0 ..< n] d = Inr d' \<and> dm_cmds d' = [] \<and>
     view d' = eventual d"
proof -
  have "\<exists>d'. foldR (\<lambda>_. forward_time pt False) xs d = Inr d' \<and> dm_cmds d' = [] \<and> view d' = eventual d"
    if "dummy_inv d" "\<not> held d" "length (dm_cmds d) \<le> length xs" for xs :: "nat list" and d
    using that
  proof (induction xs arbitrary: d)
    case Nil
    then show ?case by (simp add: eventual_def)
  next
    case (Cons x xs)
    obtain d1 where d1: "forward_time pt False d = Inr d1" "polled d d1"
      using forward_time_poll [OF Cons.prems(1)] by blast
    note p = polledD [OF d1(2)] polled_eventual [OF d1(2)] polled_length [OF d1(2)]
    have "length (dm_cmds d1) \<le> length xs"
      using polled_progress [OF d1(2) Cons.prems(2)] Cons.prems(3) p(6) by (cases "dm_cmds d = []") auto
    then show ?case
      using Cons.IH [of d1] p Cons.prems(2) d1(1) by auto
  qed
  from this [of d "[0 ..< n]"] assms show ?thesis
    by simp
qed

lemma pulses_spec:
  assumes "dummy_inv d" and "\<forall>c \<in> set cs. valid_pulse c"
  shows "\<exists>d'. foldR (dummy_pulse pt) cs d = Inr d' \<and> dummy_inv d' \<and>
     eventual d' = fold spec_pulse cs (eventual d)"
  using assms
proof (induction cs arbitrary: d)
  case (Cons c cs)
  obtain d1 where "dummy_pulse pt c d = Inr d1" "dummy_inv d1" "eventual d1 = spec_pulse c (eventual d)"
    using dummy_pulse_spec [OF Cons.prems(1), of c pt] Cons.prems(2) by auto
  then show ?case
    using Cons.IH [of d1] Cons.prems(2) by auto
qed simp

section \<open>Properties\<close>

lemma DummyPulser_inv: "dummy_inv (DummyPulser t0 ticks)"
  by (simp add: dummy_inv_def dummy_shape_def cmds_ok_def DummyPulser_def max_cmd_count_def)

definition unit_times :: pulse_times where
  "unit_times = \<lparr>PT_Min = 1, PT_Min2 = 1, PT_Clock = 5, PT_DAC = 45, PT_Clear = 5, PT_DDSFreq = 50,
     PT_DDSAmp = 50, PT_DDSPhase = 50, PT_DDSReset = 50, PT_LoopBack = 5\<rparr>"

text \<open>
  C4: the software pulser implements the abstract machine. Any list of valid instructions is
  accepted, whatever is queued already and however full the queue is, and what the outputs and
  results will be once the queue has run is what the abstract machine computes from the arguments
  of the calls, in their order. The override masks are untouched.
\<close>

theorem dummy_refines_spec:
  assumes "dummy_inv d" and "\<forall>c \<in> set cs. valid_pulse c"
  shows "\<exists>d'. foldR (dummy_pulse pt) cs d = Inr d' \<and> dummy_inv d' \<and>
     eventual d' = fold spec_pulse cs (eventual d) \<and>
     dummy_lo d' = dummy_lo d \<and> dummy_hi d' = dummy_hi d"
proof -
  have "\<exists>p'. foldR (p_pulse (dummy_ops pt)) cs d = Inr p' \<and> dummy_inv p' \<and>
      dummy_lo p' = dummy_lo d \<and> dummy_hi p' = dummy_hi d"
    by (rule dummy.pulses_total [OF assms])
  then show ?thesis
    using pulses_spec [OF assms, of pt] by (auto simp: dummy_ops_def)
qed

theorem dummy_refines_spec_witness:
  "\<exists>d'. foldR (dummy_pulse unit_times) [P_ttl True 5 100 3, P_clock True 9] (DummyPulser 0 (\<lambda>_. 1)) = Inr d' \<and>
     v_ttl (eventual d') ! 3 = 5 \<and> v_clock (eventual d') = 9"
proof -
  have "\<forall>c \<in> set [P_ttl True 5 100 3, P_clock True 9]. valid_pulse c"
    by (simp add: bank_simps max_wait_t_eq)
  from dummy_refines_spec [OF DummyPulser_inv this, of unit_times 0 "\<lambda>_. 1"] show ?thesis
    by (auto simp: eventual_def view_def DummyPulser_def bank_simps)
qed

text \<open>
  C12: the queue is always run to its end. Unless the pulser is held, as many polls as there are
  commands queued are enough, whatever the clock reads, and then the outputs are the ones the
  abstract machine predicts.
\<close>

theorem dummy_queue_drains:
  assumes "dummy_inv d" and "\<not> held d" and "length (dm_cmds d) \<le> n"
  shows "\<exists>d'. foldR (\<lambda>_. forward_time pt False) [0 ..< n] d = Inr d' \<and> dm_cmds d' = [] \<and>
     view d' = eventual d"
  by (rule polls_drain [OF assms])

theorem dummy_queue_drains_witness:
  "\<exists>d'. foldR (\<lambda>_. forward_time unit_times False) [0 ..< 1]
       ((DummyPulser 0 (\<lambda>_. 1))\<lparr>dm_cmds := [pulse_cmd 0 (P_clock True 9)], dm_cmds_empty := False\<rparr>) = Inr d' \<and>
     dm_cmds d' = [] \<and> dm_clock d' = 9"
proof -
  let ?d = "(DummyPulser 0 (\<lambda>_. 1))\<lparr>dm_cmds := [pulse_cmd 0 (P_clock True 9)], dm_cmds_empty := False\<rparr>"
  have inv: "dummy_inv ?d" "\<not> held ?d" "length (dm_cmds ?d) \<le> 1"
    by (simp_all add: dummy_inv_def dummy_shape_def cmds_ok_def DummyPulser_def max_cmd_count_def
        held_def cmd_ok_def Cmd.make_def)
  have "v_clock (eventual ?d) = 9"
    by (simp add: eventual_def view_def DummyPulser_def spec_cmd_def Cmd.make_def)
  moreover obtain d' where "foldR (\<lambda>_. forward_time unit_times False) [0 ..< 1] ?d = Inr d'" "dm_cmds d' = []"
    "view d' = eventual ?d"
    using dummy_queue_drains [OF inv, of unit_times] by blast
  moreover have "dm_clock d' = v_clock (view d')"
    by (simp add: view_def)
  ultimately show ?thesis
    by auto
qed

text \<open>
  C13: commands that are queued in time run back to back. If every command was queued before the
  release time and the present is late enough, the queue runs to its end, the time of the last
  instruction is the release time plus the duration of all of them, and no timing error is raised.
\<close>

theorem on_time_commands_run_back_to_back:
  assumes "\<not> held d" and "dummy_shape d" and "\<forall>c \<in> set (dm_cmds d). cmd_ok c"
    and "\<forall>c \<in> set (dm_cmds d). cmd_t c \<le> dm_release_time d"
    and "dm_release_time d + cmds_ns pt (dm_cmds d) \<le> cur_t"
  shows "\<exists>r d'. run_past_cmds pt cur_t d = Inr (r, d') \<and> dm_cmds d' = [] \<and>
     dm_release_time d' = dm_release_time d + cmds_ns pt (dm_cmds d) \<and>
     (dm_timing_ok d \<longrightarrow> dm_timing_ok d')"
  using run_past_loop_on_time [OF refl assms(2-5), of False] assms(1) by (auto simp: run_past_cmds_def)

theorem on_time_commands_run_back_to_back_witness:
  "\<exists>r d'. run_past_cmds unit_times 5000
       ((DummyPulser 0 (\<lambda>_. 1))\<lparr>dm_cmds := [pulse_cmd 0 (P_wait True 100), pulse_cmd 0 (P_clock True 9)]\<rparr>) = Inr (r, d') \<and>
     dm_release_time d' = 1050"
proof -
  let ?d = "(DummyPulser 0 (\<lambda>_. 1))\<lparr>dm_cmds := [pulse_cmd 0 (P_wait True 100), pulse_cmd 0 (P_clock True 9)]\<rparr>"
  have ns: "cmds_ns unit_times (dm_cmds ?d) = 1050"
    by (simp add: cmds_ns_def cmd_steps_def Cmd.make_def unit_times_def)
  have pre: "\<not> held ?d" "dummy_shape ?d" "\<forall>c \<in> set (dm_cmds ?d). cmd_ok c"
    "\<forall>c \<in> set (dm_cmds ?d). cmd_t c \<le> dm_release_time ?d" "dm_release_time ?d = 0"
    by (simp_all add: DummyPulser_def held_def dummy_shape_def cmd_ok_def Cmd.make_def)
  have "dm_release_time ?d + cmds_ns unit_times (dm_cmds ?d) \<le> 5000"
    using pre(5) ns by simp
  from on_time_commands_run_back_to_back [OF pre(1-4) this] show ?thesis
    using pre(5) ns by auto
qed

text \<open>
  C14: a command that comes too late while timing is checked is reported: after the queue has
  been run past it the timing flag is false, unless a command clears it.
\<close>

theorem late_command_detected:
  assumes "run_past_cmds pt cur_t d = Inr (r, d')" and "\<not> held d" and "dm_cmds d = c # cs"
    and "dummy_shape d" and "\<forall>x \<in> set (c # cs). cmd_ok x \<and> cmd_op x \<noteq> OP_ClearErr"
    and "dm_timing_check d" and "cmd_t c > dm_release_time d"
  shows "\<not> dm_timing_ok d'"
  by (rule run_past_loop_detects [OF _ assms(4-7)]) (use assms(1-3) in \<open>simp add: run_past_cmds_def\<close>)

theorem late_command_detected_witness:
  "\<exists>r d'. run_past_cmds unit_times 5000
       ((DummyPulser 0 (\<lambda>_. 1))\<lparr>dm_cmds := [pulse_cmd 7 (P_wait True 100)], dm_timing_check := True\<rparr>) = Inr (r, d') \<and>
     \<not> dm_timing_ok d'"
proof -
  let ?d = "(DummyPulser 0 (\<lambda>_. 1))\<lparr>dm_cmds := [pulse_cmd 7 (P_wait True 100)], dm_timing_check := True\<rparr>"
  obtain r d' where r: "run_past_cmds unit_times 5000 ?d = Inr (r, d')"
    by (simp add: run_past_cmds_def held_def DummyPulser_def exec_cmd_def dummy_run_cmd_def Cmd.make_def)
  from late_command_detected [OF r, of "pulse_cmd 7 (P_wait True 100)" "[]"] r show ?thesis
    by (auto simp: held_def DummyPulser_def dummy_shape_def cmd_ok_def Cmd.make_def)
qed



text \<open>
  Moving a \<^verbatim>\<open>DummyPulser\<close> loses two registers: the new object has the DMA mask of every bank and
  the loop back register at zero, whatever they were.
\<close>

lemma move_drops_registers:
  "dm_dma_ttl_mask (dummy_move d) = replicate NUM_TTL_BANKS 0 \<and> dm_loopback_reg (dummy_move d) = 0 \<and>
   dm_ttl (dummy_move d) = dm_ttl d \<and> dm_ttl_hi (dummy_move d) = dm_ttl_hi d \<and>
   dm_ttl_lo (dummy_move d) = dm_ttl_lo d \<and> dm_cmds (dummy_move d) = dm_cmds d"
  by (simp add: dummy_move_def DummyPulser_def)

end
