(* ===== verification/Pulser.thy ===== *)
theory Pulser
  imports Pulser_Iface
begin

unbundle bit_operations_syntax

text \<open>
  \<^verbatim>\<open>lib/pulser.h\<close> and \<^verbatim>\<open>lib/pulser.cpp\<close>: the register level pulser. The FPGA behind the
  registers is hardware, so it is a parameter: a state \<open>'h\<close> and the two volatile accesses
  (\<^verbatim>\<open>Mem::read\<close>, \<^verbatim>\<open>Mem::write\<close>), each of which may change that state. Every member is the
  sequence of register accesses the C++ member makes, in its order.
\<close>

section \<open>Registers and control words\<close>

record 'h hw_ops =
  hw_read :: "u32 \<Rightarrow> 'h \<Rightarrow> u32 \<times> 'h"
  hw_write :: "u32 \<Rightarrow> u32 \<Rightarrow> 'h \<Rightarrow> 'h"

definition Bits_TimeOK :: u32 where "Bits_TimeOK = 0x1"
definition Bits_Finished :: u32 where "Bits_Finished = 0x4"
definition Bits_NumRes :: u32 where "Bits_NumRes = 0x1f0"
definition Bits_Hold :: u32 where "Bits_Hold = 0x80"
definition Bits_Init :: u32 where "Bits_Init = 0x100"
definition Bits_TTL :: u32 where "Bits_TTL = 0x00000000"
definition Bits_DDS :: u32 where "Bits_DDS = 0x10000000"
definition Bits_Wait :: u32 where "Bits_Wait = 0x20000000"
definition Bits_ClearErr :: u32 where "Bits_ClearErr = 0x30000000"
definition Bits_LoopBack :: u32 where "Bits_LoopBack = 0x40000000"
definition Bits_ClockOut :: u32 where "Bits_ClockOut = 0x50000000"
definition Bits_SPI :: u32 where "Bits_SPI = 0x60000000"
definition Bits_TimeCheck :: u32 where "Bits_TimeCheck = 0x8000000"

lemmas bits_defs =
  Bits_TimeOK_def Bits_Finished_def Bits_NumRes_def Bits_Hold_def
  Bits_Init_def Bits_TTL_def Bits_DDS_def Bits_Wait_def
  Bits_ClearErr_def Bits_LoopBack_def Bits_ClockOut_def Bits_SPI_def
  Bits_TimeCheck_def

definition pulser_pop_result :: "'h hw_ops \<Rightarrow> 'h \<Rightarrow> u32 \<times> 'h" where
  "pulser_pop_result hw h = hw_read hw 31 h"

definition pulser_num_results :: "'h hw_ops \<Rightarrow> 'h \<Rightarrow> u32 \<times> 'h" where
  "pulser_num_results hw h =
     (let (v, h') = hw_read hw 2 h in (drop_bit 4 (v AND Bits_NumRes), h'))"

definition pulser_pulse :: "'h hw_ops \<Rightarrow> bool \<Rightarrow> u32 \<Rightarrow> u32 \<Rightarrow> 'h \<Rightarrow> 'h" where
  "pulser_pulse hw checked ctrl op h =
     (let ctrl = (if checked then ctrl OR Bits_TimeCheck else ctrl)
      in hw_write hw 31 ctrl (hw_write hw 31 op h))"

definition pulser_spi :: "'h hw_ops \<Rightarrow> bool \<Rightarrow> u8 \<Rightarrow> u8 \<Rightarrow> u32 \<Rightarrow> 'h \<Rightarrow> 'h" where
  "pulser_spi hw checked clk_div spi_id data h =
     (let opcode = push_bit 11 (ucast (spi_id AND 3)) OR ucast clk_div
      in pulser_pulse hw checked (opcode OR Bits_SPI) data h)"

definition pulser_dds :: "'h hw_ops \<Rightarrow> bool \<Rightarrow> u32 \<Rightarrow> u32 \<Rightarrow> 'h \<Rightarrow> 'h" where
  "pulser_dds hw checked ctrl op h = pulser_pulse hw checked (Bits_DDS OR ctrl) op h"

definition chn_word :: "int \<Rightarrow> u32" where
  "chn_word i = push_bit 4 (word_of_int i)"

definition dds_set_2bytes :: "'h hw_ops \<Rightarrow> bool \<Rightarrow> int \<Rightarrow> u32 \<Rightarrow> u32 \<Rightarrow> 'h \<Rightarrow> 'h" where
  "dds_set_2bytes hw checked i addr data h =
     pulser_dds hw checked (0x2 OR chn_word i OR push_bit 9 ((addr + 1) AND 0x7f)) (data AND 0xffff) h"

definition dds_set_4bytes :: "'h hw_ops \<Rightarrow> bool \<Rightarrow> int \<Rightarrow> u32 \<Rightarrow> u32 \<Rightarrow> 'h \<Rightarrow> 'h" where
  "dds_set_4bytes hw checked i addr data h =
     pulser_dds hw checked (0xf OR chn_word i OR push_bit 9 ((addr + 1) AND 0x7f)) data h"

definition dds_get_2bytes :: "'h hw_ops \<Rightarrow> bool \<Rightarrow> int \<Rightarrow> u32 \<Rightarrow> 'h \<Rightarrow> 'h" where
  "dds_get_2bytes hw checked i addr h =
     pulser_dds hw checked (0x3 OR chn_word i OR push_bit 9 (addr + 1)) 0 h"

definition dds_get_4bytes :: "'h hw_ops \<Rightarrow> bool \<Rightarrow> int \<Rightarrow> u32 \<Rightarrow> 'h \<Rightarrow> 'h" where
  "dds_get_4bytes hw checked i addr h =
     pulser_dds hw checked (0xe OR chn_word i OR push_bit 9 (addr + 1)) 0 h"

section \<open>Reads\<close>

text \<open>Register numbers of a bank's masks.\<close>

definition himask_reg :: "int \<Rightarrow> u32" where
  "himask_reg bank = (if bank = 0 then 0 else word_of_int ((bank - 1) * 2 + 0x10))"

definition lomask_reg :: "int \<Rightarrow> u32" where
  "lomask_reg bank = (if bank = 0 then 1 else word_of_int ((bank - 1) * 2 + 0x11))"

definition bank_read :: "'h hw_ops \<Rightarrow> int \<Rightarrow> u32 \<Rightarrow> 'h \<Rightarrow> (u32 \<times> 'h) result" where
  "bank_read hw bank reg h = bindR (assertR (bank_ok bank)) (\<lambda>_. Inr (hw_read hw reg h))"

definition pulser_ttl_himask :: "'h hw_ops \<Rightarrow> int \<Rightarrow> 'h \<Rightarrow> (u32 \<times> 'h) result" where
  "pulser_ttl_himask hw bank h = bank_read hw bank (himask_reg bank) h"

definition pulser_ttl_lomask :: "'h hw_ops \<Rightarrow> int \<Rightarrow> 'h \<Rightarrow> (u32 \<times> 'h) result" where
  "pulser_ttl_lomask hw bank h = bank_read hw bank (lomask_reg bank) h"

definition pulser_timing_status :: "'h hw_ops \<Rightarrow> 'h \<Rightarrow> u32 \<times> 'h" where
  "pulser_timing_status hw h = hw_read hw 2 h"

definition pulser_timing_ok :: "'h hw_ops \<Rightarrow> 'h \<Rightarrow> (bool \<times> 'h) result" where
  "pulser_timing_ok hw h = (let (v, h') = hw_read hw 2 h in Inr (v AND Bits_TimeOK = 0, h'))"

definition pulser_is_finished :: "'h hw_ops \<Rightarrow> 'h \<Rightarrow> (bool \<times> 'h) result" where
  "pulser_is_finished hw h = (let (v, h') = hw_read hw 2 h in Inr (v AND Bits_Finished \<noteq> 0, h'))"

definition pulser_cur_ttl :: "'h hw_ops \<Rightarrow> int \<Rightarrow> 'h \<Rightarrow> (u32 \<times> 'h) result" where
  "pulser_cur_ttl hw bank h =
     bank_read hw bank (if bank = 0 then 4 else word_of_int ((bank - 1) + 0x40)) h"

definition pulser_cur_clock :: "'h hw_ops \<Rightarrow> 'h \<Rightarrow> (u8 \<times> 'h) result" where
  "pulser_cur_clock hw h = (let (v, h') = hw_read hw 5 h in Inr (ucast v, h'))"

definition pulser_ttl_in :: "'h hw_ops \<Rightarrow> int \<Rightarrow> 'h \<Rightarrow> (u32 \<times> 'h) result" where
  "pulser_ttl_in hw bank h = bank_read hw bank (word_of_int (0x60 + bank)) h"

definition pulser_dma_ttl_mask :: "'h hw_ops \<Rightarrow> int \<Rightarrow> 'h \<Rightarrow> (u32 \<times> 'h) result" where
  "pulser_dma_ttl_mask hw bank h = bank_read hw bank (word_of_int (0x48 + bank)) h"

definition pulser_dma_status :: "'h hw_ops \<Rightarrow> 'h \<Rightarrow> u32 \<times> 'h" where
  "pulser_dma_status hw h = hw_read hw 0x58 h"

definition pulser_dma_control :: "'h hw_ops \<Rightarrow> 'h \<Rightarrow> u32 \<times> 'h" where
  "pulser_dma_control hw h = hw_read hw 0x59 h"

section \<open>Writes\<close>

definition bank_write :: "'h hw_ops \<Rightarrow> int \<Rightarrow> u32 \<Rightarrow> u32 \<Rightarrow> 'h \<Rightarrow> 'h result" where
  "bank_write hw bank reg v h = bindR (assertR (bank_ok bank)) (\<lambda>_. Inr (hw_write hw reg v h))"

definition pulser_set_ttl_himask :: "'h hw_ops \<Rightarrow> u32 \<Rightarrow> int \<Rightarrow> 'h \<Rightarrow> 'h result" where
  "pulser_set_ttl_himask hw high_mask bank h = bank_write hw bank (himask_reg bank) high_mask h"

definition pulser_set_ttl_lomask :: "'h hw_ops \<Rightarrow> u32 \<Rightarrow> int \<Rightarrow> 'h \<Rightarrow> 'h result" where
  "pulser_set_ttl_lomask hw low_mask bank h = bank_write hw bank (lomask_reg bank) low_mask h"

definition pulser_set_ttl :: "'h hw_ops \<Rightarrow> int \<Rightarrow> u8 \<Rightarrow> u8 \<Rightarrow> 'h \<Rightarrow> 'h" where
  "pulser_set_ttl hw nbytes lo hi h =
     hw_write hw 4 (push_bit 16 (word_of_int nbytes) OR push_bit 8 (ucast lo) OR ucast hi) h"

definition pulser_set_clock :: "'h hw_ops \<Rightarrow> u8 \<Rightarrow> 'h \<Rightarrow> 'h" where
  "pulser_set_clock hw divider h = hw_write hw 5 (ucast divider) h"

definition pulser_release_hold :: "'h hw_ops \<Rightarrow> 'h \<Rightarrow> 'h result" where
  "pulser_release_hold hw h =
     (let (r3, h') = hw_read hw 3 h in Inr (hw_write hw 3 (r3 AND NOT Bits_Hold) h'))"

definition pulser_set_hold :: "'h hw_ops \<Rightarrow> 'h \<Rightarrow> 'h result" where
  "pulser_set_hold hw h =
     (let (r3, h') = hw_read hw 3 h in Inr (hw_write hw 3 (r3 OR Bits_Hold) h'))"

definition pulser_toggle_init :: "'h hw_ops \<Rightarrow> 'h \<Rightarrow> 'h result" where
  "pulser_toggle_init hw h =
     (let (r3, h') = hw_read hw 3 h
      in Inr (hw_write hw 3 (r3 AND NOT Bits_Init) (hw_write hw 3 (r3 OR Bits_Init) h')))"

definition pulser_set_dma_ttl_mask :: "'h hw_ops \<Rightarrow> int \<Rightarrow> u32 \<Rightarrow> 'h \<Rightarrow> 'h result" where
  "pulser_set_dma_ttl_mask hw bank v h = bank_write hw bank (word_of_int (0x48 + bank)) v h"

definition pulser_read_dds0 :: "'h hw_ops \<Rightarrow> u8 \<Rightarrow> u8 \<Rightarrow> 'h \<Rightarrow> u16 \<times> 'h" where
  "pulser_read_dds0 hw dds_id dds_addr h =
     (let (v, h') = hw_read hw 0x52 (hw_write hw 0x52 (ucast dds_addr OR push_bit 7 (ucast dds_id)) h)
      in (ucast v, h'))"

definition pulser_read_dds1 :: "'h hw_ops \<Rightarrow> u8 \<Rightarrow> u8 \<Rightarrow> 'h \<Rightarrow> u16 \<times> 'h" where
  "pulser_read_dds1 hw dds_id dds_addr h =
     (let (v, h') = hw_read hw 0x53 (hw_write hw 0x53 (ucast dds_addr OR push_bit 7 (ucast dds_id)) h)
      in (ucast v, h'))"

definition pulser_start_dma :: "'h hw_ops \<Rightarrow> u64 \<Rightarrow> u16 \<Rightarrow> bool \<Rightarrow> 'h \<Rightarrow> 'h" where
  "pulser_start_dma hw addr blocks first h =
     hw_write hw 0x58 (ucast addr OR push_bit 1 (ucast blocks) OR of_bool first) h"

definition pulser_set_dma_control :: "'h hw_ops \<Rightarrow> u32 \<Rightarrow> 'h \<Rightarrow> 'h" where
  "pulser_set_dma_control hw ctrl h = hw_write hw 0x59 ctrl h"

definition pulser_loopback_reg :: "'h hw_ops \<Rightarrow> 'h \<Rightarrow> u32 \<times> 'h" where
  "pulser_loopback_reg hw h = hw_read hw 0x1e h"

definition pulser_set_loopback_reg :: "'h hw_ops \<Rightarrow> u32 \<Rightarrow> 'h \<Rightarrow> 'h" where
  "pulser_set_loopback_reg hw v h = hw_write hw 0x1e v h"

definition pulser_hw_version :: "'h hw_ops \<Rightarrow> 'h \<Rightarrow> (pulser_version_t \<times> 'h) result" where
  "pulser_hw_version hw h =
     (let (a, h1) = hw_read hw 6 h; (b, h2) = hw_read hw 7 h1
      in Inr (\<lparr>major = a, minor = b\<rparr>, h2))"

definition pulser_set_dds_timing1 ::
  "'h hw_ops \<Rightarrow> u32 \<Rightarrow> u32 \<Rightarrow> u32 \<Rightarrow> u32 \<Rightarrow> u32 \<Rightarrow> 'h \<Rightarrow> 'h result" where
  "pulser_set_dds_timing1 hw adsu wrlow adhd fuddl fudhd h =
     Inr (hw_write hw 0x50 (adsu OR push_bit 6 wrlow OR push_bit 12 adhd OR push_bit 18 fuddl
       OR push_bit 24 fudhd) h)"

definition pulser_get_dds_timing1 :: "'h hw_ops \<Rightarrow> 'h \<Rightarrow> (u8 list \<times> 'h) result" where
  "pulser_get_dds_timing1 hw h =
     (let (v, h') = hw_read hw 0x50 h
      in Inr ([ucast (v AND 0x3f), ucast (drop_bit 6 v AND 0x3f), ucast (drop_bit 12 v AND 0x3f),
               ucast (drop_bit 18 v AND 0x3f), ucast (drop_bit 24 v AND 0x3f)], h'))"

section \<open>Instructions\<close>

definition pulser_ttl :: "'h hw_ops \<Rightarrow> bool \<Rightarrow> u32 \<Rightarrow> u32 \<Rightarrow> int \<Rightarrow> 'h \<Rightarrow> 'h result" where
  "pulser_ttl hw checked ttl t bank h =
     bindR (assertR (t \<le> max_wait_t)) (\<lambda>_.
     bindR (assertR (bank_ok bank)) (\<lambda>_.
     Inr (pulser_pulse hw checked (Bits_TTL OR t OR push_bit 24 (word_of_int bank)) ttl h)))"

definition pulser_clock :: "'h hw_ops \<Rightarrow> bool \<Rightarrow> u8 \<Rightarrow> 'h \<Rightarrow> 'h" where
  "pulser_clock hw checked divider h =
     pulser_pulse hw checked Bits_ClockOut (ucast divider AND 0xff) h"

definition pulser_dac :: "'h hw_ops \<Rightarrow> bool \<Rightarrow> u8 \<Rightarrow> u16 \<Rightarrow> 'h \<Rightarrow> 'h" where
  "pulser_dac hw checked dac V h =
     pulser_spi hw checked 0 0 (push_bit 16 (ucast (dac AND 3)) OR ucast V) h"

definition pulser_wait :: "'h hw_ops \<Rightarrow> bool \<Rightarrow> u32 \<Rightarrow> 'h \<Rightarrow> 'h result" where
  "pulser_wait hw checked t h =
     bindR (assertR (t \<le> max_wait_t)) (\<lambda>_. Inr (pulser_pulse hw checked (Bits_Wait OR t) 0 h))"

definition pulser_wait_trigger ::
  "'h hw_ops \<Rightarrow> bool \<Rightarrow> u8 \<Rightarrow> bool \<Rightarrow> u32 \<Rightarrow> 'h \<Rightarrow> 'h result" where
  "pulser_wait_trigger hw checked chn trig_raise timeout h =
     bindR (assertR (timeout \<le> max_wait_t)) (\<lambda>_.
       let trig_type = (if trig_raise then 1 else 2)
       in Inr (pulser_pulse hw checked (Bits_Wait OR timeout)
            (push_bit 20 (ucast chn) OR push_bit 28 trig_type) h))"

definition pulser_clear_error :: "'h hw_ops \<Rightarrow> 'h \<Rightarrow> 'h" where
  "pulser_clear_error hw h = pulser_pulse hw False Bits_ClearErr 0 h"

definition pulser_dds_set_freq :: "'h hw_ops \<Rightarrow> bool \<Rightarrow> int \<Rightarrow> u32 \<Rightarrow> 'h \<Rightarrow> 'h" where
  "pulser_dds_set_freq hw checked i ftw h = pulser_dds hw checked (chn_word i) ftw h"

definition pulser_dds_set_amp :: "'h hw_ops \<Rightarrow> bool \<Rightarrow> int \<Rightarrow> u16 \<Rightarrow> 'h \<Rightarrow> 'h" where
  "pulser_dds_set_amp hw checked i amp h = dds_set_2bytes hw checked i 0x32 (ucast amp) h"

definition pulser_dds_set_phase :: "'h hw_ops \<Rightarrow> bool \<Rightarrow> int \<Rightarrow> u16 \<Rightarrow> 'h \<Rightarrow> 'h" where
  "pulser_dds_set_phase hw checked i phase h = dds_set_2bytes hw checked i 0x30 (ucast phase) h"

definition pulser_dds_reset :: "'h hw_ops \<Rightarrow> bool \<Rightarrow> int \<Rightarrow> 'h \<Rightarrow> 'h" where
  "pulser_dds_reset hw checked i h = pulser_dds hw checked (0x4 OR chn_word i) 0 h"

definition pulser_loopback :: "'h hw_ops \<Rightarrow> bool \<Rightarrow> u32 \<Rightarrow> 'h \<Rightarrow> 'h" where
  "pulser_loopback hw checked data h = pulser_pulse hw checked Bits_LoopBack data h"

definition pulser_dds_get_phase :: "'h hw_ops \<Rightarrow> bool \<Rightarrow> int \<Rightarrow> 'h \<Rightarrow> 'h" where
  "pulser_dds_get_phase hw checked i h = dds_get_2bytes hw checked i 0x30 h"

definition pulser_dds_get_amp :: "'h hw_ops \<Rightarrow> bool \<Rightarrow> int \<Rightarrow> 'h \<Rightarrow> 'h" where
  "pulser_dds_get_amp hw checked i h = dds_get_2bytes hw checked i 0x32 h"

definition pulser_dds_get_freq :: "'h hw_ops \<Rightarrow> bool \<Rightarrow> int \<Rightarrow> 'h \<Rightarrow> 'h" where
  "pulser_dds_get_freq hw checked i h = dds_get_4bytes hw checked i 0x2c h"

fun pulser_issue :: "'h hw_ops \<Rightarrow> pulse \<Rightarrow> 'h \<Rightarrow> 'h result" where
  "pulser_issue hw (P_ttl c v t bank) h = pulser_ttl hw c v t bank h"
| "pulser_issue hw (P_clock c divider) h = Inr (pulser_clock hw c divider h)"
| "pulser_issue hw (P_dac c dac V) h = Inr (pulser_dac hw c dac V h)"
| "pulser_issue hw (P_wait c t) h = pulser_wait hw c t h"
| "pulser_issue hw (P_wait_trigger c chn raise t) h = pulser_wait_trigger hw c chn raise t h"
| "pulser_issue hw P_clear_error h = Inr (pulser_clear_error hw h)"
| "pulser_issue hw (P_dds_set_freq c i v) h = Inr (pulser_dds_set_freq hw c i v h)"
| "pulser_issue hw (P_dds_set_amp c i v) h = Inr (pulser_dds_set_amp hw c i v h)"
| "pulser_issue hw (P_dds_set_phase c i v) h = Inr (pulser_dds_set_phase hw c i v h)"
| "pulser_issue hw (P_dds_reset c i) h = Inr (pulser_dds_reset hw c i h)"
| "pulser_issue hw (P_loopback c v) h = Inr (pulser_loopback hw c v h)"
| "pulser_issue hw (P_dds_get_phase c i) h = Inr (pulser_dds_get_phase hw c i h)"
| "pulser_issue hw (P_dds_get_amp c i) h = Inr (pulser_dds_get_amp hw c i h)"
| "pulser_issue hw (P_dds_get_freq c i) h = Inr (pulser_dds_get_freq hw c i h)"

section \<open>Results and DDS set up\<close>

definition pulser_try_get_result :: "'h hw_ops \<Rightarrow> 'h \<Rightarrow> (u32 option \<times> 'h) result" where
  "pulser_try_get_result hw h =
     (let (n, h1) = pulser_num_results hw h
      in if n = 0 then Inr (None, h1)
         else let (v, h2) = pulser_pop_result hw h1 in Inr (Some v, h2))"

text \<open>\<^verbatim>\<open>get_result\<close> polls without bound; \<open>fuel\<close> is the number of polls.\<close>

fun pulser_get_result :: "'h hw_ops \<Rightarrow> nat \<Rightarrow> 'h \<Rightarrow> (u32 \<times> 'h) result" where
  "pulser_get_result hw 0 h = Inl OutOfFuel"
| "pulser_get_result hw (Suc fuel) h =
     bindR (pulser_try_get_result hw h) (\<lambda>(r, h').
       case r of Some v \<Rightarrow> Inr (v, h') | None \<Rightarrow> pulser_get_result hw fuel h')"

definition magic_bytes :: u32 where
  "magic_bytes = 0xf00f0000"

text \<open>The even addresses \<^verbatim>\<open>0x10 .. 0x6a\<close> of the clearing loop.\<close>

definition zero_addrs :: "u32 list" where
  "zero_addrs = map (\<lambda>k. of_nat (0x10 + 2 * k)) [0 ..< 46]"

definition pulser_init_dds :: "'h hw_ops \<Rightarrow> int \<Rightarrow> 'h \<Rightarrow> 'h" where
  "pulser_init_dds hw chn h0 =
     (let h1 = pulser_dds_reset hw False chn h0;
          h2 = dds_set_2bytes hw False chn 0x0e 0x0105 h1;
          h3 = dds_set_2bytes hw False chn 0x0e 0x0405 h2;
          h4 = dds_set_2bytes hw False chn 0x04 0x0100 h3;
          h5 = dds_set_2bytes hw False chn 0x06 0x0080 h4;
          h6 = dds_set_2bytes hw False chn 0x0 0x0308 h5;
          h7 = fold (\<lambda>addr. dds_set_2bytes hw False chn addr 0x0) zero_addrs h6
      in dds_set_4bytes hw False chn 0x64 magic_bytes h7)"

definition pulser_dds_exists :: "'h hw_ops \<Rightarrow> nat \<Rightarrow> int \<Rightarrow> 'h \<Rightarrow> (bool \<times> 'h) result" where
  "pulser_dds_exists hw fuel chn h0 =
     (let h1 = dds_set_2bytes hw False chn 0x68 0 h0;
          h2 = dds_get_2bytes hw False chn 0x68 h1;
          h3 = dds_set_2bytes hw False chn 0x68 1 h2;
          h4 = dds_get_2bytes hw False chn 0x68 h3
      in bindR (pulser_get_result hw fuel h4) (\<lambda>(res0, h5).
         bindR (pulser_get_result hw fuel h5) (\<lambda>(res1, h6).
           Inr (res0 = 0 \<and> res1 = 1, h6))))"

definition pulser_check_dds :: "'h hw_ops \<Rightarrow> nat \<Rightarrow> int \<Rightarrow> bool \<Rightarrow> 'h \<Rightarrow> (bool \<times> 'h) result" where
  "pulser_check_dds hw fuel chn force h =
     bindR (if \<not> force
            then bindR (pulser_get_result hw fuel (dds_get_4bytes hw False chn 0x64 h))
                   (\<lambda>(v, h'). Inr (v = magic_bytes, h'))
            else Inr (False, h)) (\<lambda>(is_set, h').
       if is_set then Inr (False, h') else Inr (True, pulser_init_dds hw chn h'))"

text \<open>
  \<^verbatim>\<open>dump_dds\<close> prints the non-zero words. \<^verbatim>\<open>std::hex\<close> stays in force on the stream, so the
  channel number is decimal on the first such line only; \<open>is_hex\<close> is that stream flag.
\<close>

fun hex_string :: "nat \<Rightarrow> string" where
  "hex_string n =
     (let digit = (\<lambda>d. char_of (if d < 10 then 48 + d else 87 + d))
      in if n < 16 then [digit n] else hex_string (n div 16) @ [digit (n mod 16)])"

declare hex_string.simps [simp del]

fun dump_loop ::
  "'h hw_ops \<Rightarrow> nat \<Rightarrow> int \<Rightarrow> bool \<Rightarrow> nat list \<Rightarrow> string \<Rightarrow> 'h \<Rightarrow> (string \<times> 'h) result" where
  "dump_loop hw fuel chn is_hex [] out h = Inr (out, h)"
| "dump_loop hw fuel chn is_hex (addr # addrs) out h =
     bindR (pulser_get_result hw fuel (dds_get_4bytes hw False chn (of_nat addr) h)) (\<lambda>(u, h').
       if u = 0 then dump_loop hw fuel chn is_hex addrs out h'
       else dump_loop hw fuel chn True addrs
         (out @ ''AD9914 board = ''
            @ (if is_hex then hex_string (unat (word_of_int chn :: u32)) else dec_string (nat chn))
            @ '', addr = 0x'' @ hex_string (addr + 3) @ ''...'' @ hex_string addr
            @ '' = 0x'' @ hex_string (unat u) @ [CHR 0x0A]) h')"

definition pulser_dump_dds :: "'h hw_ops \<Rightarrow> nat \<Rightarrow> int \<Rightarrow> 'h \<Rightarrow> (string \<times> 'h) result" where
  "pulser_dump_dds hw fuel chn h =
     (let line = replicate 31 (CHR ''*'') @ [CHR 0x0A]
      in bindR (dump_loop hw fuel chn False (map (\<lambda>k. 4 * k) [0 ..< 32]) line h) (\<lambda>(out, h').
           Inr (out @ line, h')))"

fun clear_results :: "'h hw_ops \<Rightarrow> nat \<Rightarrow> 'h \<Rightarrow> 'h result" where
  "clear_results hw fuel h =
     (let (n, h1) = pulser_num_results hw h
      in if n = 0 then Inr h1
         else case fuel of
           0 \<Rightarrow> Inl OutOfFuel
         | Suc k \<Rightarrow> clear_results hw k (snd (pulser_pop_result hw h1)))"

declare clear_results.simps [simp del]

definition req_version :: pulser_version_t where
  "req_version = \<lparr>major = 5, minor = 2\<rparr>"

definition check_hw_version :: "'h hw_ops \<Rightarrow> 'h \<Rightarrow> 'h result" where
  "check_hw_version hw h =
     bindR (pulser_hw_version hw h) (\<lambda>(hw_ver, h').
       if \<not> check_compatible hw_ver req_version
       then Inl (RuntimeError (''Incompatible hardware version: require ''
              @ to_string req_version @ '', got '' @ to_string hw_ver))
       else Inr h')"

text \<open>The constructor.\<close>

definition Pulser_init :: "'h hw_ops \<Rightarrow> nat \<Rightarrow> 'h \<Rightarrow> 'h result" where
  "Pulser_init hw fuel h = bindR (clear_results hw fuel h) (check_hw_version hw)"

definition pulser_ops :: "'h hw_ops \<Rightarrow> nat \<Rightarrow> 'h pulser_ops" where
  "pulser_ops hw fuel = \<lparr>
     p_pulse = pulser_issue hw,
     p_ttl_himask = pulser_ttl_himask hw,
     p_ttl_lomask = pulser_ttl_lomask hw,
     p_set_ttl_himask = pulser_set_ttl_himask hw,
     p_set_ttl_lomask = pulser_set_ttl_lomask hw,
     p_cur_ttl = pulser_cur_ttl hw,
     p_cur_clock = pulser_cur_clock hw,
     p_timing_ok = pulser_timing_ok hw,
     p_is_finished = pulser_is_finished hw,
     p_release_hold = pulser_release_hold hw,
     p_set_hold = pulser_set_hold hw,
     p_toggle_init = pulser_toggle_init hw,
     p_try_get_result = pulser_try_get_result hw,
     p_check_dds = pulser_check_dds hw fuel,
     p_dds_exists = pulser_dds_exists hw fuel,
     p_dump_dds = pulser_dump_dds hw fuel,
     p_hw_version = pulser_hw_version hw,
     p_set_dds_timing1 = pulser_set_dds_timing1 hw,
     p_get_dds_timing1 = pulser_get_dds_timing1 hw\<rparr>"

section \<open>The instruction encoding\<close>

text \<open>
  The field layout of an instruction pair, written from the receiving side: bits 28 to 31 of the
  control word select the unit, bit 27 is the time check flag, and the rest belongs to the unit.
\<close>

definition field :: "nat \<Rightarrow> nat \<Rightarrow> u32 \<Rightarrow> u32" where
  "field pos n w = take_bit n (drop_bit pos w)"

definition fpga_dds :: "u32 \<Rightarrow> u32 \<Rightarrow> pulse option" where
  "fpga_dds ctrl op =
     (let c = bit ctrl 27; i = uint (field 4 5 ctrl); fn = field 0 4 ctrl; addr = field 9 7 ctrl
      in if fn = 0 then Some (P_dds_set_freq c i op)
         else if fn = 2 \<and> addr = 0x33 then Some (P_dds_set_amp c i (ucast op))
         else if fn = 2 \<and> addr = 0x31 then Some (P_dds_set_phase c i (ucast op))
         else if fn = 3 \<and> addr = 0x33 then Some (P_dds_get_amp c i)
         else if fn = 3 \<and> addr = 0x31 then Some (P_dds_get_phase c i)
         else if fn = 4 then Some (P_dds_reset c i)
         else if fn = 0xe \<and> addr = 0x2d then Some (P_dds_get_freq c i)
         else None)"

definition fpga_decode :: "u32 \<Rightarrow> u32 \<Rightarrow> pulse option" where
  "fpga_decode ctrl op =
     (let c = bit ctrl 27; u = field 28 4 ctrl; t = field 0 24 ctrl
      in if u = 0 then Some (P_ttl c op t (uint (field 24 3 ctrl)))
         else if u = 1 then fpga_dds ctrl op
         else if u = 2 then
           (if field 28 4 op = 0 then Some (P_wait c t)
            else Some (P_wait_trigger c (ucast (field 20 8 op)) (field 28 4 op = 1) t))
         else if u = 3 then Some P_clear_error
         else if u = 4 then Some (P_loopback c op)
         else if u = 5 then Some (P_clock c (ucast op))
         else if u = 6 then Some (P_dac c (ucast (field 16 2 op)) (ucast op))
         else None)"

text \<open>The arguments an instruction keeps: the DAC number is cut to two bits.\<close>

fun encodable :: "pulse \<Rightarrow> bool" where
  "encodable (P_dac c dac V) \<longleftrightarrow> dac < 4"
| "encodable _ \<longleftrightarrow> True"

lemma field_or [simp]: "field p n (a OR b) = (field p n a OR field p n b)"
  by (simp add: field_def)

lemma field_numeral [simp]:
  "field p n (numeral k) = take_bit n (drop_bit p (numeral k))"
  "field p n 0 = 0"
  by (simp_all add: field_def)

lemma chn_cases:
  assumes "chn_ok i"
  obtains n where "i = int n" "n < 22"
  using assms by (metis bank_simps(4,2) nat_0_le of_nat_less_iff)

lemma chn_word_fields:
  assumes "chn_ok i"
  shows "field 28 4 (chn_word i) = 0" "field 0 4 (chn_word i) = 0" "field 9 7 (chn_word i) = 0"
    "uint (field 4 5 (chn_word i)) = i" "\<not> bit (chn_word i) 27"
proof -
  obtain n where n: "i = int n" "n < 22"
    using assms by (rule chn_cases)
  have u: "unat (of_nat n :: u32) = n" "unat (chn_word i) = 16 * n"
    using n by (simp_all add: chn_word_def push_bit_eq_mult unat_word_ariths unsigned_of_nat
        take_bit_nat_eq_self)
  have "take_bit 32 (16 * n) = 16 * n"
    using n(2) by (simp add: take_bit_nat_eq_self)
  then have "unat (field p k (chn_word i)) = take_bit k (drop_bit p (16 * n))" for p k
    by (simp add: field_def unsigned_take_bit_eq unsigned_drop_bit_eq u)
  then have f: "unat (field p k (chn_word i)) = 16 * n div 2 ^ p mod 2 ^ k" for p k
    by (simp add: take_bit_eq_mod drop_bit_eq_div)
  show "field 28 4 (chn_word i) = 0" "field 0 4 (chn_word i) = 0" "field 9 7 (chn_word i) = 0"
    using f [of 28 4] f [of 0 4] f [of 9 7] n(2) by (simp_all add: unat_eq_0)
  have "unat (field 4 5 (chn_word i)) = n"
    using f [of 4 5] n(2) by simp
  then show "uint (field 4 5 (chn_word i)) = i"
    using n(1) by (metis uint_nat)
  have "bit (chn_word i) 27 = bit (unat (chn_word i)) 27"
    by (simp add: bit_unsigned_iff)
  also have "\<dots> = odd (unat (chn_word i) div 2 ^ 27)"
    by (rule bit_iff_odd)
  finally have "bit (chn_word i) 27 = odd (unat (chn_word i) div 2 ^ 27)" .
  then show "\<not> bit (chn_word i) 27"
    using u(2) n(2) by simp
qed

lemma time_fields:
  assumes "t \<le> max_wait_t"
  shows "field 0 24 t = t" "field 28 4 t = 0" "field 24 3 t = 0" "\<not> bit t 27"
proof -
  note t = take_bit_max_wait_t [OF assms]
  show "field 0 24 t = t" "field 24 3 t = 0"
    by (simp_all add: field_def t)
  have "drop_bit 28 t = drop_bit 4 (drop_bit 24 t)"
    by (simp add: drop_bit_drop_bit)
  then show "field 28 4 t = 0"
    by (simp add: field_def t)
  have "bit t 27 = bit (drop_bit 24 t) 3"
    by (simp add: bit_simps)
  then show "\<not> bit t 27"
    by (simp add: t)
qed

text \<open>The two words an instruction writes to the command register, operand first.\<close>

fun pulse_words :: "pulse \<Rightarrow> u32 \<times> u32" where
  "pulse_words (P_ttl c v t bank) = (Bits_TTL OR t OR push_bit 24 (word_of_int bank), v)"
| "pulse_words (P_clock c divider) = (Bits_ClockOut, ucast divider AND 0xff)"
| "pulse_words (P_dac c dac V) = (Bits_SPI, push_bit 16 (ucast (dac AND 3)) OR ucast V)"
| "pulse_words (P_wait c t) = (Bits_Wait OR t, 0)"
| "pulse_words (P_wait_trigger c chn raise t) =
     (Bits_Wait OR t, push_bit 20 (ucast chn) OR push_bit 28 (if raise then 1 else 2))"
| "pulse_words P_clear_error = (Bits_ClearErr, 0)"
| "pulse_words (P_dds_set_freq c i v) = (Bits_DDS OR chn_word i, v)"
| "pulse_words (P_dds_set_amp c i v) = (Bits_DDS OR (2 OR chn_word i OR push_bit 9 0x33), ucast v)"
| "pulse_words (P_dds_set_phase c i v) = (Bits_DDS OR (2 OR chn_word i OR push_bit 9 0x31), ucast v)"
| "pulse_words (P_dds_reset c i) = (Bits_DDS OR (4 OR chn_word i), 0)"
| "pulse_words (P_loopback c v) = (Bits_LoopBack, v)"
| "pulse_words (P_dds_get_phase c i) = (Bits_DDS OR (3 OR chn_word i OR push_bit 9 0x31), 0)"
| "pulse_words (P_dds_get_amp c i) = (Bits_DDS OR (3 OR chn_word i OR push_bit 9 0x33), 0)"
| "pulse_words (P_dds_get_freq c i) = (Bits_DDS OR (0xe OR chn_word i OR push_bit 9 0x2d), 0)"

fun pulse_checked :: "pulse \<Rightarrow> bool" where
  "pulse_checked (P_ttl c v t bank) = c"
| "pulse_checked (P_clock c divider) = c"
| "pulse_checked (P_dac c dac V) = c"
| "pulse_checked (P_wait c t) = c"
| "pulse_checked (P_wait_trigger c chn raise t) = c"
| "pulse_checked P_clear_error = False"
| "pulse_checked (P_dds_set_freq c i v) = c"
| "pulse_checked (P_dds_set_amp c i v) = c"
| "pulse_checked (P_dds_set_phase c i v) = c"
| "pulse_checked (P_dds_reset c i) = c"
| "pulse_checked (P_loopback c v) = c"
| "pulse_checked (P_dds_get_phase c i) = c"
| "pulse_checked (P_dds_get_amp c i) = c"
| "pulse_checked (P_dds_get_freq c i) = c"

definition ctrl_word :: "pulse \<Rightarrow> u32" where
  "ctrl_word p = (if pulse_checked p then fst (pulse_words p) OR Bits_TimeCheck else fst (pulse_words p))"

lemma u16_and_ffff [simp]: "ucast (x :: u16) AND 0xffff = (ucast x :: u32)"
proof -
  have "(0xffff :: u32) = mask 16"
    by (simp add: mask_eq_exp_minus_1)
  then show ?thesis
    by (simp add: bit_eq_iff bit_simps) (auto dest: bit_imp_le_length)
qed

lemma u8_and_ff [simp]: "ucast (x :: u8) AND 0xff = (ucast x :: u32)"
proof -
  have "(0xff :: u32) = mask 8"
    by (simp add: mask_eq_exp_minus_1)
  then show ?thesis
    by (simp add: bit_eq_iff bit_simps) (auto dest: bit_imp_le_length)
qed

lemma pulser_issue_words:
  assumes "valid_pulse p"
  shows "pulser_issue hw p h =
     Inr (hw_write hw 31 (ctrl_word p) (hw_write hw 31 (snd (pulse_words p)) h))"
  using assms
  by (cases p)
     (auto simp: pulser_ttl_def pulser_clock_def pulser_dac_def pulser_wait_def pulser_wait_trigger_def
       pulser_clear_error_def pulser_dds_set_freq_def pulser_dds_set_amp_def pulser_dds_set_phase_def
       pulser_dds_reset_def pulser_loopback_def pulser_dds_get_phase_def pulser_dds_get_amp_def
       pulser_dds_get_freq_def pulser_dds_def pulser_spi_def dds_set_2bytes_def dds_get_2bytes_def
       dds_get_4bytes_def pulser_pulse_def ctrl_word_def Let_def or.assoc)

lemma bank_fields:
  assumes "bank_ok b"
  shows "field 28 4 (push_bit 24 (word_of_int b)) = 0" "field 0 24 (push_bit 24 (word_of_int b)) = 0"
    "uint (field 24 3 (push_bit 24 (word_of_int b))) = b" "\<not> bit (push_bit 24 (word_of_int b) :: u32) 27"
  using assms by (cases rule: bank_cases; simp add: field_def)+

lemma trigger_fields:
  "field 28 4 (push_bit 20 (ucast (chn :: u8))) = 0"
  "ucast (field 20 8 (push_bit 20 (ucast (chn :: u8)))) = chn"
  by (rule bit_word_eqI; auto simp: field_def bit_simps dest: bit_imp_le_length)+

lemma dac_fields:
  assumes "dac < (4 :: u8)"
  shows "ucast (field 16 2 (push_bit 16 (ucast (dac AND 3)) OR ucast (V :: u16))) = dac"
    "ucast (push_bit 16 (ucast (dac AND 3)) OR ucast (V :: u16) :: u32) = V"
proof -
  have m: "dac AND 3 = take_bit 2 dac"
    by (simp add: take_bit_eq_mask mask_eq_exp_minus_1)
  have "take_bit 2 dac = dac"
    using assms by (simp add: word_unat_eq_iff unsigned_take_bit_eq take_bit_nat_eq_self word_less_nat_alt)
  then have hi: "bit dac k \<Longrightarrow> k < 2" for k
    by (metis bit_take_bit_iff)
  show "ucast (field 16 2 (push_bit 16 (ucast (dac AND 3)) OR ucast V)) = dac"
    unfolding m by (rule bit_word_eqI) (auto simp: field_def bit_simps dest: bit_imp_le_length hi)
  show "ucast (push_bit 16 (ucast (dac AND 3)) OR ucast V :: u32) = V"
    unfolding m by (rule bit_word_eqI) (auto simp: bit_simps dest: bit_imp_le_length)
qed

lemmas encode_fields = bank_fields trigger_fields dac_fields time_fields chn_word_fields

lemmas decode_defs = fpga_decode_def fpga_dds_def ctrl_word_def bits_defs Let_def

lemma fpga_decode_encode:
  assumes "valid_pulse p" and "encodable p"
  shows "fpga_decode (ctrl_word p) (snd (pulse_words p)) = Some p"
  using assms
proof (cases p)
  case (P_wait_trigger c chn r t)
  then show ?thesis
    using assms by (cases c; cases r) (simp_all add: decode_defs encode_fields bit_or_iff)
next
  case (P_dac c dac V)
  then show ?thesis
    using assms by (cases c) (simp_all add: decode_defs encode_fields bit_or_iff del: field_or)
qed (auto simp: decode_defs encode_fields bit_or_iff)

section \<open>Storage registers\<close>

text \<open>
  What the code relies on for a set \<open>R\<close> of plain read/write registers, with \<open>val\<close> their contents:
  a read returns the contents and changes none of them, a write changes exactly its own register.
\<close>

definition reg_storage :: "'h hw_ops \<Rightarrow> u32 set \<Rightarrow> ('h \<Rightarrow> u32 \<Rightarrow> u32) \<Rightarrow> bool" where
  "reg_storage hw R val \<longleftrightarrow>
     (\<forall>r \<in> R. \<forall>h. fst (hw_read hw r h) = val h r \<and> (\<forall>q \<in> R. val (snd (hw_read hw r h)) q = val h q)) \<and>
     (\<forall>r \<in> R. \<forall>v h. \<forall>q \<in> R. val (hw_write hw r v h) q = (if q = r then v else val h q))"

definition mask_regs :: "u32 set" where
  "mask_regs = {r. \<exists>b. bank_ok b \<and> (r = himask_reg b \<or> r = lomask_reg b)}"

definition reg_lo :: "('h \<Rightarrow> u32 \<Rightarrow> u32) \<Rightarrow> 'h \<Rightarrow> int \<Rightarrow> u32" where
  "reg_lo val h b = (if bank_ok b then val h (lomask_reg b) else 0)"

definition reg_hi :: "('h \<Rightarrow> u32 \<Rightarrow> u32) \<Rightarrow> 'h \<Rightarrow> int \<Rightarrow> u32" where
  "reg_hi val h b = (if bank_ok b then val h (himask_reg b) else 0)"

text \<open>No two banks, and no low and high mask, share a register.\<close>

lemma mask_regs_distinct:
  assumes "bank_ok a" and "bank_ok b"
  shows "lomask_reg a \<noteq> himask_reg b" "lomask_reg a = lomask_reg b \<longleftrightarrow> a = b"
    "himask_reg a = himask_reg b \<longleftrightarrow> a = b"
proof -
  have "lomask_reg a \<noteq> himask_reg b \<and> (lomask_reg a = lomask_reg b \<longleftrightarrow> a = b) \<and>
      (himask_reg a = himask_reg b \<longleftrightarrow> a = b)"
    using assms(1)
    by (cases rule: bank_cases; use assms(2) in \<open>cases rule: bank_cases\<close>)
       (simp_all add: lomask_reg_def himask_reg_def)
  then show "lomask_reg a \<noteq> himask_reg b" "lomask_reg a = lomask_reg b \<longleftrightarrow> a = b"
    "himask_reg a = himask_reg b \<longleftrightarrow> a = b"
    by auto
qed

lemma mask_regs_mem: "bank_ok b \<Longrightarrow> lomask_reg b \<in> mask_regs" "bank_ok b \<Longrightarrow> himask_reg b \<in> mask_regs"
  by (auto simp: mask_regs_def)

lemma reg_storageD:
  assumes "reg_storage hw R val" and "r \<in> R"
  shows "fst (hw_read hw r h) = val h r"
    "q \<in> R \<Longrightarrow> val (snd (hw_read hw r h)) q = val h q"
    "q \<in> R \<Longrightarrow> val (hw_write hw r v h) q = (if q = r then v else val h q)"
  using assms by (auto simp: reg_storage_def)

lemma pulser_ttl_masks:
  assumes st: "reg_storage hw mask_regs val"
  shows "ttl_masks (pulser_ops hw fuel) (\<lambda>_. True) (reg_lo val) (reg_hi val)"
proof (unfold_locales, goal_cases)
  case (1 h b)
  then show ?case
    using reg_storageD [OF st] mask_regs_mem
    by (intro exI [of _ "snd (hw_read hw (lomask_reg b) h)"])
       (auto simp: pulser_ops_def pulser_ttl_lomask_def bank_read_def reg_lo_def reg_hi_def fun_eq_iff
         prod_eq_iff)
next
  case (2 h b)
  then show ?case
    using reg_storageD [OF st] mask_regs_mem
    by (intro exI [of _ "snd (hw_read hw (himask_reg b) h)"])
       (auto simp: pulser_ops_def pulser_ttl_himask_def bank_read_def reg_lo_def reg_hi_def fun_eq_iff
         prod_eq_iff)
next
  case (3 h b v)
  then show ?case
    using reg_storageD(3) [OF st] mask_regs_mem mask_regs_distinct(2) mask_regs_distinct(1)
    by (auto simp: pulser_ops_def pulser_set_ttl_lomask_def bank_write_def reg_lo_def reg_hi_def
        fun_eq_iff dest: sym)
next
  case (4 h b v)
  then show ?case
    using reg_storageD(3) [OF st] mask_regs_mem mask_regs_distinct(3) mask_regs_distinct(1)
    by (auto simp: pulser_ops_def pulser_set_ttl_himask_def bank_write_def reg_lo_def reg_hi_def
        fun_eq_iff)
qed

text \<open>The packed DDS write timings.\<close>

lemma take_bit_6:
  assumes "(x :: u32) < 64"
  shows "take_bit 6 x = x" "bit x k \<Longrightarrow> k < 6"
proof -
  show t: "take_bit 6 x = x"
    using assms by (simp add: word_unat_eq_iff unsigned_take_bit_eq take_bit_nat_eq_self word_less_nat_alt)
  show "bit x k \<Longrightarrow> k < 6"
    using t by (metis bit_take_bit_iff)
qed

lemma timing1_fields:
  fixes a b c d e :: u32
  assumes "a < 64" "b < 64" "c < 64" "d < 64" "e < 64"
  defines "w \<equiv> a OR push_bit 6 b OR push_bit 12 c OR push_bit 18 d OR push_bit 24 e"
  shows "take_bit 6 w = a" "take_bit 6 (drop_bit 6 w) = b" "take_bit 6 (drop_bit 12 w) = c"
    "take_bit 6 (drop_bit 18 w) = d" "take_bit 6 (drop_bit 24 w) = e"
  by (rule bit_word_eqI;
      auto simp: w_def bit_simps dest: take_bit_6(2) [OF assms(1)] take_bit_6(2) [OF assms(2)]
        take_bit_6(2) [OF assms(3)] take_bit_6(2) [OF assms(4)] take_bit_6(2) [OF assms(5)])+

lemma and_3f: "(x :: u32) AND 0x3f = take_bit 6 x"
  by (simp add: take_bit_eq_mask mask_eq_exp_minus_1)

lemma get_set_dds_timing1:
  assumes st: "reg_storage hw {0x50} val"
    and lt: "a < 64" "b < 64" "c < 64" "d < 64" "e < 64"
  shows "\<exists>h' h''. pulser_set_dds_timing1 hw a b c d e h = Inr h' \<and>
     pulser_get_dds_timing1 hw h' = Inr ([ucast a, ucast b, ucast c, ucast d, ucast e], h'')"
proof -
  let ?w = "a OR push_bit 6 b OR push_bit 12 c OR push_bit 18 d OR push_bit 24 e"
  let ?h = "hw_write hw 0x50 ?w h"
  have "fst (hw_read hw 0x50 ?h) = ?w"
    using reg_storageD(1,3) [OF st, of "0x50"] by simp
  then show ?thesis
    using timing1_fields [OF lt]
    by (simp add: pulser_set_dds_timing1_def pulser_get_dds_timing1_def and_3f Let_def case_prod_beta
        del: take_bit_or drop_bit_or)
qed


text \<open>A plain register file satisfies the hypothesis.\<close>

definition reg_file :: "(u32 \<Rightarrow> u32) hw_ops" where
  "reg_file = \<lparr>hw_read = (\<lambda>r h. (h r, h)), hw_write = (\<lambda>r v h. h(r := v))\<rparr>"

lemma reg_file_storage: "reg_storage reg_file R (\<lambda>h. h)"
  by (simp add: reg_storage_def reg_file_def)

section \<open>Properties\<close>

text \<open>
  C11: an instruction reaches the FPGA as exactly two writes to the command register, operand first
  and control word second, and no two different instructions have the same two words: the fields of
  the encoding never overlap.
\<close>

theorem instructions_encode_uniquely:
  assumes "valid_pulse p" and "encodable p"
  shows "pulser_issue hw p h =
       Inr (hw_write hw 31 (ctrl_word p) (hw_write hw 31 (snd (pulse_words p)) h)) \<and>
     (\<forall>q. valid_pulse q \<and> encodable q \<and> ctrl_word q = ctrl_word p \<and>
        snd (pulse_words q) = snd (pulse_words p) \<longrightarrow> q = p)"
  using pulser_issue_words [OF assms(1)] fpga_decode_encode [OF assms] fpga_decode_encode
  by (metis option.inject)

theorem instructions_encode_uniquely_witness:
  "pulser_issue reg_file (P_ttl True 5 100 3) (\<lambda>_. 0) =
     Inr (hw_write reg_file 31 0x0b000064 (hw_write reg_file 31 5 (\<lambda>_. 0)))"
  using instructions_encode_uniquely [of "P_ttl True 5 100 3" reg_file "\<lambda>_. 0"]
  by (simp add: bank_simps max_wait_t_eq ctrl_word_def bits_defs)

text \<open>
  C18: the DDS write timings that are set are the ones read back, when register \<open>0x50\<close> is storage:
  the five six-bit fields of the packed word do not overlap.
\<close>

theorem dds_timing_roundtrip:
  assumes "reg_storage hw {0x50} val" and "a < 64" "b < 64" "c < 64" "d < 64" "e < 64"
  shows "\<exists>h' h''. pulser_set_dds_timing1 hw a b c d e h = Inr h' \<and>
     pulser_get_dds_timing1 hw h' = Inr ([ucast a, ucast b, ucast c, ucast d, ucast e], h'')"
  by (rule get_set_dds_timing1 [OF assms])

theorem dds_timing_roundtrip_witness:
  "\<exists>h' h''. pulser_set_dds_timing1 reg_file 1 2 3 4 5 (\<lambda>_. 0) = Inr h' \<and>
     pulser_get_dds_timing1 reg_file h' = Inr ([1, 2, 3, 4, 5], h'')"
  using dds_timing_roundtrip [OF reg_file_storage, of 1 2 3 4 5 "\<lambda>_. 0"] by simp

text \<open>
  C19: the constructor's version check accepts exactly the hardware versions 5.2 and later minor
  ones of major version 5, and names the version it found when it refuses.
\<close>

theorem hw_version_checked:
  assumes "reg_storage hw {6, 7} val"
  shows "(if val h 6 = 5 \<and> 2 \<le> val h 7 then \<exists>h'. check_hw_version hw h = Inr h'
      else check_hw_version hw h = Inl (RuntimeError (''Incompatible hardware version: require 5.2, got ''
         @ dec_string (unat (val h 6)) @ ''.'' @ dec_string (unat (val h 7)))))"
proof -
  have r: "fst (hw_read hw 6 h) = val h 6" "fst (hw_read hw 7 (snd (hw_read hw 6 h))) = val h 7"
    using reg_storageD(1,2) [OF assms] by simp_all
  have "dec_string 5 = ''5''" "dec_string 2 = ''2''"
    by code_simp+
  then show ?thesis
    using r by (auto simp: check_hw_version_def pulser_hw_version_def check_compatible_def req_version_def
        to_string_def Let_def case_prod_beta)
qed

theorem hw_version_checked_witness:
  "check_hw_version reg_file (\<lambda>_. 4) = Inl (RuntimeError
     (''Incompatible hardware version: require 5.2, got '' @ dec_string 4 @ ''.'' @ dec_string 4))"
  using hw_version_checked [OF reg_file_storage, of "\<lambda>_. 4"] by simp

end
