(* ===== verification/Controller_Instances.thy ===== *)
theory Controller_Instances
  imports Controller Dummy_Pulser Pulser
begin

text \<open>
  Concrete controllers: a freshly built one on the software pulser and one on the register level
  pulser over a plain register file, with the empty queues of \<open>list_fqueue\<close>. They are the inputs
  at which the properties of the controller are applied.
\<close>

section \<open>Fresh controllers\<close>

definition fresh_dummy :: "(addr list \<times> addr list, nat, nat, dummy_pulser) controller" where
  "fresh_dummy = controller_fields ([], []) ([], []) (DummyPulser 0 (\<lambda>_. 1)) (\<lambda>_. 0) (\<lambda>_. 0)
     (replicate NUM_TTL_BANKS 0)"

lemma fresh_dummy_p [simp]: "m_p fresh_dummy = DummyPulser 0 (\<lambda>_. 1)"
  by (simp add: fresh_dummy_def controller_fields_def)

definition fresh_hw :: "(addr list \<times> addr list, nat, nat, u32 \<Rightarrow> u32) controller" where
  "fresh_hw = controller_fields ([], []) ([], []) (\<lambda>_. 0) (\<lambda>_. 0) (\<lambda>_. 0) (replicate NUM_TTL_BANKS 0)"

text \<open>The environments: no other thread moves, and \<^verbatim>\<open>setBit\<close> sets the bit.\<close>

definition plain_env ::
  "'p pulser_ops \<Rightarrow> (addr list \<times> addr list, nat, nat, 'p) ctrl_env" where
  "plain_env P = \<lparr>e_P = P, e_Q = list_fqueue, e_pt = unit_times, e_res = 1000000,
     e_setBit = (\<lambda>w i b. if b then w OR push_bit (unat i) 1 else w AND NOT (push_bit (unat i) 1)),
     e_frontend = (\<lambda>s. s)\<rparr>"

lemma plain_env_simps [simp]:
  "e_P (plain_env P) = P" "e_Q (plain_env P) = list_fqueue" "e_pt (plain_env P) = unit_times"
  "e_frontend (plain_env P) = (\<lambda>s. s)" "e_res (plain_env P) = 1000000"
  by (simp_all add: plain_env_def)

abbreviation hw_env :: "(addr list \<times> addr list, nat, nat, u32 \<Rightarrow> u32) ctrl_env" where
  "hw_env \<equiv> plain_env (pulser_ops reg_file 0)"

abbreviation dummy_env :: "(addr list \<times> addr list, nat, nat, dummy_pulser) ctrl_env" where
  "dummy_env \<equiv> plain_env (dummy_ops unit_times)"

lemma issue_hw:
  assumes "valid_pulse c"
  shows "issue (pulser_ops reg_file 0) c s = Inr (s\<lparr>m_calls := m_calls s @ [Issue c],
     m_p := (m_p s)(31 := ctrl_word c)\<rparr>)"
  using assms by (simp add: issue_def p_do_def called_def pulser_ops_def pulser_issue_words reg_file_def)

end
