(* ===== verification/Controller_Overrides.thy ===== *)
theory Controller_Overrides
  imports Controller_Instances
begin

unbundle bit_operations_syntax

text \<open>
  TTL overrides end to end: the frontend calls of \<^verbatim>\<open>lib/ctrl_iface.cpp\<close> on top of
  \<^verbatim>\<open>concurrent_set\<close> and \<^verbatim>\<open>concurrent_get\<close> of \<^verbatim>\<open>lib/controller.cpp\<close>, on top of the mask
  registers of a pulser. The facts are proved in the locale \<open>ttl_masks\<close>, that is for every pulser
  whose masks are storage, and then read off for the two pulser classes.
\<close>

section \<open>Operands\<close>

lemma ttl_operand_fields:
  assumes "bank_ok b" and "typ = 0 \<or> typ = 1 \<or> typ = 2 \<or> typ = (3 :: u32)"
  shows "ttl_operand typ b AND 3 = typ" "uint (drop_bit 2 (ttl_operand typ b)) = b"
  using assms(1) by (cases rule: bank_cases; use assms(2) in \<open>auto simp: ttl_operand_def\<close>)+

text \<open>What an override of the channels in \<open>val\<close> does to the two masks of a bank.\<close>

definition ovr_lo :: "u32 \<Rightarrow> u32 \<Rightarrow> u32 \<Rightarrow> u32" where
  "ovr_lo typ val m = (if typ = 0 then m OR val else m AND NOT val)"

definition ovr_hi :: "u32 \<Rightarrow> u32 \<Rightarrow> u32 \<Rightarrow> u32" where
  "ovr_hi typ val m = (if typ = 1 then m OR val else m AND NOT val)"

text \<open>The level a channel is forced to, if any.\<close>

definition forced :: "u32 \<Rightarrow> u32 \<Rightarrow> nat \<Rightarrow> bool option" where
  "forced lo hi i = (if bit lo i then Some False else if bit hi i then Some True else None)"

lemma forced_override:
  assumes "typ = 0 \<or> typ = 1 \<or> typ = 2" and "i < 32"
  shows "forced (ovr_lo typ val lo) (ovr_hi typ val hi) i =
     (if bit val i then (if typ = 0 then Some False else if typ = 1 then Some True else None)
      else forced lo hi i)"
  using assms by (auto simp: forced_def ovr_lo_def ovr_hi_def bit_simps)

lemma masks_stay_disjoint:
  assumes "lo AND hi = 0"
  shows "ovr_lo typ val lo AND ovr_hi typ val hi = 0"
proof (rule bit_word_eqI)
  fix n
  have "\<not> (bit lo n \<and> bit hi n)"
    using assms by (metis bit_and_iff bit_0_eq bot_apply bot_bool_def)
  then show "bit (ovr_lo typ val lo AND ovr_hi typ val hi) n = bit 0 n"
    by (cases "typ = 0"; cases "typ = 1") (auto simp: ovr_lo_def ovr_hi_def bit_simps)
qed

section \<open>For every pulser with mask registers\<close>

lemma p_get_Inr: "f (m_p s) = Inr (v, p) \<Longrightarrow> p_get f s = Inr (v, s\<lparr>m_p := p\<rparr>)"
  by (simp add: p_get_def)

lemma p_do_Inr: "f (m_p s) = Inr p \<Longrightarrow> p_do f s = Inr (s\<lparr>m_p := p\<rparr>)"
  by (simp add: p_do_def)

text \<open>A step of the frontend that only talks to the pulser.\<close>

definition only_pulser ::
  "('q, 'cb, 'nt, 'p) controller \<Rightarrow> ('q, 'cb, 'nt, 'p) controller \<Rightarrow> bool" where
  "only_pulser s s' \<longleftrightarrow> s' = s\<lparr>m_p := m_p s'\<rparr>"

lemma only_pulser_upd [simp]: "only_pulser s (s\<lparr>m_p := p\<rparr>)"
  by (simp add: only_pulser_def)

text \<open>The three override types are one: read both masks, write both back.\<close>

lemma concurrent_set_masks:
  assumes "operand AND 3 = typ" and "uint (drop_bit 2 operand) = b"
    and "typ = 0 \<or> typ = 1 \<or> typ = 2" and "bank_ok b"
  shows "concurrent_set P TTL operand True val s =
     bindR (p_get (p_ttl_lomask P b) s) (\<lambda>(l, s1).
     bindR (p_get (p_ttl_himask P b) s1) (\<lambda>(h, s2).
     bindR (p_do (p_set_ttl_lomask P (ovr_lo typ val l) b) s2) (\<lambda>s3.
     bindR (p_do (p_set_ttl_himask P (ovr_hi typ val h) b) s3) (\<lambda>s4. Inr (True, s4)))))"
  using assms(3)
  by (elim disjE) (simp_all add: concurrent_set_def assms(1,2) assms(4) [unfolded bank_ok_def]
      ovr_lo_def ovr_hi_def)

context ttl_masks
begin

lemma concurrent_set_ovr:
  fixes s :: "('q, 'cb, 'nt, 'p) controller"
  assumes inv: "inv (m_p s)" and b: "bank_ok b" and ty: "typ = 0 \<or> typ = 1 \<or> typ = 2"
  shows "\<exists>s'. concurrent_set P TTL (ttl_operand typ b) True val s = Inr (True, s') \<and>
     only_pulser s s' \<and> inv (m_p s') \<and>
     lo (m_p s') = (lo (m_p s))(b := ovr_lo typ val (lo (m_p s) b)) \<and>
     hi (m_p s') = (hi (m_p s))(b := ovr_hi typ val (hi (m_p s) b))"
proof -
  have f: "ttl_operand typ b AND 3 = typ" "uint (drop_bit 2 (ttl_operand typ b)) = b"
    using ttl_operand_fields [OF b] ty by auto
  obtain p1 where p1: "p_ttl_lomask P b (m_p s) = Inr (lo (m_p s) b, p1)" "inv p1"
    "lo p1 = lo (m_p s)" "hi p1 = hi (m_p s)"
    using lomask [OF inv b] by blast
  obtain p2 where p2: "p_ttl_himask P b p1 = Inr (hi p1 b, p2)" "inv p2"
    "lo p2 = lo p1" "hi p2 = hi p1"
    using himask [OF p1(2) b] by blast
  define nlo nhi where "nlo = ovr_lo typ val (lo (m_p s) b)" and "nhi = ovr_hi typ val (hi (m_p s) b)"
  obtain p3 where p3: "p_set_ttl_lomask P nlo b p2 = Inr p3" "inv p3"
    "lo p3 = (lo p2)(b := nlo)" "hi p3 = hi p2"
    using set_lomask [OF p2(2) b] by blast
  obtain p4 where p4: "p_set_ttl_himask P nhi b p3 = Inr p4" "inv p4"
    "lo p4 = lo p3" "hi p4 = (hi p3)(b := nhi)"
    using set_himask [OF p3(2) b] by blast
  have "concurrent_set P TTL (ttl_operand typ b) True val s = Inr (True, s\<lparr>m_p := p4\<rparr>)"
    using p1 p2 p3 p4
    by (simp add: concurrent_set_masks [OF f ty b] p_get_def p_do_def nlo_def nhi_def)
  then show ?thesis
    using p1 p2 p3 p4 by (auto simp: nlo_def nhi_def)
qed

lemma concurrent_get_lo:
  assumes "inv (m_p s)" and "bank_ok b"
  shows "\<exists>s'. concurrent_get P TTL (ttl_operand 0 b) True s = Inr (Some (lo (m_p s) b), s') \<and>
     only_pulser s s' \<and> inv (m_p s') \<and> lo (m_p s') = lo (m_p s) \<and> hi (m_p s') = hi (m_p s)"
  using lomask [OF assms] assms(2) ttl_operand_fields [OF assms(2), of 0]
  by (auto simp: concurrent_get_def Let_def p_get_def bank_ok_def)

lemma concurrent_get_hi:
  assumes "inv (m_p s)" and "bank_ok b"
  shows "\<exists>s'. concurrent_get P TTL (ttl_operand 1 b) True s = Inr (Some (hi (m_p s) b), s') \<and>
     only_pulser s s' \<and> inv (m_p s') \<and> lo (m_p s') = lo (m_p s) \<and> hi (m_p s') = hi (m_p s)"
  using himask [OF assms] assms(2) ttl_operand_fields [OF assms(2), of 1]
  by (auto simp: concurrent_get_def Let_def p_get_def bank_ok_def)

text \<open>The frontend calls: set an override, then read both masks back.\<close>

lemma set_ttl_ovr_spec:
  fixes s :: "('q, 'cb, 'nt, 'p) controller"
  assumes inv: "inv (m_p s)" and b: "bank_ok b" and ty: "v = 0 \<or> v = 1 \<or> v = 2" and m: "msk \<noteq> 0"
  shows "\<exists>s'. set_ttl_ovr Q (concurrent_set P) b msk v s = Inr s' \<and> inv (m_p s') \<and>
     m_cmd_queue s' = m_cmd_queue s \<and> m_cmd_cache s' = m_cmd_cache s \<and>
     lo (m_p s') = (lo (m_p s))(b := ovr_lo (word_of_int v) msk (lo (m_p s) b)) \<and>
     hi (m_p s') = (hi (m_p s))(b := ovr_hi (word_of_int v) msk (hi (m_p s) b))"
proof -
  have w: "(word_of_int v :: u32) = 0 \<or> (word_of_int v :: u32) = 1 \<or> (word_of_int v :: u32) = 2"
    using ty by auto
  have d: "m_p (set_dirty s) = m_p s" "m_cmd_queue (set_dirty s) = m_cmd_queue s"
    "m_cmd_cache (set_dirty s) = m_cmd_cache s"
    by (simp_all add: set_dirty_def)
  obtain s1 where s1: "concurrent_set P TTL (ttl_operand (word_of_int v) b) True msk (set_dirty s) = Inr (True, s1)"
    "only_pulser (set_dirty s) s1" "inv (m_p s1)"
    "lo (m_p s1) = (lo (m_p s))(b := ovr_lo (word_of_int v) msk (lo (m_p s) b))"
    "hi (m_p s1) = (hi (m_p s))(b := ovr_hi (word_of_int v) msk (hi (m_p s) b))"
    using concurrent_set_ovr [of "set_dirty s" b "word_of_int v" msk] inv b w d by auto
  have "m_cmd_queue s1 = m_cmd_queue s" "m_cmd_cache s1 = m_cmd_cache s"
    using s1(2) d unfolding only_pulser_def by (metis ctrl_iface.select_convs controller.surjective
        controller.update_convs ctrl_iface.ext_inject controller.ext_inject)+
  then show ?thesis
    using s1 m by (simp add: set_ttl_ovr_def send_ttl_set_cmd_def)
qed

lemma get_ttl_ovr_spec:
  fixes s :: "('q, 'cb, 'nt, 'p) controller"
  assumes inv: "inv (m_p s)" and b: "bank_ok b"
  shows "\<exists>s1 s2. get_ttl_ovrlo (concurrent_get P) b s = Inr (lo (m_p s) b, s1) \<and>
     get_ttl_ovrhi (concurrent_get P) b s1 = Inr (hi (m_p s) b, s2) \<and>
     inv (m_p s2) \<and> lo (m_p s2) = lo (m_p s) \<and> hi (m_p s2) = hi (m_p s)"
proof -
  have d: "m_p (set_observed x) = m_p x" for x :: "('q, 'cb, 'nt, 'p) controller"
    by (simp add: set_observed_def)
  obtain s1 where s1: "concurrent_get P TTL (ttl_operand 0 b) True (set_observed s) = Inr (Some (lo (m_p s) b), s1)"
    "inv (m_p s1)" "lo (m_p s1) = lo (m_p s)" "hi (m_p s1) = hi (m_p s)"
    using concurrent_get_lo [of "set_observed s" b] inv b by (auto simp: d)
  obtain s2 where s2: "concurrent_get P TTL (ttl_operand 1 b) True (set_observed s1) = Inr (Some (hi (m_p s) b), s2)"
    "inv (m_p s2)" "lo (m_p s2) = lo (m_p s)" "hi (m_p s2) = hi (m_p s)"
    using concurrent_get_hi [of "set_observed s1" b] s1 b by (auto simp: d)
  show ?thesis
    using s1 s2 by (auto simp: get_ttl_ovrlo_def get_ttl_ovrhi_def send_ttl_get_cmd_def)
qed

lemma override_readback:
  fixes s :: "('q, 'cb, 'nt, 'p) controller"
  assumes inv: "inv (m_p s)" and b: "bank_ok b" and v: "v = 0 \<or> v = 1 \<or> v = 2" and m: "msk \<noteq> 0"
  shows "\<exists>s1 l s2 h s3. set_ttl_ovr Q (concurrent_set P) b msk v s = Inr s1 \<and>
     get_ttl_ovrlo (concurrent_get P) b s1 = Inr (l, s2) \<and>
     get_ttl_ovrhi (concurrent_get P) b s2 = Inr (h, s3) \<and>
     (\<forall>i < 32. forced l h i =
        (if bit msk i then (if v = 0 then Some False else if v = 1 then Some True else None)
         else forced (lo (m_p s) b) (hi (m_p s) b) i)) \<and>
     (lo (m_p s) b AND hi (m_p s) b = 0 \<longrightarrow> l AND h = 0) \<and>
     (\<forall>b'. b' \<noteq> b \<longrightarrow> lo (m_p s3) b' = lo (m_p s) b' \<and> hi (m_p s3) b' = hi (m_p s) b')"
proof -
  let ?w = "word_of_int v :: u32"
  let ?l = "ovr_lo ?w msk (lo (m_p s) b)" and ?h = "ovr_hi ?w msk (hi (m_p s) b)"
  obtain s1 where s1: "set_ttl_ovr Q (concurrent_set P) b msk v s = Inr s1" "inv (m_p s1)"
    "lo (m_p s1) = (lo (m_p s))(b := ?l)" "hi (m_p s1) = (hi (m_p s))(b := ?h)"
    using set_ttl_ovr_spec [OF inv b v m, of Q] by blast
  obtain s2 s3 where s3: "get_ttl_ovrlo (concurrent_get P) b s1 = Inr (lo (m_p s1) b, s2)"
    "get_ttl_ovrhi (concurrent_get P) b s2 = Inr (hi (m_p s1) b, s3)"
    "lo (m_p s3) = lo (m_p s1)" "hi (m_p s3) = hi (m_p s1)"
    using get_ttl_ovr_spec [OF s1(2) b] by blast
  have w: "?w = 0 \<or> ?w = 1 \<or> ?w = 2" "(?w = 0) = (v = 0)" "(?w = 1) = (v = 1)"
    using v by auto
  have "forced ?l ?h i =
        (if bit msk i then (if v = 0 then Some False else if v = 1 then Some True else None)
         else forced (lo (m_p s) b) (hi (m_p s) b) i)" if "i < 32" for i
    using forced_override [OF w(1) that] by (simp add: w(2,3))
  then show ?thesis
    using s1 s3 masks_stay_disjoint by auto
qed

end

section \<open>The level that reaches a channel\<close>

definition driven :: "u32 \<Rightarrow> u32 \<Rightarrow> u32 \<Rightarrow> nat \<Rightarrow> bool" where
  "driven ttl lo hi i = (case forced lo hi i of Some v \<Rightarrow> v | None \<Rightarrow> bit ttl i)"

lemma driven_bit: "i < 32 \<Longrightarrow> bit ((ttl OR hi) AND NOT lo) i = driven ttl lo hi (i :: nat)"
  for ttl :: u32
  by (auto simp: driven_def forced_def bit_simps)

context pulser_iface
begin

lemma get_ttl_driven:
  fixes s :: "('q, 'cb, 'nt, 'p) controller"
  assumes inv: "inv (m_p s)" and b: "bank_ok b"
    and masks: "\<And>ttl p'. p_cur_ttl P b (m_p s) = Inr (ttl, p') \<Longrightarrow>
        lo p' = lo (m_p s) \<and> hi p' = hi (m_p s)"
  shows "\<exists>ttl p' w s'. p_cur_ttl P b (m_p s) = Inr (ttl, p') \<and>
     get_ttl (concurrent_get P) b s = Inr (w, s') \<and>
     (\<forall>i < 32. bit w i = driven ttl (lo (m_p s) b) (hi (m_p s) b) i)"
proof -
  have f: "ttl_operand 0 b AND 3 = 0" "uint (drop_bit 2 (ttl_operand 0 b)) = b"
    using ttl_operand_fields [OF b, of 0] by auto
  obtain ttl p1 where p1: "p_cur_ttl P b (m_p s) = Inr (ttl, p1)" "inv p1"
    using cur_ttl [OF inv b] by blast
  note m1 = masks [OF p1(1)]
  obtain p2 where p2: "p_ttl_himask P b p1 = Inr (hi p1 b, p2)" "inv p2" "lo p2 = lo p1"
    using himask [OF p1(2) b] by blast
  obtain p3 where p3: "p_ttl_lomask P b p2 = Inr (lo p2 b, p3)"
    using lomask [OF p2(2) b] by blast
  show ?thesis
    using p1(1) p2(1,3) p3 m1 b f
    by (auto simp: get_ttl_def send_ttl_get_cmd_def concurrent_get_def set_observed_def p_get_def
        bank_ok_def Let_def driven_bit)
qed

end

section \<open>Properties\<close>

text \<open>
  C8: on the register level pulser, an override of the channels in \<open>msk\<close> that the frontend sets
  is what it reads back: those channels are forced low, high or to nothing as asked, the other
  channels of the bank and all other banks keep their override, and no channel ends up forced to
  both levels. The mask registers are assumed to be storage.
\<close>

theorem ttl_override_readback_hw:
  fixes s :: "('q, 'cb, 'nt, 'h) controller"
  assumes "reg_storage hw mask_regs val" and "bank_ok b" and "v = 0 \<or> v = 1 \<or> v = 2" and "msk \<noteq> 0"
  shows "\<exists>s1 l s2 h s3. set_ttl_ovr Q (concurrent_set (pulser_ops hw fuel)) b msk v s = Inr s1 \<and>
     get_ttl_ovrlo (concurrent_get (pulser_ops hw fuel)) b s1 = Inr (l, s2) \<and>
     get_ttl_ovrhi (concurrent_get (pulser_ops hw fuel)) b s2 = Inr (h, s3) \<and>
     (\<forall>i < 32. forced l h i =
        (if bit msk i then (if v = 0 then Some False else if v = 1 then Some True else None)
         else forced (reg_lo val (m_p s) b) (reg_hi val (m_p s) b) i)) \<and>
     (reg_lo val (m_p s) b AND reg_hi val (m_p s) b = 0 \<longrightarrow> l AND h = 0) \<and>
     (\<forall>b'. b' \<noteq> b \<longrightarrow> reg_lo val (m_p s3) b' = reg_lo val (m_p s) b' \<and>
        reg_hi val (m_p s3) b' = reg_hi val (m_p s) b')"
  by (rule ttl_masks.override_readback [OF pulser_ttl_masks [OF assms(1)] TrueI assms(2-4)])

theorem ttl_override_readback_hw_witness:
  "reg_storage reg_file mask_regs (\<lambda>h. h) \<and>
   (\<exists>s1 l s2 h s3.
     set_ttl_ovr list_fqueue (concurrent_set (pulser_ops reg_file 0)) 3 0xff 1
       (controller_fields ([], []) ([], []) (\<lambda>_. 0) (\<lambda>_. 0) (\<lambda>_. 0) []
          :: (_, nat, nat, _) controller) = Inr s1 \<and>
     get_ttl_ovrlo (concurrent_get (pulser_ops reg_file 0)) 3 s1 = Inr (l, s2) \<and>
     get_ttl_ovrhi (concurrent_get (pulser_ops reg_file 0)) 3 s2 = Inr (h, s3) \<and>
     forced l h 7 = Some True \<and> forced l h 8 = None)"
proof -
  let ?s = "controller_fields ([], []) ([], []) (\<lambda>_. 0) (\<lambda>_. 0) (\<lambda>_. 0) [] :: (_, nat, nat, _) controller"
  have m: "bit (0xff :: u32) 7" "\<not> bit (0xff :: u32) 8" "bank_ok 3"
    by (simp_all add: bank_simps)
  have f: "forced (reg_lo (\<lambda>h. h) (m_p ?s) 3) (reg_hi (\<lambda>h. h) (m_p ?s) 3) 8 = None"
    by (simp add: controller_fields_def reg_lo_def reg_hi_def forced_def)
  show ?thesis
    using ttl_override_readback_hw [OF reg_file_storage m(3), of 1 "0xff" list_fqueue 0 ?s]
      reg_file_storage m f by fastforce
qed

text \<open>
  C16: the same for the software pulser, where no assumption about hardware is needed.
\<close>

theorem ttl_override_readback_dummy:
  fixes s :: "('q, 'cb, 'nt, dummy_pulser) controller"
  assumes "dummy_inv (m_p s)" and "bank_ok b" and "v = 0 \<or> v = 1 \<or> v = 2" and "msk \<noteq> 0"
  shows "\<exists>s1 l s2 h s3. set_ttl_ovr Q (concurrent_set (dummy_ops pt)) b msk v s = Inr s1 \<and>
     get_ttl_ovrlo (concurrent_get (dummy_ops pt)) b s1 = Inr (l, s2) \<and>
     get_ttl_ovrhi (concurrent_get (dummy_ops pt)) b s2 = Inr (h, s3) \<and>
     (\<forall>i < 32. forced l h i =
        (if bit msk i then (if v = 0 then Some False else if v = 1 then Some True else None)
         else forced (dummy_lo (m_p s) b) (dummy_hi (m_p s) b) i)) \<and>
     (dummy_lo (m_p s) b AND dummy_hi (m_p s) b = 0 \<longrightarrow> l AND h = 0) \<and>
     (\<forall>b'. b' \<noteq> b \<longrightarrow> dummy_lo (m_p s3) b' = dummy_lo (m_p s) b' \<and>
        dummy_hi (m_p s3) b' = dummy_hi (m_p s) b')"
  by (rule dummy.override_readback [OF assms])

theorem ttl_override_readback_dummy_witness:
  "dummy_inv (m_p fresh_dummy) \<and>
   (\<exists>s1 l s2 h s3.
     set_ttl_ovr list_fqueue (concurrent_set (dummy_ops unit_times)) 7 0x0f 0 fresh_dummy = Inr s1 \<and>
     get_ttl_ovrlo (concurrent_get (dummy_ops unit_times)) 7 s1 = Inr (l, s2) \<and>
     get_ttl_ovrhi (concurrent_get (dummy_ops unit_times)) 7 s2 = Inr (h, s3) \<and>
     forced l h 3 = Some False \<and> forced l h 4 = None)"
proof -
  have inv: "dummy_inv (m_p fresh_dummy)" and b: "bank_ok 7"
    by (simp_all add: DummyPulser_inv bank_simps)
  have m: "bit (0x0f :: u32) 3" "\<not> bit (0x0f :: u32) 4"
    by simp_all
  have f: "forced (dummy_lo (m_p fresh_dummy) 7) (dummy_hi (m_p fresh_dummy) 7) 4 = None"
    by (simp add: dummy_lo_def dummy_hi_def DummyPulser_def forced_def bank_simps)
  show ?thesis
    using ttl_override_readback_dummy [OF inv b, of 0 "0x0f" list_fqueue unit_times] inv m f by fastforce
qed

text \<open>
  C17: on the software pulser \<^verbatim>\<open>get_ttl\<close> returns what reaches the channels: the output as the
  queue has left it, with every overridden channel at the level it is forced to.
\<close>

theorem get_ttl_driven_dummy:
  fixes s :: "('q, 'cb, 'nt, dummy_pulser) controller"
  assumes "dummy_inv (m_p s)" and "bank_ok b"
  shows "\<exists>d' w s'. polled (m_p s) d' \<and> get_ttl (concurrent_get (dummy_ops pt)) b s = Inr (w, s') \<and>
     (\<forall>i < 32. bit w i =
        driven (dm_ttl d' ! nat b) (dummy_lo (m_p s) b) (dummy_hi (m_p s) b) i)"
proof -
  obtain d' where d': "dummy_cur_ttl pt b (m_p s) = Inr (dm_ttl d' ! nat b, d')" "polled (m_p s) d'"
    using dummy_cur_ttl_spec [OF assms] by blast
  have "dummy_lo d' = dummy_lo (m_p s) \<and> dummy_hi d' = dummy_hi (m_p s)"
    using same_masks_lo_hi [OF same_env_masks [OF polledD(2) [OF d'(2)]]] .
  then show ?thesis
    using dummy.get_ttl_driven [OF assms, of pt] d' by (auto simp: dummy_ops_def)
qed

theorem get_ttl_driven_dummy_witness:
  "dummy_inv (m_p fresh_dummy) \<and>
   (\<exists>d' w s'. polled (m_p fresh_dummy) d' \<and>
     get_ttl (concurrent_get (dummy_ops unit_times)) 2 fresh_dummy = Inr (w, s') \<and>
     (\<forall>i < 32. bit w i = driven (dm_ttl d' ! 2) 0 0 i))"
proof -
  have inv: "dummy_inv (m_p fresh_dummy)" and b: "bank_ok 2"
    by (simp_all add: DummyPulser_inv bank_simps)
  have "dummy_lo (m_p fresh_dummy) 2 = 0" "dummy_hi (m_p fresh_dummy) 2 = 0"
    by (simp_all add: dummy_lo_def dummy_hi_def DummyPulser_def bank_simps)
  then show ?thesis
    using get_ttl_driven_dummy [OF inv b, of unit_times] inv by simp
qed

end
