(* ===== verification/Controller_Timing.thy ===== *)
theory Controller_Timing
  imports Controller_Instances
begin

unbundle bit_operations_syntax

text \<open>
  Time keeping of \<^verbatim>\<open>Controller::Runner\<close> (\<^verbatim>\<open>lib/controller.cpp\<close>). The runner keeps the sequence
  time \<^verbatim>\<open>m_t\<close> beside the instructions it issues, and while it waits it runs commands from the
  queue in the middle of the sequence. The lemmas compare three times, all modulo \<open>2 ^ 64\<close>: what
  \<^verbatim>\<open>m_t\<close> advanced, what the instructions issued take, and what the sequence asked for.
\<close>

section \<open>The time of what was issued\<close>

fun call_time :: "pulse_times \<Rightarrow> port_call \<Rightarrow> u64" where
  "call_time pt (Issue c) = ucast (pulse_time pt c)"
| "call_time pt _ = 0"

definition calls_time :: "pulse_times \<Rightarrow> port_call list \<Rightarrow> u64" where
  "calls_time pt cs = sum_list (map (call_time pt) cs)"

definition emits ::
  "pulse_times \<Rightarrow> u64 \<Rightarrow> ('q, 'cb, 'nt, 'p) controller \<Rightarrow> ('q, 'cb, 'nt, 'p) controller \<Rightarrow> bool" where
  "emits pt t s s' \<longleftrightarrow> (\<exists>cs. m_calls s' = m_calls s @ cs \<and> calls_time pt cs = t)"

definition timed ::
  "pulse_times \<Rightarrow> u64 \<Rightarrow> ('q, 'cb, 'nt, 'p) running \<Rightarrow> ('q, 'cb, 'nt, 'p) running \<Rightarrow> bool" where
  "timed pt t rs rs' \<longleftrightarrow> r_t (fst rs') = r_t (fst rs) + t \<and> emits pt t (snd rs) (snd rs')"

text \<open>The other threads never issue instructions.\<close>

definition frontend_quiet :: "('q, 'cb, 'nt, 'p) ctrl_env \<Rightarrow> bool" where
  "frontend_quiet E \<longleftrightarrow> (\<forall>s. m_calls (e_frontend E s) = m_calls s)"

lemma calls_time_append [simp]: "calls_time pt (a @ b) = calls_time pt a + calls_time pt b"
  by (simp add: calls_time_def)

lemma emits_same: "m_calls s' = m_calls s \<Longrightarrow> emits pt 0 s s'"
  by (simp add: emits_def calls_time_def)

lemma emits_trans: "emits pt a s s' \<Longrightarrow> emits pt b s' s'' \<Longrightarrow> emits pt (a + b) s s''"
  unfolding emits_def by (metis append.assoc calls_time_append)

lemma emits_from: "m_calls s0 = m_calls s \<Longrightarrow> emits pt t s0 s' = emits pt t s s'"
  by (simp add: emits_def)

lemma emits_upd [simp]:
  "emits pt t (s\<lparr>m_ttl := a\<rparr>) s' = emits pt t s s'"
  "emits pt t (s\<lparr>m_dds_ovr := b\<rparr>) s' = emits pt t s s'"
  "emits pt t (s\<lparr>m_dds_phase := c\<rparr>) s' = emits pt t s s'"
  "emits pt t s (s'\<lparr>m_dds_ovr := b\<rparr>) = emits pt t s s'"
  "emits pt t s (s'\<lparr>m_dds_pending_reset := d\<rparr>) = emits pt t s s'"
  "emits pt t s (s'\<lparr>m_cmd_waiting := e\<rparr>) = emits pt t s s'"
  "emits pt 0 s s"
  by (simp_all add: emits_def calls_time_def)

lemma timed_trans: "timed pt a rs rs' \<Longrightarrow> timed pt b rs' rs'' \<Longrightarrow> timed pt (a + b) rs rs''"
  unfolding timed_def
  by (intro conjI emits_trans [of pt a "snd rs" "snd rs'" b "snd rs''"]) (simp_all add: add.assoc)

lemma timed_from:
  "r_t r0 = r_t r \<Longrightarrow> m_calls s0 = m_calls s \<Longrightarrow> timed pt t (r0, s0) rs' = timed pt t (r, s) rs'"
  by (simp add: timed_def emits_def)

lemma issue_emits: "issue P c s = Inr s' \<Longrightarrow> emits pt (ucast (pulse_time pt c)) s s'"
  by (auto simp: issue_def p_do_def called_def emits_def calls_time_def)

lemma p_get_calls: "p_get f s = Inr (v, s') \<Longrightarrow> m_calls s' = m_calls s"
  by (auto simp: p_get_def)

lemma ucast_32_64:
  assumes "t < 2 ^ 32"
  shows "ucast (ucast (t :: u64) :: u32) = t"
proof -
  have "unat t < 2 ^ 32"
    using assms by (simp add: word_less_nat_alt)
  then show ?thesis
    by (simp add: word_unat_eq_iff unsigned_ucast_eq unsigned_take_bit_eq take_bit_nat_eq_self)
qed

lemma small_ucast:
  assumes "(t :: u64) \<le> 0xffffff + 100"
  shows "ucast (ucast t :: u32) = t" "ucast (ucast (t div 2) :: u32) = t div 2"
    "ucast (ucast (t - t div 2) :: u32) = t - t div 2"
proof -
  have t: "unat t \<le> 0xffffff + 100"
    using assms by (simp add: word_le_nat_alt)
  have h: "unat (t div 2) = unat t div 2"
    by (simp add: unat_div)
  then have "t div 2 \<le> t"
    by (simp add: word_le_nat_alt)
  then have "unat (t - t div 2) = unat t - unat t div 2"
    by (simp add: unat_sub h)
  then show "ucast (ucast t :: u32) = t" "ucast (ucast (t div 2) :: u32) = t div 2"
    "ucast (ucast (t - t div 2) :: u32) = t - t div 2"
    using t h by (simp_all add: ucast_32_64 word_less_nat_alt)
qed

section \<open>Waits\<close>

lemma output_waits_emits: "output_waits P checked t s = Inr s' \<Longrightarrow> emits pt t s s'"
proof (induction P checked t s rule: output_waits.induct)
  case (1 P checked t s)
  consider (long) "t > ucast max_wait_t + 100"
    | (mid) "\<not> t > ucast max_wait_t + 100" "t > ucast max_wait_t"
    | (short) "\<not> t > ucast max_wait_t + 100" "\<not> t > ucast max_wait_t"
    by blast
  then show ?case
  proof cases
    case long
    then obtain s1 where s1: "issue P (P_wait checked max_wait_t) s = Inr s1"
      "output_waits P checked (t - ucast max_wait_t) s1 = Inr s'"
      using "1.prems" by (subst (asm) output_waits.simps) auto
    show ?thesis
      using emits_trans [OF issue_emits [OF s1(1)] "1.IH" [OF long s1(2)]] by simp
  next
    case mid
    let ?h = "t div 2"
    note c = small_ucast [of t, OF mid(1) [unfolded max_wait_64 not_less]]
    obtain s1 where s1: "issue P (P_wait checked (ucast ?h)) s = Inr s1"
      "issue P (P_wait checked (ucast (t - ?h))) s1 = Inr s'"
      using "1.prems" mid by (subst (asm) output_waits.simps) (auto simp: Let_def)
    show ?thesis
      using emits_trans [OF issue_emits [OF s1(1)] issue_emits [OF s1(2)], of pt] by (simp add: c)
  next
    case short
    note c = small_ucast [of t, OF short(1) [unfolded max_wait_64 not_less]]
    show ?thesis
    proof (cases "t > 0")
      case True
      then have "issue P (P_wait checked (ucast t)) s = Inr s'"
        using "1.prems" short by (subst (asm) output_waits.simps) simp
      then show ?thesis
        using issue_emits [of P _ s s' pt] c(1) by fastforce
    next
      case False
      then have "t = 0"
        by (simp add: word_gt_0)
      then show ?thesis
        using "1.prems" short by (subst (asm) output_waits.simps) (auto intro: emits_same)
    qed
  qed
qed

lemma advance_timed:
  "advance E t c rs = Inr rs' \<Longrightarrow> ucast (pulse_time (e_pt E) c) = t \<Longrightarrow> timed (e_pt E) t rs rs'"
  by (cases rs) (auto simp: advance_def timed_def dest: issue_emits)

lemma output_wait_timed: "output_wait E checked t rs = Inr rs' \<Longrightarrow> timed (e_pt E) t rs rs'"
  by (cases rs) (auto simp: output_wait_def timed_def intro: output_waits_emits)

section \<open>Requests\<close>

lemma run_cmd_emits:
  assumes "run_cmd E checked cmd (r, s) = Inr ((stept, needs), (r', s'))"
  shows "emits (e_pt E) (ucast stept) s s' \<and> map_option r_t r' = map_option r_t r"
proof (cases "rc_opcode cmd")
  case TTL
  then show ?thesis
    using assms
    by (auto simp: run_cmd_def run_cmd_ttl_def Let_def update_preserve_ttl_def
        dest!: issue_emits [of _ _ _ _ "e_pt E"] split: option.splits)
next
  case DDSFreq
  then show ?thesis
    using assms
    by (auto simp: run_cmd_def keep_runner_def run_cmd_freq_def Let_def
        dest!: issue_emits [of _ _ _ _ "e_pt E"] intro: emits_same split: if_splits)
next
  case DDSAmp
  then show ?thesis
    using assms
    by (auto simp: run_cmd_def keep_runner_def run_cmd_amp_def Let_def
        dest!: issue_emits [of _ _ _ _ "e_pt E"] intro: emits_same split: if_splits)
next
  case DDSPhase
  then show ?thesis
    using assms
    by (auto simp: run_cmd_def keep_runner_def run_cmd_phase_def Let_def
        dest!: issue_emits [of _ _ _ _ "e_pt E"] intro: emits_same split: if_splits)
next
  case DDSReset
  then show ?thesis
    using assms by (auto simp: run_cmd_def keep_runner_def run_cmd_reset_def intro: emits_same)
next
  case Clock
  then show ?thesis
    using assms
    by (auto simp: run_cmd_def keep_runner_def run_cmd_clock_def
        dest!: issue_emits [of _ _ _ _ "e_pt E"])
qed

lemma finish_event_calls [simp]: "m_calls (finish_event E checked s) = m_calls s"
  by (simp add: finish_event_def finish_cmd_def backend_event_def Let_def)

lemma try_get_result_cases:
  assumes "try_get_result E checked s = Inr (b, s')"
  obtains (idle) "m_cmd_waiting s = None" "b = (False, False)" "s' = s"
    | (busy) a where "m_cmd_waiting s = Some a" "b = (True, False)"
        "p_get (p_try_get_result (e_P E)) s = Inr (None, s')"
    | (got) a v s1 cmd where "m_cmd_waiting s = Some a" "b = (True, True)"
        "p_get (p_try_get_result (e_P E)) s = Inr (Some v, s1)" "m_cmd_store s1 a = Some cmd"
        "s' = finish_event E checked
           (s1\<lparr>m_cmd_store := (m_cmd_store s1)(a \<mapsto> cmd\<lparr>rc_val := v\<rparr>), m_cmd_waiting := None\<rparr>)"
proof (cases "m_cmd_waiting s")
  case None
  then show ?thesis
    using assms by (intro idle) (simp_all add: try_get_result_def)
next
  case w: (Some a)
  then obtain g s1 where g: "p_get (p_try_get_result (e_P E)) s = Inr (g, s1)"
    using assms by (auto simp: try_get_result_def)
  show ?thesis
  proof (cases g)
    case None
    then show ?thesis
      using assms w g by (intro busy) (simp_all add: try_get_result_def)
  next
    case (Some v)
    then obtain cmd where "m_cmd_store s1 a = Some cmd"
      using assms w g by (cases "m_cmd_store s1 a") (simp_all add: try_get_result_def)
    then show ?thesis
      using assms w g Some by (intro got [of a v s1 cmd]) (simp_all add: try_get_result_def)
  qed
qed

lemma try_get_result_calls: "try_get_result E checked s = Inr (b, s') \<Longrightarrow> m_calls s' = m_calls s"
  by (erule try_get_result_cases) (auto dest: p_get_calls)

lemma process_reqcmd_emits:
  assumes "process_reqcmd E checked (r, s) = Inr ((stept, done), (r', s'))"
  shows "emits (e_pt E) (ucast stept) s s' \<and> map_option r_t r' = map_option r_t r \<and>
     (\<not> done \<longrightarrow> stept = 0)"
proof -
  obtain p q s1 where t: "try_get_result E checked s = Inr ((p, q), s1)"
    using assms by (auto simp: process_reqcmd_def)
  note same = try_get_result_calls [OF t]
  show ?thesis
    using assms same
    by (auto simp: process_reqcmd_def process_next_def t Let_def emits_from [OF same, symmetric] emits_def
        split: if_splits option.splits
        intro: emits_same dest!: run_cmd_emits) (auto simp: calls_time_def)
qed


section \<open>The runner keeps time\<close>

lemma release_first_timed:
  assumes "release_first E checked t (r, s) = Inr (t1, (r1, s1))"
  shows "timed (e_pt E) (t - t1) (r, s) (r1, s1)"
proof (cases "r_released r")
  case True
  then show ?thesis
    using assms by (simp add: release_first_def timed_def)
next
  case False
  then obtain s2 where *: "advance E 1000 (P_wait checked 1000) (r\<lparr>r_released := True\<rparr>, s) = Inr (r1, s2)"
    "ctrl_release_hold (e_P E) s2 = Inr s1" "t1 = t - 1000"
    using assms by (auto simp: release_first_def)
  have "timed (e_pt E) 1000 (r\<lparr>r_released := True\<rparr>, s) (r1, s2)"
    by (rule advance_timed [OF *(1)]) simp
  moreover have "timed (e_pt E) 0 (r1, s2) (r1, s1)"
    using *(2) by (auto simp: timed_def ctrl_release_hold_def p_do_def called_def emits_def calls_time_def)
  ultimately have "timed (e_pt E) (1000 + 0) (r\<lparr>r_released := True\<rparr>, s) (r1, s1)"
    by (rule timed_trans)
  then show ?thesis
    using *(3) by (simp add: timed_def)
qed

lemma wait_poll_timed:
  assumes "wait_poll E checked t (r, s) = Inr (t', rs')"
  shows "timed (e_pt E) (t - t') (r, s) rs'"
proof -
  obtain t1 r1 s1 where f: "release_first E checked t (r, s) = Inr (t1, (r1, s1))"
    using assms by (auto simp: wait_poll_def)
  obtain stept d r2 s2 where p: "process_reqcmd E checked (Some r1, s1) = Inr ((stept, d), (r2, s2))"
    using assms by (auto simp: wait_poll_def f)
  note pe = process_reqcmd_emits [OF p]
  obtain r3 where r3: "r2 = Some r3" "r_t r3 = r_t r1"
    using pe by (cases r2) auto
  let ?r4 = "if d then r3\<lparr>r_t := r_t r3 + ucast stept\<rparr> else r3"
  have eq: "t' = t1 - ucast stept" "rs' = (?r4, s2)"
    using assms pe by (auto simp: wait_poll_def f p r3(1) split: if_splits)
  have "timed (e_pt E) (ucast stept) (r1, s1) (?r4, s2)"
    using pe r3 by (auto simp: timed_def)
  from timed_trans [OF release_first_timed [OF f] this] show ?thesis
    by (simp only: eq diff_diff_eq2 add_diff_eq diff_add_eq)
qed

lemma wait_loop_timed:
  assumes "frontend_quiet E" and "wait_loop E checked fuel t rs = Inr rs'"
  shows "timed (e_pt E) t rs rs'"
  using assms(2)
proof (induction fuel arbitrary: t rs)
  case 0
  then show ?case by simp
next
  case (Suc fuel)
  obtain r s0 where rs: "rs = (r, s0)" by fastforce
  obtain tnow s where g: "getCoarseTime (e_frontend E s0) = (tnow, s)" by fastforce
  have same: "m_calls s = m_calls s0"
    using g assms(1) by (auto simp: getCoarseTime_def frontend_quiet_def)
  let ?seq = "r_start_t r + r_t r * 10" and ?thr = "tnow + r_min_t r"
  let ?m = "max ((?seq - ?thr) div 10) 10000"
  have *: "timed (e_pt E) t (r, s) rs'"
  proof (cases "?seq < ?thr")
    case late: True
    show ?thesis
    proof (cases "t \<le> ?m + 3000")
      case True
      then show ?thesis
        using Suc.prems late by (intro output_wait_timed [of E checked]) (simp add: rs g Let_def)
    next
      case False
      then obtain rs1 where rs1: "output_wait E checked ?m (r, s) = Inr rs1"
        "wait_loop E checked fuel (t - ?m) rs1 = Inr rs'"
        using Suc.prems late by (auto simp: rs g Let_def)
      show ?thesis
        using timed_trans [OF output_wait_timed [OF rs1(1)] Suc.IH [OF rs1(2)]] by simp
    qed
  next
    case False
    then obtain t' rs1 where p: "wait_poll E checked t (r, s) = Inr (t', rs1)"
      "wait_loop E checked fuel t' rs1 = Inr rs'"
      using Suc.prems by (auto simp: rs g Let_def)
    from timed_trans [OF wait_poll_timed [OF p(1)] Suc.IH [OF p(2)]] show ?thesis
      by simp
  qed
  then show ?case
    using same by (simp add: rs timed_def emits_def)
qed

lemma runner_wait_timed:
  assumes "frontend_quiet E" and "runner_wait E fuel checked t rs = Inr rs'"
  shows "timed (e_pt E) t rs rs'"
proof -
  obtain r s where rs: "rs = (r, s)" by fastforce
  consider (short) "\<not> r_process_cmd r" | (brief) "r_process_cmd r" "t < 2000"
    | (loop) "r_process_cmd r" "\<not> t < 2000"
    by blast
  then show ?thesis
  proof cases
    case short
    then show ?thesis
      using assms(2) by (intro output_wait_timed [of E checked]) (simp add: rs runner_wait_def)
  next
    case brief
    then have "t \<le> 0xffffff + 100"
      by (simp add: word_le_nat_alt word_less_nat_alt)
    then show ?thesis
      using assms(2) brief small_ucast(1) [of t]
      by (intro advance_timed [of E _ "P_wait checked (ucast t)"]) (simp_all add: rs runner_wait_def)
  next
    case loop
    then show ?thesis
      using assms(2) by (intro wait_loop_timed [OF assms(1), of checked fuel]) (simp add: rs runner_wait_def)
  qed
qed

text \<open>The time a call of the sequence stands for.\<close>

fun nominal :: "pulse_times \<Rightarrow> runner_call \<Rightarrow> u64" where
  "nominal pt (R_ttl1 chn v t) = t"
| "nominal pt (R_ttl v t bank) = t"
| "nominal pt (R_dds_freq chn v) = ucast (PT_DDSFreq pt)"
| "nominal pt (R_dds_amp chn v) = ucast (PT_DDSAmp pt)"
| "nominal pt (R_dds_phase chn v) = ucast (PT_DDSPhase pt)"
| "nominal pt (R_dds_detphase chn v) = ucast (PT_DDSPhase pt)"
| "nominal pt (R_dac chn v) = ucast (PT_DAC pt)"
| "nominal pt (R_clock v) = ucast (PT_Clock pt)"
| "nominal pt (R_wait t) = t"
| "nominal pt (R_wait_trigger chn v t) = 0"

fun is_trigger :: "runner_call \<Rightarrow> bool" where
  "is_trigger (R_wait_trigger chn v t) = True"
| "is_trigger _ = False"

lemma runner_ttl_timed:
  assumes "frontend_quiet E" and "runner_ttl E fuel ttl t bank rs = Inr rs'"
  shows "timed (e_pt E) t rs rs'"
proof -
  obtain r s where rs: "rs = (r, s)" by fastforce
  obtain keep ts where k: "nthI (r_preserve_ttl r) bank = Inr keep"
    "updI (m_ttl s) bank (ttl OR keep) = Inr ts"
    using assms(2) by (auto simp: runner_ttl_def rs)
  let ?s = "s\<lparr>m_ttl := ts\<rparr>"
  have "timed (e_pt E) t (r, ?s) rs'"
  proof (cases "t \<le> 1000")
    case True
    then have "t \<le> 0xffffff + 100"
      by (simp add: word_le_nat_alt)
    then show ?thesis
      using assms(2) True small_ucast(1) [of t]
      by (intro advance_timed [of E _ "P_ttl True (ttl OR keep) (ucast t) bank"])
         (simp_all add: rs runner_ttl_def k Let_def)
  next
    case False
    then obtain rs1 where rs1: "advance E 100 (P_ttl True (ttl OR keep) 100 bank) (r, ?s) = Inr rs1"
      "runner_wait E fuel True (t - 100) rs1 = Inr rs'"
      using assms(2) by (auto simp: rs runner_ttl_def k Let_def)
    have "timed (e_pt E) 100 (r, ?s) rs1"
      by (rule advance_timed [OF rs1(1)]) simp
    from timed_trans [OF this runner_wait_timed [OF assms(1) rs1(2)]] show ?thesis
      by simp
  qed
  then show ?thesis
    by (simp add: rs timed_def)
qed

lemma runner_dds_phase_timed:
  assumes "frontend_quiet E" and "runner_dds_phase E fuel chn v rs = Inr rs'"
  shows "timed (e_pt E) (ucast (PT_DDSPhase (e_pt E))) rs rs'"
proof (cases rs)
  case (Pair r s)
  show ?thesis
    using assms(2)
    by (auto simp: Pair runner_dds_phase_def intro: runner_wait_timed [OF assms(1)]
        dest!: advance_timed split: if_splits) (simp add: timed_def)
qed

lemma run_call_timed:
  assumes "frontend_quiet E" and "\<not> is_trigger c" and "run_call E fuel c rs = Inr rs'"
  shows "timed (e_pt E) (nominal (e_pt E) c) rs rs'"
proof (cases rs)
  case (Pair r s)
  show ?thesis
    using assms(2,3) unfolding Pair
    by (cases c)
       (auto simp: runner_ttl1_def runner_dds_freq_def runner_dds_amp_def runner_dds_detphase_def
         runner_dac_def runner_clock_def Let_def split: if_splits
         intro: runner_ttl_timed [OF assms(1)] runner_wait_timed [OF assms(1)]
           runner_dds_phase_timed [OF assms(1)]
         dest!: advance_timed)
qed

lemma run_calls_timed:
  assumes "frontend_quiet E" and "\<forall>c \<in> set cs. \<not> is_trigger c"
    and "foldR (run_call E fuel) cs rs = Inr rs'"
  shows "timed (e_pt E) (\<Sum>c\<leftarrow>cs. nominal (e_pt E) c) rs rs'"
  using assms(2,3)
proof (induction cs arbitrary: rs)
  case Nil
  then show ?case by (simp add: timed_def)
next
  case (Cons c cs)
  then obtain rs1 where rs1: "run_call E fuel c rs = Inr rs1" "foldR (run_call E fuel) cs rs1 = Inr rs'"
    by auto
  have "timed (e_pt E) (nominal (e_pt E) c) rs rs1"
    using Cons.prems run_call_timed [OF assms(1) _ rs1(1)] by simp
  from timed_trans [OF this Cons.IH [OF _ rs1(2)]] show ?case
    using Cons.prems by simp
qed


section \<open>The pieces of a wait\<close>

lemma issue_calls: "issue P c s = Inr s' \<Longrightarrow> m_calls s' = m_calls s @ [Issue c]"
  by (auto simp: issue_def p_do_def called_def)

definition waits :: "bool \<Rightarrow> u32 list \<Rightarrow> port_call list" where
  "waits checked ts = map (\<lambda>x. Issue (P_wait checked x)) ts"

definition pieces_of :: "u32 list \<Rightarrow> u64 \<Rightarrow> bool" where
  "pieces_of ts t \<longleftrightarrow> (\<forall>x \<in> set ts. 0 < x \<and> x \<le> max_wait_t) \<and> (\<Sum>x\<leftarrow>ts. unat x) = unat t"

lemma unat_ucast_small: "unat (x :: u64) < 2 ^ 32 \<Longrightarrow> unat (ucast x :: u32) = unat x"
  by (simp add: unsigned_ucast_eq unsigned_take_bit_eq take_bit_nat_eq_self)

lemma pieces_half:
  assumes "\<not> (t :: u64) > ucast max_wait_t + 100" and "t > ucast max_wait_t"
  shows "pieces_of [ucast (t div 2), ucast (t - t div 2)] t"
proof -
  have t: "unat t \<le> 0xffffff + 100" "unat t > 0xffffff"
    using assms by (simp_all add: max_wait_64 word_le_nat_alt word_less_nat_alt not_less)
  have h: "unat (t div 2) = unat t div 2"
    by (simp add: unat_div)
  then have "t div 2 \<le> t"
    by (simp add: word_le_nat_alt)
  then have r: "unat (t - t div 2) = unat t - unat t div 2"
    by (simp add: unat_sub h)
  have "unat t div 2 \<le> 16777215" "unat t - unat t div 2 \<le> 16777215"
    using t(1) by linarith+
  then show ?thesis
    using t h r unat_ucast_small [of "t div 2"] unat_ucast_small [of "t - t div 2"]
    by (simp add: pieces_of_def max_wait_t_eq word_less_nat_alt word_le_nat_alt)
qed

lemma output_waits_pieces:
  "output_waits P checked t s = Inr s' \<Longrightarrow>
   \<exists>ts. m_calls s' = m_calls s @ waits checked ts \<and> pieces_of ts t"
proof (induction P checked t s rule: output_waits.induct)
  case (1 P checked t s)
  show ?case
  proof (cases "t > ucast max_wait_t + 100")
    case long: True
    then obtain s1 where s1: "issue P (P_wait checked max_wait_t) s = Inr s1"
      "output_waits P checked (t - ucast max_wait_t) s1 = Inr s'"
      using "1.prems" by (subst (asm) output_waits.simps) auto
    obtain ts where ts: "m_calls s' = m_calls s1 @ waits checked ts" "pieces_of ts (t - ucast max_wait_t)"
      using "1.IH" [OF long s1(2)] by blast
    have le: "(0xffffff :: u64) \<le> t"
      using long by (simp add: max_wait_64 word_le_nat_alt word_less_nat_alt)
    have "pieces_of (max_wait_t # ts) t"
      using ts(2) le by (simp add: pieces_of_def max_wait_64 max_wait_t_eq unat_sub word_le_nat_alt)
    then show ?thesis
      using ts(1) issue_calls [OF s1(1)] by (intro exI [of _ "max_wait_t # ts"]) (simp add: waits_def)
  next
    case f: False
    show ?thesis
    proof (cases "t > ucast max_wait_t")
      case True
      then have "m_calls s' = m_calls s @ waits checked [ucast (t div 2), ucast (t - t div 2)]"
        using "1.prems" f by (subst (asm) output_waits.simps) (auto simp: Let_def waits_def dest!: issue_calls)
      then show ?thesis
        using pieces_half [OF f True] by blast
    next
      case g: False
      have small: "unat t \<le> 0xffffff"
        using g by (simp add: max_wait_64 word_le_nat_alt not_less)
      show ?thesis
      proof (cases "t = 0")
        case True
        then show ?thesis
          using "1.prems" by (subst (asm) output_waits.simps)
            (auto simp: waits_def pieces_of_def intro: exI [of _ "[]"])
      next
        case False
        then have "m_calls s' = m_calls s @ waits checked [ucast t]"
          using "1.prems" f g by (subst (asm) output_waits.simps)
            (auto simp: waits_def word_gt_0 dest!: issue_calls)
        moreover have "pieces_of [ucast t] t"
          using small False unat_ucast_small [of t]
          by (simp add: pieces_of_def max_wait_t_eq word_less_nat_alt word_le_nat_alt unat_gt_0)
        ultimately show ?thesis by blast
      qed
    qed
  qed
qed


section \<open>Properties\<close>


definition demo_calls :: "runner_call list" where
  "demo_calls = [R_ttl 5 50 0, R_dds_freq 3 1000, R_wait 300]"

definition demo_runner :: runner where
  "demo_runner = \<lparr>r_ttlmask = replicate 8 0, r_preserve_ttl = replicate 8 0, r_t = 0, r_start_t = 0,
     r_min_t = 500000000, r_process_cmd = False, r_released = False\<rparr>"

lemma output_waits_hw:
  assumes "0 < t" and "t \<le> ucast max_wait_t"
  shows "\<exists>h. output_waits (pulser_ops reg_file 0) c t s =
     Inr (s\<lparr>m_calls := m_calls s @ [Issue (P_wait c (ucast t))], m_p := h\<rparr>)"
proof -
  have t: "unat t \<le> 0xffffff"
    using assms(2) by (simp add: max_wait_64 word_le_nat_alt)
  then have v: "valid_pulse (P_wait c (ucast t))"
    using unat_ucast_small [of t] by (simp add: max_wait_t_eq word_le_nat_alt)
  have "\<not> t > ucast max_wait_t + 100" "\<not> t > ucast max_wait_t"
    using t by (simp_all add: max_wait_64 word_less_nat_alt)
  then show ?thesis
    using assms(1) by (subst output_waits.simps) (auto simp: issue_hw [OF v])
qed

lemma demo_calls_run:
  "\<exists>r' s'. foldR (run_call hw_env 0) demo_calls (demo_runner, fresh_hw) = Inr (r', s')"
proof -
  have init: "m_dds_ovr fresh_hw = replicate 22 DDSState_init" "m_ttl fresh_hw = replicate 8 0"
    by (simp_all add: fresh_hw_def controller_fields_def bank_simps)
  have v: "valid_pulse (P_ttl True 5 50 0)" "valid_pulse (P_dds_set_freq True 3 1000)"
    by (simp_all add: bank_simps max_wait_t_eq)
  define s2 where "s2 = (fresh_hw\<lparr>m_ttl := (replicate 8 0)[0 := 5],
      m_calls := m_calls fresh_hw @ [Issue (P_ttl True 5 50 0), Issue (P_dds_set_freq True 3 1000)],
      m_p := (m_p fresh_hw)(31 := ctrl_word (P_dds_set_freq True 3 1000))\<rparr>)"
  have 1: "foldR (run_call hw_env 0) [R_ttl 5 50 0, R_dds_freq 3 1000] (demo_runner, fresh_hw) =
      Inr (demo_runner\<lparr>r_t := 100\<rparr>, s2)"
    by (simp add: demo_runner_def runner_ttl_def nthI_def updI_def advance_def s2_def
        issue_hw [OF v(1)] issue_hw [OF v(2)] init runner_dds_freq_def DDSState_init_def unit_times_def)
  obtain h where "output_waits (pulser_ops reg_file 0) True 300 s2 = Inr h"
    using output_waits_hw [of 300 True s2] by (auto simp: max_wait_64)
  then have 2: "runner_wait hw_env 0 True 300 (demo_runner\<lparr>r_t := 100\<rparr>, s2) =
      Inr (demo_runner\<lparr>r_t := 400\<rparr>, h)"
    by (simp add: runner_wait_def output_wait_def demo_runner_def)
  have "demo_calls = [R_ttl 5 50 0, R_dds_freq 3 1000] @ [R_wait 300]"
    by (simp add: demo_calls_def)
  note eq = this
  show ?thesis
    unfolding eq foldR_append 1 bindR_simps using 2 by simp
qed


text \<open>
  C9: a wait of any length is cut into instructions that fit the 24 bit time field: every piece
  is positive and at most \<open>max_wait_t\<close>, and together they take exactly the time asked for.
\<close>

theorem output_wait_pieces:
  assumes "output_wait E checked t (r, s) = Inr (r', s')"
  shows "\<exists>ts. m_calls s' = m_calls s @ map (\<lambda>x. Issue (P_wait checked x)) ts \<and>
     (\<forall>x \<in> set ts. 0 < x \<and> x \<le> max_wait_t) \<and> (\<Sum>x\<leftarrow>ts. unat x) = unat t"
  using assms output_waits_pieces [of "e_P E" checked t s s']
  by (auto simp: output_wait_def waits_def pieces_of_def)

theorem output_wait_pieces_witness:
  "\<exists>r' s' ts. output_wait hw_env True 300 (demo_runner, fresh_hw) = Inr (r', s') \<and>
     m_calls s' = m_calls fresh_hw @ map (\<lambda>x. Issue (P_wait True x)) ts \<and> (\<Sum>x\<leftarrow>ts. unat x) = 300"
proof -
  obtain r' s' where "output_wait hw_env True 300 (demo_runner, fresh_hw) = Inr (r', s')"
    using output_waits_hw [of 300 True fresh_hw] by (auto simp: output_wait_def max_wait_64)
  from output_wait_pieces [OF this] this show ?thesis
    by force
qed


end
