(* ===== verification/Controller_Safety.thy ===== *)
theory Controller_Safety
  imports Controller_Timing
begin

unbundle bit_operations_syntax

text \<open>
  The worker of \<^verbatim>\<open>lib/controller.cpp\<close> never fails: no assertion, no access outside an array and no
  exception, for every request the frontend can queue and every sequence whose calls are in range,
  whatever the clock reads and whatever the other threads do in between. The facts are proved for
  every pulser that meets the contract \<open>pulser_port\<close>.
\<close>

section \<open>Invariant\<close>

text \<open>The requests that the frontend queues.\<close>

definition valid_req :: "ReqCmd \<Rightarrow> bool" where
  "valid_req cmd =
     (case rc_opcode cmd of
        TTL \<Rightarrow> \<not> rc_has_res cmd \<and> \<not> rc_is_override cmd \<and>
          unat (drop_bit 2 (rc_operand cmd)) < NUM_TTL_BANKS
      | DDSReset \<Rightarrow> \<not> rc_is_override cmd \<and> \<not> rc_has_res cmd \<and> rc_val cmd = 0 \<and>
          unat (rc_operand cmd) < NDDS
      | Clock \<Rightarrow> \<not> rc_is_override cmd \<and> \<not> rc_has_res cmd \<and> rc_operand cmd = 0
      | _ \<Rightarrow> unat (rc_operand cmd) < NDDS \<and> (rc_is_override cmd \<longrightarrow> \<not> rc_has_res cmd))"

definition valid_seq :: "'nt ReqSeq \<Rightarrow> bool" where
  "valid_seq seq \<longleftrightarrow> length (rs_ttl_mask seq) = NUM_TTL_BANKS \<and>
     (rs_ver seq = 1 \<or> rs_ver seq = 2 \<or> rs_ver seq = 3)"

definition ctrl_shape :: "('q, 'cb, 'nt, 'p) controller \<Rightarrow> bool" where
  "ctrl_shape s \<longleftrightarrow>
     length (m_dds_ovr s) = NDDS \<and> length (m_ttl s) = NUM_TTL_BANKS \<and>
     length (m_dds_phase s) = NDDS \<and> length (m_dds_pending_reset s) = NDDS \<and>
     length (m_dds_exist s) = NDDS"

text \<open>
  Every queued request is valid and allocated, and the command whose result is awaited is the one
  at the head of the queue, so that \<^verbatim>\<open>finish_cmd\<close> finishes that one. \<open>cur\<close> is the sequence that is
  running.
\<close>

definition queues_ok ::
  "('q \<Rightarrow> addr list) \<Rightarrow> addr option \<Rightarrow> ('q, 'cb, 'nt, 'p) controller \<Rightarrow> bool" where
  "queues_ok pend cur s \<longleftrightarrow>
     (\<forall>a \<in> set (pend (m_cmd_queue s)). \<exists>cmd. m_cmd_store s a = Some cmd \<and> valid_req cmd) \<and>
     (\<forall>a \<in> set (pend (m_seq_queue s)). \<exists>seq. m_seq_store s a = Some seq \<and> valid_seq seq) \<and>
     distinct (pend (m_cmd_queue s)) \<and>
     (\<forall>a. m_cmd_waiting s = Some a \<longrightarrow> head_opt (pend (m_cmd_queue s)) = Some a) \<and>
     (\<forall>a. cur = Some a \<longrightarrow> head_opt (pend (m_seq_queue s)) = Some a)"

definition ctrl_ok ::
  "('p \<Rightarrow> bool) \<Rightarrow> ('q \<Rightarrow> addr list) \<Rightarrow> addr option \<Rightarrow> ('q, 'cb, 'nt, 'p) controller \<Rightarrow> bool" where
  "ctrl_ok I pend cur s \<longleftrightarrow> I (m_p s) \<and> ctrl_shape s \<and> queues_ok pend cur s"

definition runner_ok :: "runner \<Rightarrow> bool" where
  "runner_ok r \<longleftrightarrow> length (r_ttlmask r) = NUM_TTL_BANKS \<and> length (r_preserve_ttl r) = NUM_TTL_BANKS"

text \<open>What the backend relies on from the other threads, the queue and the constants.\<close>

definition env_ok ::
  "('p \<Rightarrow> bool) \<Rightarrow> ('q \<Rightarrow> addr list) \<Rightarrow> ('q \<Rightarrow> addr list) \<Rightarrow> ('q, 'cb, 'nt, 'p) ctrl_env \<Rightarrow> bool" where
  "env_ok I fin pend E \<longleftrightarrow>
     fqueue_laws (e_Q E) fin pend \<and> PT_Min (e_pt E) \<le> max_wait_t \<and>
     (\<forall>cur s. ctrl_ok I pend cur s \<longrightarrow>
        ctrl_ok I pend cur (e_frontend E s) \<and> m_cmd_waiting (e_frontend E s) = m_cmd_waiting s)"

lemma env_okD:
  assumes "env_ok I fin pend E"
  shows "fqueue_laws (e_Q E) fin pend" "PT_Min (e_pt E) \<le> max_wait_t"
    "ctrl_ok I pend cur s \<Longrightarrow> ctrl_ok I pend cur (e_frontend E s)"
    "ctrl_ok I pend cur s \<Longrightarrow> m_cmd_waiting (e_frontend E s) = m_cmd_waiting s"
  using assms by (auto simp: env_ok_def)

section \<open>Calls on the pulser\<close>

text \<open>Steps that leave everything but the pulser and the log alone.\<close>

definition quiet ::
  "('q, 'cb, 'nt, 'p) controller \<Rightarrow> ('q, 'cb, 'nt, 'p) controller \<Rightarrow> bool" where
  "quiet s s' \<longleftrightarrow> m_cmd_waiting s' = m_cmd_waiting s \<and> m_cmd_queue s' = m_cmd_queue s \<and>
     m_seq_queue s' = m_seq_queue s \<and> m_cmd_store s' = m_cmd_store s \<and>
     m_seq_store s' = m_seq_store s"

lemma quiet_refl [simp]: "quiet s s"
  by (simp add: quiet_def)

lemma quiet_trans: "quiet a b \<Longrightarrow> quiet b c \<Longrightarrow> quiet a c"
  by (simp add: quiet_def)

lemma quiet_queues: "quiet s s' \<Longrightarrow> queues_ok pend cur s' = queues_ok pend cur s"
  by (simp add: quiet_def queues_ok_def)

lemma ctrl_ok_quiet:
  "ctrl_ok I pend cur s \<Longrightarrow> quiet s s' \<Longrightarrow> I (m_p s') \<Longrightarrow> ctrl_shape s' \<Longrightarrow> ctrl_ok I pend cur s'"
  by (simp add: ctrl_ok_def quiet_queues)

lemma ctrl_okD:
  assumes "ctrl_ok I pend cur s"
  shows "I (m_p s)" "ctrl_shape s" "queues_ok pend cur s"
  using assms by (simp_all add: ctrl_ok_def)

text \<open>The post-condition of a call that only touches the pulser.\<close>

definition port_post ::
  "('p \<Rightarrow> bool) \<Rightarrow> ('q, 'cb, 'nt, 'p) controller \<Rightarrow> ('q, 'cb, 'nt, 'p) controller \<Rightarrow> bool" where
  "port_post I s s' \<longleftrightarrow> I (m_p s') \<and> quiet s s' \<and> m_ttl s' = m_ttl s \<and>
     m_dds_ovr s' = m_dds_ovr s \<and> m_dds_phase s' = m_dds_phase s \<and>
     m_dds_pending_reset s' = m_dds_pending_reset s \<and> m_dds_exist s' = m_dds_exist s"

lemma port_post_ok:
  "ctrl_ok I pend cur s \<Longrightarrow> port_post I s s' \<Longrightarrow> ctrl_ok I pend cur s'"
  by (rule ctrl_ok_quiet [of I pend cur s]) (simp_all add: port_post_def ctrl_ok_def ctrl_shape_def)

lemma p_get_okR:
  assumes "\<exists>v p'. f (m_p s) = Inr (v, p') \<and> I p'"
  shows "okR (p_get f s) (\<lambda>(v, s'). port_post I s s')"
  using assms by (auto simp: p_get_def port_post_def quiet_def)

lemma p_do_okR:
  assumes "\<exists>p'. f (m_p s) = Inr p' \<and> I p'"
  shows "okR (p_do f s) (port_post I s)"
  using assms by (auto simp: p_do_def port_post_def quiet_def)

lemma called_post [simp]:
  "port_post I (called c s) = port_post I s" "m_p (called c s) = m_p s"
  by (simp_all add: called_def port_post_def quiet_def fun_eq_iff)

lemma port_post_trans: "port_post I a b \<Longrightarrow> port_post I b c \<Longrightarrow> port_post I a c"
  by (auto simp: port_post_def intro: quiet_trans)

lemma port_post_refl: "I (m_p s) \<Longrightarrow> port_post I s s"
  by (simp add: port_post_def)

section \<open>Requests\<close>

text \<open>What a request may change of the runner.\<close>

definition runner_like :: "runner \<Rightarrow> runner \<Rightarrow> bool" where
  "runner_like r r' \<longleftrightarrow> r_released r' = r_released r \<and> r_process_cmd r' = r_process_cmd r \<and>
     r_ttlmask r' = r_ttlmask r \<and> length (r_preserve_ttl r') = length (r_preserve_ttl r)"

lemma runner_like_refl [simp]: "runner_like r r" "rel_option runner_like x x"
  by (simp_all add: runner_like_def option.rel_refl)

lemma runner_like_ok: "runner_like r r' \<Longrightarrow> runner_ok r \<Longrightarrow> runner_ok r'"
  by (simp add: runner_like_def runner_ok_def)

definition req_post ::
  "('p \<Rightarrow> bool) \<Rightarrow> ('q, 'cb, 'nt, 'p) controller \<Rightarrow> ('q, 'cb, 'nt, 'p) controller \<Rightarrow> bool" where
  "req_post I s s' \<longleftrightarrow> I (m_p s') \<and> ctrl_shape s' \<and> quiet s s'"

lemmas req_post_simps = req_post_def port_post_def ctrl_shape_def quiet_def

lemma finish_event_ok:
  assumes ok: "ctrl_ok I pend cur s" and laws: "fqueue_laws (e_Q E) fin pend"
    and w: "m_cmd_waiting s = None" and ne: "pend (m_cmd_queue s) \<noteq> []"
  shows "ctrl_ok I pend cur (finish_event E checked s)"
proof -
  obtain a as where a: "pend (m_cmd_queue s) = a # as"
    using ne by (cases "pend (m_cmd_queue s)") auto
  have "pend (fq_forward_filter (e_Q E) (m_cmd_queue s)) = as"
    by (rule fqueue_lawsD(10) [OF laws a])
  then show ?thesis
    using ok w a
    by (auto simp: ctrl_ok_def queues_ok_def ctrl_shape_def finish_event_def finish_cmd_def
        backend_event_def Let_def)
qed

text \<open>Storing the result of the awaited command and finishing it.\<close>

lemma store_result_ok:
  assumes ok: "ctrl_ok I pend cur s" and laws: "fqueue_laws (e_Q E) fin pend"
    and w: "head_opt (pend (m_cmd_queue s)) = Some a"
  shows "ctrl_ok I pend cur (finish_event E checked
     (s\<lparr>m_cmd_store := (m_cmd_store s)(a \<mapsto> cmd), m_cmd_waiting := None\<rparr>))"
proof -
  obtain as where a: "pend (m_cmd_queue s) = a # as"
    using w by (auto simp: head_opt_eq_Some)
  have "pend (fq_forward_filter (e_Q E) (m_cmd_queue s)) = as"
    by (rule fqueue_lawsD(10) [OF laws a])
  then show ?thesis
    using ok a
    by (auto simp: ctrl_ok_def queues_ok_def ctrl_shape_def finish_event_def finish_cmd_def
        backend_event_def Let_def)
qed

context pulser_port
begin

lemma issue_totR:
  assumes "inv (m_p s)" and "valid_pulse c"
  shows "totR (issue P c s) (port_post inv s)"
  using pulse [OF assms] by (auto simp: issue_def p_do_def called_def port_post_def quiet_def)

lemmas issue_okR = totR_okR [OF issue_totR]

lemma release_hold_okR: "inv (m_p s) \<Longrightarrow> okR (ctrl_release_hold P s) (port_post inv s)"
  using p_do_okR [of "p_release_hold P" "called ReleaseHold s" inv] release_hold [of "m_p s"]
  by (simp add: ctrl_release_hold_def)

lemma issue_then:
  assumes "inv (m_p s)" and "valid_pulse c" and "\<And>s'. port_post inv s s' \<Longrightarrow> Q (g s')"
  shows "okR (bindR (issue P c s) (\<lambda>s'. Inr (g s'))) Q"
  using okR_bind [OF issue_okR [OF assms(1,2)], of "\<lambda>s'. Inr (g s')" Q] assms(3) by simp

lemma run_cmd_dds_okR:
  assumes "inv (m_p s)" and sh: "ctrl_shape s" and "valid_req cmd" and P: "e_P E = P"
  shows "rc_opcode cmd = DDSFreq \<Longrightarrow> okR (run_cmd_freq E checked cmd s) (\<lambda>(_, s'). req_post inv s s')"
    "rc_opcode cmd = DDSAmp \<Longrightarrow> okR (run_cmd_amp E checked cmd s) (\<lambda>(_, s'). req_post inv s s')"
    "rc_opcode cmd = DDSPhase \<Longrightarrow> okR (run_cmd_phase E checked cmd s) (\<lambda>(_, s'). req_post inv s s')"
proof -
  have len: "length (m_dds_ovr s) = 22" "length (m_dds_phase s) = 22"
    using sh by (simp_all add: ctrl_shape_def NDDS_def)
  have c: "chn_ok (uint (rc_operand cmd))" if "unat (rc_operand cmd) < 22"
    using that unfolding chn_ok_def NDDS_def uint_nat by linarith
  show "rc_opcode cmd = DDSFreq \<Longrightarrow> okR (run_cmd_freq E checked cmd s) (\<lambda>(_, s'). req_post inv s s')"
    using assms(1-3) len c
    by (auto simp: P run_cmd_freq_def valid_req_def NDDS_def Let_def req_post_simps intro!: issue_then)
  show "rc_opcode cmd = DDSAmp \<Longrightarrow> okR (run_cmd_amp E checked cmd s) (\<lambda>(_, s'). req_post inv s s')"
    using assms(1-3) len c
    by (auto simp: P run_cmd_amp_def valid_req_def NDDS_def Let_def req_post_simps intro!: issue_then)
  show "rc_opcode cmd = DDSPhase \<Longrightarrow> okR (run_cmd_phase E checked cmd s) (\<lambda>(_, s'). req_post inv s s')"
    using assms(1-3) len c
    by (auto simp: P run_cmd_phase_def valid_req_def NDDS_def Let_def req_post_simps intro!: issue_then)
qed

lemma run_cmd_okR:
  assumes ok: "inv (m_p s)" "ctrl_shape s" and v: "valid_req cmd" and P: "e_P E = P"
    and m: "PT_Min (e_pt E) \<le> max_wait_t" and r: "\<forall>r0. r = Some r0 \<longrightarrow> runner_ok r0"
  shows "okR (run_cmd E checked cmd (r, s))
     (\<lambda>(_, (r', s')). req_post inv s s' \<and> rel_option runner_like r r')"
proof -
  have keep: "okR (keep_runner r m) (\<lambda>(_, (r', s')). req_post inv s s' \<and> rel_option runner_like r r')"
    if "okR m (\<lambda>(_, s'). req_post inv s s')" for m
    using that by (cases m) (auto simp: keep_runner_def)
  show ?thesis
  proof (cases "rc_opcode cmd")
    case TTL
    let ?b = "unat (drop_bit 2 (rc_operand cmd))"
    have b: "?b < 8" "bank_ok (int ?b)"
      using v TTL unfolding valid_req_def bank_ok_def NUM_TTL_BANKS_def by (auto simp del: of_nat_unat)
    show ?thesis
      using TTL ok v b m r
      by (cases r)
         (auto simp: run_cmd_def run_cmd_ttl_def P Let_def update_preserve_ttl_def runner_ok_def
           req_post_simps runner_like_def NUM_TTL_BANKS_def valid_req_def intro!: issue_then)
  next
    case DDSFreq
    then show ?thesis
      using keep [OF run_cmd_dds_okR(1) [OF ok v P]] by (simp add: run_cmd_def)
  next
    case DDSAmp
    then show ?thesis
      using keep [OF run_cmd_dds_okR(2) [OF ok v P]] by (simp add: run_cmd_def)
  next
    case DDSPhase
    then show ?thesis
      using keep [OF run_cmd_dds_okR(3) [OF ok v P]] by (simp add: run_cmd_def)
  next
    case DDSReset
    have "okR (run_cmd_reset cmd s) (\<lambda>(_, s'). req_post inv s s')"
      using DDSReset v ok by (auto simp: run_cmd_reset_def valid_req_def NDDS_def req_post_simps)
    from keep [OF this] show ?thesis
      using DDSReset by (simp add: run_cmd_def)
  next
    case Clock
    have "okR (run_cmd_clock E checked cmd s) (\<lambda>(_, s'). req_post inv s s')"
      using Clock v ok by (auto simp: run_cmd_clock_def valid_req_def P req_post_simps intro!: issue_then)
    from keep [OF this] show ?thesis
      using Clock by (simp add: run_cmd_def)
  qed
qed

lemma try_get_result_okR:
  assumes ok: "ctrl_ok inv pend cur s" and laws: "fqueue_laws (e_Q E) fin pend" and P: "e_P E = P"
  shows "okR (try_get_result E checked s) (\<lambda>(_, s'). ctrl_ok inv pend cur s')"
proof (cases "m_cmd_waiting s")
  case None
  then show ?thesis
    using ok by (simp add: try_get_result_def)
next
  case (Some a)
  then have hd: "head_opt (pend (m_cmd_queue s)) = Some a"
    using ok by (simp add: ctrl_ok_def queues_ok_def)
  obtain g p where g: "p_try_get_result P (m_p s) = Inr (g, p)" "inv p"
    using try_get_result [OF ctrl_okD(1) [OF ok]] by blast
  let ?s = "s\<lparr>m_p := p\<rparr>"
  have ok1: "ctrl_ok inv pend cur ?s"
    using ok g(2) by (simp add: ctrl_ok_def queues_ok_def ctrl_shape_def)
  obtain cmd where "m_cmd_store s a = Some cmd"
    using ok hd by (auto simp: ctrl_ok_def queues_ok_def head_opt_eq_Some)
  then show ?thesis
    using Some g P ok1 store_result_ok [OF ok1 laws, of a] hd
    by (simp add: try_get_result_def p_get_def split: option.splits)
qed

lemma process_next_okR:
  assumes ok: "ctrl_ok inv pend cur s" and E: "env_ok inv fin pend E" and P: "e_P E = P"
    and r: "\<forall>r0. r = Some r0 \<longrightarrow> runner_ok r0"
    and w: "m_cmd_waiting s = None" and a: "pend (m_cmd_queue s) = a # as"
  shows "okR (process_next E checked a (r, s))
     (\<lambda>(_, (r', s')). ctrl_ok inv pend cur s' \<and> rel_option runner_like r r')"
proof -
  obtain cmd where cmd: "m_cmd_store s a = Some cmd" "valid_req cmd"
    using ok a by (auto simp: ctrl_ok_def queues_ok_def)
  have post: "ctrl_ok inv pend cur (s2\<lparr>m_cmd_waiting := Some a\<rparr>)"
    "ctrl_ok inv pend cur (finish_event E checked s2)" if s2: "req_post inv s s2" for s2
  proof -
    have ok2: "ctrl_ok inv pend cur s2" "m_cmd_waiting s2 = None" "pend (m_cmd_queue s2) = a # as"
      using s2 ok w a ctrl_ok_quiet [OF ok] by (auto simp: req_post_def quiet_def)
    show "ctrl_ok inv pend cur (s2\<lparr>m_cmd_waiting := Some a\<rparr>)"
      using ok2 by (auto simp: ctrl_ok_def queues_ok_def ctrl_shape_def)
    show "ctrl_ok inv pend cur (finish_event E checked s2)"
      using finish_event_ok [OF ok2(1) env_okD(1) [OF E] ok2(2)] ok2(3) by simp
  qed
  show ?thesis
    unfolding process_next_def prod.case cmd(1) option.case
    by (rule okR_bind [OF run_cmd_okR [OF ctrl_okD(1,2) [OF ok] cmd(2) P env_okD(2) [OF E] r]])
       (auto intro: post)
qed

lemma process_reqcmd_okR:
  assumes ok: "ctrl_ok inv pend cur s" and E: "env_ok inv fin pend E" and P: "e_P E = P"
    and r: "\<forall>r0. r = Some r0 \<longrightarrow> runner_ok r0"
  shows "okR (process_reqcmd E checked (r, s))
     (\<lambda>(_, (r', s')). ctrl_ok inv pend cur s' \<and> rel_option runner_like r r')"
  unfolding process_reqcmd_def prod.case
  by (rule okR_bind [OF try_get_result_okR [OF ok env_okD(1) [OF E] P]])
     (auto simp: get_cmd_def fqueue_lawsD(7) [OF env_okD(1) [OF E]] head_opt_def
       intro: process_next_okR [OF _ E P r] split: option.splits list.splits)

end

section \<open>Running a sequence\<close>

definition run_ok ::
  "('p \<Rightarrow> bool) \<Rightarrow> ('q \<Rightarrow> addr list) \<Rightarrow> addr option \<Rightarrow> ('q, 'cb, 'nt, 'p) running \<Rightarrow> bool" where
  "run_ok I pend cur = (\<lambda>(r, s). ctrl_ok I pend cur s \<and> runner_ok r)"

lemma run_ok_simp [simp]: "run_ok I pend cur (r, s) \<longleftrightarrow> ctrl_ok I pend cur s \<and> runner_ok r"
  by (simp add: run_ok_def)

lemma runner_ok_upd [simp]:
  "runner_ok (r\<lparr>r_t := a\<rparr>) = runner_ok r" "runner_ok (r\<lparr>r_released := b\<rparr>) = runner_ok r"
  "runner_ok (r\<lparr>r_start_t := c\<rparr>) = runner_ok r" "runner_ok (r\<lparr>r_process_cmd := d\<rparr>) = runner_ok r"
  by (simp_all add: runner_ok_def)

lemma getCoarseTime_ok: "getCoarseTime s = (t, s') \<Longrightarrow> ctrl_ok I pend cur s' = ctrl_ok I pend cur s"
  by (auto simp: getCoarseTime_def ctrl_ok_def queues_ok_def ctrl_shape_def)

text \<open>The pieces a wait is cut into fit the field of the instruction.\<close>

lemma wait_pieces:
  assumes "\<not> (t :: u64) > ucast max_wait_t + 100"
  shows "ucast (t div 2) \<le> max_wait_t" "ucast (t - t div 2) \<le> max_wait_t"
    "\<not> t > ucast max_wait_t \<Longrightarrow> ucast t \<le> max_wait_t"
proof -
  have t: "unat t \<le> 0xffffff + 100"
    using assms by (simp add: max_wait_64 word_le_nat_alt not_less)
  have h: "unat (t div 2) = unat t div 2"
    by (simp add: unat_div)
  then have "t div 2 \<le> t"
    by (simp add: word_le_nat_alt)
  then have r: "unat (t - t div 2) = unat t - unat t div 2"
    by (simp add: unat_sub h)
  have u: "unat (ucast x :: u32) = unat x" if "unat x < 2 ^ 32" for x :: u64
    using that by (simp add: unsigned_ucast_eq unsigned_take_bit_eq take_bit_nat_eq_self)
  show "ucast (t div 2) \<le> max_wait_t" "ucast (t - t div 2) \<le> max_wait_t"
    using t h r u [of "t div 2"] u [of "t - t div 2"] by (simp_all add: max_wait_t_eq word_le_nat_alt)
  show "\<not> t > ucast max_wait_t \<Longrightarrow> ucast t \<le> max_wait_t"
    using t u [of t] by (simp add: max_wait_t_eq max_wait_64 word_le_nat_alt not_less)
qed

lemma short_wait: "(t :: u64) < 2000 \<Longrightarrow> ucast t \<le> max_wait_t"
  by (rule wait_pieces(3)) (simp_all add: max_wait_64 word_less_nat_alt word_le_nat_alt)

lemma short_ttl: "(t :: u64) \<le> 1000 \<Longrightarrow> ucast t \<le> max_wait_t"
  by (rule short_wait) (simp add: word_less_nat_alt word_le_nat_alt)

text \<open>What is left of a wait after a piece is at least the 3000 steps that the comment promises.\<close>

lemma wait_rest:
  fixes t d :: u64
  assumes "\<not> t \<le> max (d div 10) 10000 + 3000"
  shows "t - max (d div 10) 10000 \<ge> 3000"
proof -
  let ?m = "max (d div 10) 10000"
  have d: "unat d < 2 ^ LENGTH(64)"
    by (rule unsigned_less)
  have "unat (d div 10) \<le> (2 ^ 64 - 1) div 10"
    using d by (simp add: unat_div)
  then have m: "unat ?m \<le> (2 ^ 64 - 1) div 10"
    by (simp add: max_def)
  then have s: "unat (?m + 3000) = unat ?m + 3000"
    by (simp add: unat_word_ariths)
  have lt: "unat t > unat ?m + 3000"
    using assms s by (simp add: word_le_nat_alt not_le)
  then have "unat (t - ?m) = unat t - unat ?m"
    by (intro unat_sub) (simp add: word_le_nat_alt)
  then show ?thesis
    using lt by (simp add: word_le_nat_alt)
qed

context pulser_port
begin

lemma output_waits_totR: "inv (m_p s) \<Longrightarrow> totR (output_waits P checked t s) (port_post inv s)"
proof (induction "unat t" arbitrary: t s rule: less_induct)
  case less
  show ?case
  proof (cases "t > ucast max_wait_t + 100")
    case True
    then have le: "(0xffffff :: u64) \<le> t"
      by (simp add: max_wait_64 word_le_nat_alt word_less_nat_alt)
    have "unat (t - ucast max_wait_t) < unat t"
      using le by (simp add: max_wait_64 unat_sub word_le_nat_alt)
    then have rest: "totR (output_waits P checked (t - ucast max_wait_t) s1) (port_post inv s)"
      if "port_post inv s s1" for s1
      using less(1) [of "t - ucast max_wait_t" s1] that port_post_trans [OF that]
      by (auto simp: port_post_def elim!: totR_weaken)
    show ?thesis
      using True rest
      by (subst output_waits.simps) (auto intro: totR_bind [OF issue_totR [OF less(2)]])
  next
    case False
    note w = wait_pieces [OF False]
    have two: "totR (bindR (issue P (P_wait checked a) s) (issue P (P_wait checked b))) (port_post inv s)"
      if ab: "a \<le> max_wait_t" "b \<le> max_wait_t" for a b
    proof (rule totR_bind [OF issue_totR [OF less(2)]])
      fix s1
      assume s1: "port_post inv s s1"
      then have "totR (issue P (P_wait checked b) s1) (port_post inv s1)"
        using ab by (intro issue_totR) (simp_all add: port_post_def)
      then show "totR (issue P (P_wait checked b) s1) (port_post inv s)"
        using port_post_trans [OF s1] by (auto elim!: totR_weaken)
    qed (use ab in simp)
    show ?thesis
      using False w two issue_totR [OF less(2)] port_post_refl [of inv, OF less(2)]
      by (subst output_waits.simps) (auto simp: Let_def)
  qed
qed

lemmas output_waits_okR = totR_okR [OF output_waits_totR]

lemma advance_okR:
  assumes "inv (m_p s)" and "valid_pulse c" and "e_P E = P"
  shows "okR (advance E t c (r, s)) (\<lambda>(r', s'). r' = r\<lparr>r_t := r_t r + t\<rparr> \<and> port_post inv s s')"
  unfolding advance_def prod.case assms(3)
  by (rule okR_bind [OF issue_okR [OF assms(1,2)]]) simp

lemma output_wait_okR:
  assumes "inv (m_p s)" and "e_P E = P"
  shows "okR (output_wait E checked t (r, s)) (\<lambda>(r', s'). r' = r\<lparr>r_t := r_t r + t\<rparr> \<and> port_post inv s s')"
  unfolding output_wait_def prod.case assms(2)
  by (rule okR_bind [OF output_waits_okR [OF assms(1)]]) simp

lemma release_first_okR:
  assumes "inv (m_p s)" and "e_P E = P" and "\<not> r_released r \<longrightarrow> t \<ge> 2000"
  shows "okR (release_first E checked t (r, s))
     (\<lambda>(t', (r', s')). port_post inv s s' \<and> r_released r' \<and> (runner_ok r \<longrightarrow> runner_ok r'))"
proof (cases "r_released r")
  case True
  then show ?thesis
    using assms(1) by (simp add: release_first_def port_post_refl)
next
  case False
  have v: "valid_pulse (P_wait checked 1000)"
    by (simp add: max_wait_t_eq)
  have "okR (bindR (advance E 1000 (P_wait checked 1000) (r\<lparr>r_released := True\<rparr>, s)) (\<lambda>(r1, s1).
       bindR (ctrl_release_hold (e_P E) s1) (\<lambda>s2. Inr (t - 1000, (r1, s2)))))
     (\<lambda>(t', (r', s')). port_post inv s s' \<and> r_released r' \<and> (runner_ok r \<longrightarrow> runner_ok r'))"
  proof (rule okR_bind [OF advance_okR [OF assms(1) v assms(2)]], clarify)
    fix s1
    assume s1: "port_post inv s s1"
    then have "okR (ctrl_release_hold P s1) (port_post inv s1)"
      by (intro release_hold_okR) (simp add: port_post_def)
    then show "okR (bindR (ctrl_release_hold (e_P E) s1)
        (\<lambda>s2. Inr (t - 1000, (r\<lparr>r_released := True, r_t := r_t (r\<lparr>r_released := True\<rparr>) + 1000\<rparr>, s2))))
      (\<lambda>(t', (r', s')). port_post inv s s' \<and> r_released r' \<and> (runner_ok r \<longrightarrow> runner_ok r'))"
      unfolding assms(2) by (rule okR_bind) (simp add: port_post_trans [OF s1])
  qed
  then show ?thesis
    using False assms(3) by (simp add: release_first_def)
qed

lemma wait_poll_okR:
  assumes E: "env_ok inv fin pend E" and P: "e_P E = P"
    and ok: "ctrl_ok inv pend cur s" "runner_ok r" and t: "\<not> r_released r \<longrightarrow> t \<ge> 2000"
  shows "okR (wait_poll E checked t (r, s)) (\<lambda>(_, rs'). run_ok inv pend cur rs' \<and> r_released (fst rs'))"
  unfolding wait_poll_def
proof (rule okR_bind [OF release_first_okR [OF ctrl_okD(1) [OF ok(1)] P t]], clarify)
  fix t1 r1 s1
  assume s1: "port_post inv s s1" "r_released r1" "runner_ok r \<longrightarrow> runner_ok r1"
  have "okR (process_reqcmd E checked (Some r1, s1))
     (\<lambda>(_, (r', s')). ctrl_ok inv pend cur s' \<and> rel_option runner_like (Some r1) r')"
    using process_reqcmd_okR [OF port_post_ok [OF ok(1) s1(1)] E P] s1(3) ok(2) by simp
  then show "okR (bindR (process_reqcmd E checked (Some r1, s1)) (\<lambda>((stept, processed), (r2, s2)).
       case r2 of
         None \<Rightarrow> Inl Abort
       | Some r3 \<Rightarrow>
           Inr (if \<not> processed then (t1, (r3, s2))
                else (t1 - ucast stept, (r3\<lparr>r_t := r_t r3 + ucast stept\<rparr>, s2)))))
     (\<lambda>(_, rs'). run_ok inv pend cur rs' \<and> r_released (fst rs'))"
    by (rule okR_bind) (use s1(2,3) ok(2) in \<open>auto simp: option_rel_Some1 runner_like_def runner_ok_def\<close>)
qed

lemma wait_loop_okR:
  assumes E: "env_ok inv fin pend E" and P: "e_P E = P"
    and "run_ok inv pend cur rs" and "\<not> r_released (fst rs) \<longrightarrow> t \<ge> 2000"
  shows "okR (wait_loop E checked fuel t rs) (run_ok inv pend cur)"
  using assms(3,4)
proof (induction fuel arbitrary: t rs)
  case 0
  then show ?case by simp
next
  case (Suc fuel)
  obtain r s0 where rs: "rs = (r, s0)" by fastforce
  obtain tnow s where g: "getCoarseTime (e_frontend E s0) = (tnow, s)" by fastforce
  have ok: "ctrl_ok inv pend cur s" "runner_ok r"
    using Suc.prems(1) env_okD(3) [OF E] getCoarseTime_ok [OF g] by (auto simp: rs)
  note i = ctrl_okD(1) [OF ok(1)]
  let ?seq = "r_start_t r + r_t r * 10" and ?thr = "tnow + r_min_t r"
  let ?m = "max ((?seq - ?thr) div 10) 10000"
  show ?case
  proof (cases "?seq < ?thr")
    case late: True
    have ow: "okR (output_wait E checked x (r, s)) (\<lambda>rs1. run_ok inv pend cur rs1 \<and> r_released (fst rs1) = r_released r)" for x
      using okR_weaken [OF output_wait_okR [OF i P, of checked x r]] port_post_ok [OF ok(1)] ok(2) by fastforce
    show ?thesis
    proof (cases "t \<le> ?m + 3000")
      case True
      then show ?thesis
        using late okR_weaken [OF ow] by (simp add: rs g Let_def)
    next
      case False
      then have "t - ?m \<ge> 2000"
        using wait_rest [OF False] by (simp add: word_le_nat_alt)
      then have "okR (bindR (output_wait E checked ?m (r, s)) (wait_loop E checked fuel (t - ?m))) (run_ok inv pend cur)"
        by (intro okR_bind [OF ow] Suc.IH) auto
      then show ?thesis
        using late False by (simp add: rs g Let_def)
    qed
  next
    case early: False
    have "okR (bindR (wait_poll E checked t (r, s)) (\<lambda>(t', rs'). wait_loop E checked fuel t' rs'))
       (run_ok inv pend cur)"
      using Suc.prems(2)
      by (intro okR_bind [OF wait_poll_okR [OF E P ok]]) (auto simp: rs intro!: Suc.IH)
    then show ?thesis
      using early by (simp add: rs g Let_def)
  qed
qed

lemma advance_run_ok:
  assumes "run_ok inv pend cur (r, s)" and "valid_pulse c" and "e_P E = P"
  shows "okR (advance E t c (r, s)) (run_ok inv pend cur)"
proof (rule okR_weaken [OF advance_okR])
  show "inv (m_p s)" "valid_pulse c" "e_P E = P"
    using assms by (simp_all add: ctrl_ok_def)
qed (use assms(1) in \<open>auto intro: port_post_ok\<close>)

lemma runner_wait_okR:
  assumes E: "env_ok inv fin pend E" and P: "e_P E = P" and ok: "run_ok inv pend cur rs"
  shows "okR (runner_wait E fuel checked t rs) (run_ok inv pend cur)"
proof -
  obtain r s where rs: "rs = (r, s)" by fastforce
  have "okR (output_wait E checked t (r, s)) (run_ok inv pend cur)"
    by (rule okR_weaken [OF output_wait_okR [OF _ P]])
       (use ok in \<open>auto simp: rs dest: ctrl_okD(1) intro: port_post_ok\<close>)
  then show ?thesis
    using wait_loop_okR [OF E P ok, of t checked fuel] advance_run_ok [OF ok [unfolded rs], of "P_wait checked (ucast t)" E t]
      short_wait [of t] P
    by (simp add: runner_wait_def rs not_less)
qed

lemma nthI_bank: "bank_ok b \<Longrightarrow> length xs = NUM_TTL_BANKS \<Longrightarrow> nthI xs b = Inr (xs ! nat b)"
  "bank_ok b \<Longrightarrow> length xs = NUM_TTL_BANKS \<Longrightarrow> updI xs b v = Inr (xs[nat b := v])"
  by (auto simp: nthI_def updI_def bank_ok_nat(2) bank_ok_def)

lemma ctrl_ok_upd:
  assumes "ctrl_ok inv pend cur s"
  shows "length xs = NUM_TTL_BANKS \<Longrightarrow> ctrl_ok inv pend cur (s\<lparr>m_ttl := xs\<rparr>)"
    "length ys = NDDS \<Longrightarrow> ctrl_ok inv pend cur (s\<lparr>m_dds_phase := ys\<rparr>)"
  using assms by (simp_all add: ctrl_ok_def ctrl_shape_def queues_ok_def)

lemma runner_ttl_okR:
  assumes E: "env_ok inv fin pend E" and P: "e_P E = P" and ok: "run_ok inv pend cur (r, s)"
    and b: "bank_ok b"
  shows "okR (runner_ttl E fuel ttl t b (r, s)) (run_ok inv pend cur)"
proof -
  have len: "length (m_ttl s) = NUM_TTL_BANKS" "length (r_preserve_ttl r) = NUM_TTL_BANKS"
    using ok by (simp_all add: ctrl_ok_def ctrl_shape_def runner_ok_def)
  let ?v = "ttl OR r_preserve_ttl r ! nat b"
  let ?s = "s\<lparr>m_ttl := (m_ttl s)[nat b := ?v]\<rparr>"
  have ok1: "run_ok inv pend cur (r, ?s)"
    using ok len ctrl_ok_upd(1) [of pend cur s] by simp
  have "okR (advance E t (P_ttl True ?v (ucast t) b) (r, ?s)) (run_ok inv pend cur)" if "t \<le> 1000"
    using that short_ttl b by (intro advance_run_ok [OF ok1 _ P]) simp
  moreover have "okR (bindR (advance E 100 (P_ttl True ?v 100 b) (r, ?s)) (runner_wait E fuel True (t - 100)))
      (run_ok inv pend cur)"
    by (rule okR_bind [OF advance_run_ok [OF ok1 _ P]])
       (use b in \<open>auto simp: max_wait_t_eq intro: runner_wait_okR [OF E P]\<close>)
  ultimately show ?thesis
    by (simp add: runner_ttl_def nthI_bank [OF b] len Let_def)
qed

end

text \<open>The calls of a sequence that the runner accepts.\<close>

fun valid_call :: "runner_call \<Rightarrow> bool" where
  "valid_call (R_ttl v t bank) = bank_ok bank"
| "valid_call (R_dds_freq chn v) = (unat chn < NDDS)"
| "valid_call (R_dds_amp chn v) = (unat chn < NDDS)"
| "valid_call (R_dds_phase chn v) = (unat chn < NDDS)"
| "valid_call (R_dds_detphase chn v) = (unat chn < NDDS)"
| "valid_call (R_wait_trigger chn v t) = (t \<le> max_wait_t)"
| "valid_call _ = True"

lemma chn_u8: "unat (chn :: u8) < NDDS \<Longrightarrow> chn_ok (uint chn)"
  unfolding chn_ok_def NDDS_def uint_nat by linarith

lemma ttl1_bank: "uint ((word_of_int (full_chn AND 31) :: u8) div 32) = 0"
proof -
  have m: "full_chn AND 31 = full_chn mod 32"
    using take_bit_eq_mask [of 5 full_chn] by (simp add: take_bit_eq_mod mask_eq_exp_minus_1)
  have "uint (word_of_int (full_chn mod 32) :: u8) = full_chn mod 32 mod 2 ^ 8"
    by (simp add: unsigned_of_int take_bit_eq_mod)
  also have "\<dots> < 32"
    by (rule order_le_less_trans [OF zmod_le_nonneg_dividend]) simp_all
  finally show ?thesis
    unfolding m by (simp add: uint_div div_pos_pos_trivial)
qed

context pulser_port
begin

lemma run_call_okR:
  assumes E: "env_ok inv fin pend E" and P: "e_P E = P" and ok: "run_ok inv pend cur rs"
    and v: "valid_call c"
  shows "okR (run_call E fuel c rs) (run_ok inv pend cur)"
proof -
  obtain r s where rs: "rs = (r, s)" by fastforce
  note ok' = ok [unfolded rs]
  have len: "length (m_dds_ovr s) = NDDS" "length (m_dds_phase s) = NDDS" "length (m_ttl s) = NUM_TTL_BANKS"
    using ok by (simp_all add: rs ctrl_ok_def ctrl_shape_def)
  note wait = runner_wait_okR [OF E P ok']
  have phase: "okR (runner_dds_phase E fuel chn x (r, s)) (run_ok inv pend cur)" if "unat chn < NDDS" for chn x
  proof -
    have "run_ok inv pend cur (r, s\<lparr>m_dds_phase := (m_dds_phase s)[unat chn := x]\<rparr>)"
      using ok' len ctrl_ok_upd(2) [of pend cur s] by simp
    then show ?thesis
      using that len wait chn_u8
      by (auto simp: runner_dds_phase_def intro!: advance_run_ok [OF _ _ P])
  qed
  show ?thesis
  proof (cases c)
    case (R_ttl1 chn x t)
    have "bank_ok 0"
      by (simp add: bank_simps)
    then show ?thesis
      using R_ttl1 len runner_ttl_okR [OF E P ok']
      by (simp add: rs runner_ttl1_def Let_def ttl1_bank nthI_bank)
  next
    case (R_wait_trigger chn x t)
    then have "okR (issue P (P_wait_trigger True chn x t) s) (port_post inv s)"
      using ok' v by (intro issue_okR) (simp_all add: ctrl_ok_def)
    then have "okR (runner_wait_trigger E chn x t (r, s)) (run_ok inv pend cur)"
      unfolding runner_wait_trigger_def prod.case P
      by (rule okR_bind) (use ok' in \<open>auto simp: getCoarseTime_ok split: prod.splits intro: port_post_ok\<close>)
    then show ?thesis
      using R_wait_trigger by (simp add: rs)
  qed (use v len wait phase chn_u8 ok' in \<open>auto simp: rs runner_dds_freq_def runner_dds_amp_def
        runner_dds_detphase_def runner_dac_def runner_clock_def
        intro!: advance_run_ok [OF _ _ P] runner_ttl_okR [OF E P ok']\<close>)
qed

lemma run_calls_okR:
  assumes "env_ok inv fin pend E" and "e_P E = P" and "run_ok inv pend cur rs"
    and "\<forall>c \<in> set cs. valid_call c"
  shows "okR (foldR (run_call E fuel) cs rs) (run_ok inv pend cur)"
  using okR_foldR [of cs "run_ok inv pend cur" "run_call E fuel" rs] run_call_okR [OF assms(1,2)] assms(3,4)
  by blast

end

section \<open>Housekeeping\<close>

text \<open>No result is awaited, and the controller is in order: what the DDS members need.\<close>

definition calm ::
  "('p \<Rightarrow> bool) \<Rightarrow> ('q \<Rightarrow> addr list) \<Rightarrow> addr option \<Rightarrow> ('q, 'cb, 'nt, 'p) controller \<Rightarrow> bool" where
  "calm I pend cur s \<longleftrightarrow> ctrl_ok I pend cur s \<and> m_cmd_waiting s = None"

lemma calm_post: "calm I pend cur s \<Longrightarrow> port_post I s s' \<Longrightarrow> calm I pend cur s'"
  by (auto simp: calm_def port_post_def quiet_def intro: port_post_ok [unfolded port_post_def quiet_def])

lemma calm_upd:
  assumes "calm I pend cur s"
  shows "length a = NDDS \<Longrightarrow> calm I pend cur (s\<lparr>m_dds_pending_reset := a\<rparr>)"
    "length b = NDDS \<Longrightarrow> length c = NDDS \<Longrightarrow> calm I pend cur (s\<lparr>m_dds_ovr := b, m_dds_phase := c\<rparr>)"
    "length d = NDDS \<Longrightarrow> length a = NDDS \<Longrightarrow> calm I pend cur (s\<lparr>m_dds_exist := d, m_dds_pending_reset := a\<rparr>)"
    "calm I pend cur (s\<lparr>m_dds_check_time := t\<rparr>)" "calm I pend cur (log_line l s)"
    "calm I pend cur (called pc s)" "calm I pend cur (s\<lparr>m_coarse := co\<rparr>)"
    "length d = NDDS \<Longrightarrow> calm I pend cur (s\<lparr>m_dds_exist := d\<rparr>)"
  using assms
  by (simp_all add: calm_def ctrl_ok_def ctrl_shape_def queues_ok_def log_line_def called_def)

lemma calm_lens:
  assumes "calm I pend cur s"
  shows "length (m_dds_ovr s) = NDDS" "length (m_dds_phase s) = NDDS"
    "length (m_dds_pending_reset s) = NDDS" "length (m_dds_exist s) = NDDS" "I (m_p s)"
    "m_cmd_waiting s = None"
  using assms by (simp_all add: calm_def ctrl_ok_def ctrl_shape_def)

lemma calm_logs: "calm I pend cur s \<Longrightarrow> calm I pend cur (fold (\<lambda>l. log_line (LogInfo l)) ls s)"
  by (induction ls arbitrary: s) (simp_all add: calm_upd(5))

context pulser_port
begin

lemma p_get_calm:
  assumes "calm inv pend cur s" and "\<exists>v p'. f (m_p s) = Inr (v, p') \<and> inv p'"
  shows "okR (p_get f s) (\<lambda>(v, s'). calm inv pend cur s')"
  by (rule okR_weaken [OF p_get_okR [of f s inv]]) (use assms in \<open>auto intro: calm_post\<close>)

lemma check_dds_okR:
  assumes ok: "calm inv pend cur s" and i: "i < NDDS"
  shows "okR (check_dds P i s) (\<lambda>(_, s'). calm inv pend cur s')"
proof -
  note len = calm_lens [OF ok]
  define s1 where "s1 = (if m_dds_pending_reset s ! i then
      s\<lparr>m_dds_ovr := (m_dds_ovr s)[i := (m_dds_ovr s ! i)\<lparr>ds_phase_enable := False,
          ds_amp_enable := False, ds_freq := -1\<rparr>],
        m_dds_phase := (m_dds_phase s)[i := 0]\<rparr> else s)"
  let ?b = "m_dds_pending_reset s ! i"
  have "calm inv pend cur (called (CheckDDS (int i) ?b) s1)"
    using ok calm_upd(2) [OF ok] len by (auto simp: s1_def intro: calm_upd(6))
  then have "okR (p_get (p_check_dds P (int i) ?b) (called (CheckDDS (int i) ?b) s1))
      (\<lambda>(v, s'). calm inv pend cur s')"
    by (rule p_get_calm) (use check_dds calm_lens(5) [OF ok] in \<open>auto simp: s1_def\<close>)
  then have "okR (bindR (p_get (p_check_dds P (int i) ?b) (called (CheckDDS (int i) ?b) s1)) (\<lambda>(res, s2).
      bindR (updR (m_dds_pending_reset s2) i False) (\<lambda>rs.
      Inr (res, s2\<lparr>m_dds_pending_reset := rs\<rparr>)))) (\<lambda>(_, s'). calm inv pend cur s')"
    by (rule okR_bind) (auto simp: calm_lens(3) i intro!: calm_upd(1))
  then show ?thesis
    using len i by (auto simp: check_dds_def s1_def)
qed

lemma dump_dds_okR:
  assumes "calm inv pend cur s"
  shows "okR (dump_dds P i s) (calm inv pend cur)"
proof -
  have "okR (p_get (p_dump_dds P (int i)) s) (\<lambda>(v, s'). calm inv pend cur s')"
    by (rule p_get_calm [OF assms]) (rule dump_dds [OF calm_lens(5) [OF assms]])
  then have "okR (bindR (p_get (p_dump_dds P (int i)) s) (\<lambda>(str, s1).
     Inr (fold (\<lambda>l. log_line (LogInfo l)) (text_lines str) s1))) (calm inv pend cur)"
    by (rule okR_bind) (auto intro: calm_logs)
  then show ?thesis
    by (simp add: dump_dds_def calm_lens(6) [OF assms])
qed

lemma detect_dds_chn_okR:
  assumes ok: "calm inv pend cur s" and i: "i < NDDS"
  shows "okR (detect_dds_chn P force i s) (calm inv pend cur)"
  unfolding detect_dds_chn_def
proof (rule okR_bind [OF p_get_calm [OF ok, of "p_dds_exists P (int i)"]], rule dds_exists [OF calm_lens(5) [OF ok]], clarify)
  fix ex s1
  assume ok1: "calm inv pend cur s1"
  note len = calm_lens [OF ok1]
  have chk: "okR (check_dds P i (s1\<lparr>m_dds_exist := es, m_dds_pending_reset := rs\<rparr>))
      (\<lambda>(_, s'). calm inv pend cur s')" if "length es = NDDS" "length rs = NDDS" for es rs
    by (rule check_dds_okR [OF calm_upd(3) [OF ok1 that] i])
  have chk': "okR (check_dds P i (s1\<lparr>m_dds_exist := es\<rparr>)) (\<lambda>(_, s'). calm inv pend cur s')"
    if "length es = NDDS" for es
    by (rule check_dds_okR [OF calm_upd(8) [OF ok1 that] i])
  show "okR (if \<not> ex then
         bindR (updR (m_dds_exist s1) i False) (\<lambda>es.
         bindR (updR (m_dds_pending_reset s1) i False) (\<lambda>rs.
         Inr (s1\<lparr>m_dds_exist := es, m_dds_pending_reset := rs\<rparr>)))
       else
         bindR (updR (m_dds_exist s1) i True) (\<lambda>es.
         bindR (if force then updR (m_dds_pending_reset s1) i True
                else Inr (m_dds_pending_reset s1)) (\<lambda>rs.
         bindR (check_dds P i (s1\<lparr>m_dds_exist := es, m_dds_pending_reset := rs\<rparr>)) (\<lambda>(res, s2).
         let s3 = (if res \<and> force then log_line (LogReinit (int i)) s2 else s2)
         in if force then dump_dds P i s3 else Inr s3)))) (calm inv pend cur)"
    using len i calm_upd(3) [OF ok1]
    by (cases force) (auto intro!: okR_bind [OF chk] okR_bind [OF chk'] dump_dds_okR calm_upd(5))
qed

lemma detect_dds_okR:
  assumes ok: "calm inv pend cur s"
  shows "okR (detect_dds P force s) (calm inv pend cur)"
proof -
  let ?s = "s\<lparr>m_coarse := \<lambda>i. m_coarse s (Suc i)\<rparr>"
  have ok1: "calm inv pend cur ?s"
    by (rule calm_upd(7) [OF ok])
  have "okR (bindR (foldR (detect_dds_chn P force) [0 ..< NDDS] ?s) (\<lambda>s2.
      Inr (s2\<lparr>m_dds_check_time := t\<rparr>))) (calm inv pend cur)" for t
    by (rule okR_bind [OF okR_foldR [of _ "calm inv pend cur"]])
       (use ok1 in \<open>auto intro: detect_dds_chn_okR calm_upd(4)\<close>)
  then show ?thesis
    using ok1 calm_lens(6) [OF ok] by (simp add: detect_dds_def getCoarseTime_def)
qed

lemma reinit_dds_okR:
  assumes ok: "calm inv pend cur s" and i: "i < NDDS"
  shows "okR (reinit_dds P i s) (calm inv pend cur)"
proof -
  have "okR (bindR (check_dds P i s) (\<lambda>(res, s1).
      if res then dump_dds P i (log_line (LogReinit (int i)) s1) else Inr s1)) (calm inv pend cur)"
    by (rule okR_bind [OF check_dds_okR [OF ok i]]) (auto intro!: dump_dds_okR calm_upd(5))
  then show ?thesis
    using ok calm_lens(4) [OF ok] i by (simp add: reinit_dds_def)
qed

lemma sync_ttl_okR:
  assumes "ctrl_ok inv pend cur s"
  shows "okR (sync_ttl P s) (\<lambda>s'. ctrl_ok inv pend cur s' \<and> m_cmd_waiting s' = m_cmd_waiting s \<and>
     (idle (m_p s) \<longrightarrow> idle (m_p s')))"
  unfolding sync_ttl_def
proof (rule okR_foldR [of _ "\<lambda>s'. ctrl_ok inv pend cur s' \<and> m_cmd_waiting s' = m_cmd_waiting s \<and>
     (idle (m_p s) \<longrightarrow> idle (m_p s'))"])
  fix i s1
  assume i: "i \<in> set [0 ..< NUM_TTL_BANKS]"
    and s1: "ctrl_ok inv pend cur s1 \<and> m_cmd_waiting s1 = m_cmd_waiting s \<and> (idle (m_p s) \<longrightarrow> idle (m_p s1))"
  have b: "bank_ok (int i)"
    using i by (simp add: bank_ok_def)
  obtain v p where p: "p_cur_ttl P (int i) (m_p s1) = Inr (v, p)" "inv p" "idle (m_p s1) \<longrightarrow> idle p"
    using cur_ttl [OF _ b, of "m_p s1"] s1 ctrl_okD(1) [of inv pend cur s1] by blast
  show "okR (sync_ttl_bank P i s1) (\<lambda>s'. ctrl_ok inv pend cur s' \<and> m_cmd_waiting s' = m_cmd_waiting s \<and>
     (idle (m_p s) \<longrightarrow> idle (m_p s')))"
    using s1 p i
    by (auto simp: sync_ttl_bank_def p_get_def log_line_def ctrl_ok_def ctrl_shape_def queues_ok_def)
qed (use assms in simp)

end

section \<open>A whole sequence\<close>

lemma ctrl_ok_event [simp]: "ctrl_ok I pend cur (backend_event s) = ctrl_ok I pend cur s"
  by (simp add: backend_event_def ctrl_ok_def ctrl_shape_def queues_ok_def)

lemma ctrl_ok_log [simp]: "ctrl_ok I pend cur (log_line l s) = ctrl_ok I pend cur s"
  by (simp add: log_line_def ctrl_ok_def ctrl_shape_def queues_ok_def)

lemma backend_event_waiting [simp]: "m_cmd_waiting (backend_event s) = m_cmd_waiting s"
  by (simp add: backend_event_def)

lemma set_seq_state_okR:
  assumes ok: "ctrl_ok I pend (Some a) s"
  shows "okR (set_seq_state a st s) (ctrl_ok I pend (Some a))"
proof -
  obtain seq where "m_seq_store s a = Some seq"
    using ok by (auto simp: ctrl_ok_def queues_ok_def head_opt_eq_Some)
  then show ?thesis
    using ok by (auto simp: set_seq_state_def ctrl_ok_def ctrl_shape_def queues_ok_def valid_seq_def)
qed

lemma ctrl_ok_seq:
  assumes "ctrl_ok I pend (Some a) s"
  shows "\<exists>seq. m_seq_store s a = Some seq \<and> valid_seq seq"
  using assms by (auto simp: ctrl_ok_def queues_ok_def head_opt_eq_Some)

lemma Runner_run_ok:
  assumes "ctrl_ok I pend cur s" and "length msk = NUM_TTL_BANKS"
  shows "run_ok I pend cur (Runner E msk len s)"
  using assms
  by (simp add: Runner_def getCoarseTime_def ctrl_ok_def ctrl_shape_def queues_ok_def runner_ok_def)

definition exe_ok :: "exe_fn \<Rightarrow> bool" where
  "exe_ok exe \<longleftrightarrow> (\<forall>is_cmd mt code ver. \<forall>c \<in> set (fst (exe is_cmd mt code ver)). valid_call c)"

context pulser_port
begin

lemma drain_results_okR:
  assumes E: "env_ok inv fin pend E" and P: "e_P E = P" and "ctrl_ok inv pend cur s"
  shows "okR (drain_results E fuel s) (calm inv pend cur)"
  using assms(3)
proof (induction fuel arbitrary: s)
  case (Suc fuel)
  let ?s = "e_frontend E s"
  have ok: "ctrl_ok inv pend cur ?s"
    using env_okD(3) [OF E Suc.prems] .
  show ?case
    unfolding drain_results.simps
  proof (rule okR_bind [OF try_get_result_okR [OF ok env_okD(1) [OF E] P]], clarify)
    fix w g s1
    assume r: "try_get_result E False ?s = Inr ((w, g), s1)" and ok1: "ctrl_ok inv pend cur s1"
    from r have "\<not> w \<longrightarrow> m_cmd_waiting s1 = None"
      by (cases rule: try_get_result_cases) auto
    then have "\<not> w \<longrightarrow> calm inv pend cur s1"
      using ok1 by (simp add: calm_def)
    then show "okR (if \<not> w then Inr s1 else drain_results E fuel s1) (calm inv pend cur)"
      using Suc.IH [OF ok1] by simp
  qed
qed simp

lemma wait_finished_okR:
  assumes E: "env_ok inv fin pend E" and P: "e_P E = P" and "calm inv pend cur s"
  shows "okR (wait_finished E fuel s) (\<lambda>s'. calm inv pend cur s' \<and> idle (m_p s'))"
  using assms(3)
proof (induction fuel arbitrary: s)
  case (Suc fuel)
  obtain b p where p: "p_is_finished P (m_p s) = Inr (b, p)" "inv p" "b = idle p"
    using is_finished [OF calm_lens(5) [OF Suc.prems]] by blast
  have ok: "calm inv pend cur (s\<lparr>m_p := p\<rparr>)"
    using Suc.prems p(2) by (simp add: calm_def ctrl_ok_def ctrl_shape_def queues_ok_def)
  then have "calm inv pend cur (e_frontend E (s\<lparr>m_p := p\<rparr>))"
    using env_okD(3,4) [OF E, of cur "s\<lparr>m_p := p\<rparr>"] by (simp add: calm_def)
  then show ?case
    using p ok Suc.IH by (simp add: P p_get_def)
qed simp

lemma run_seq_begin_okR:
  assumes E: "env_ok inv fin pend E" and P: "e_P E = P" and ok: "ctrl_ok inv pend (Some a) s"
  shows "okR (run_seq_begin E fuel a s) (ctrl_ok inv pend (Some a))"
  unfolding run_seq_begin_def P
proof (rule okR_bind [OF drain_results_okR [OF E P ok]],
    rule okR_bind [OF wait_finished_okR [OF E P]], assumption)
  fix s2
  assume s2: "calm inv pend (Some a) s2 \<and> idle (m_p s2)"
  have ok2: "ctrl_ok inv pend (Some a) s2"
    using s2 by (simp add: calm_def)
  show "okR (bindR (sync_ttl P s2) (\<lambda>s3.
     bindR (p_do (p_set_hold P) (called SetHold s3)) (\<lambda>s4.
     bindR (p_do (p_toggle_init P) (called ToggleInit s4)) (\<lambda>s5.
     bindR (set_seq_state a SeqStart s5) (\<lambda>s6. Inr (backend_event s6))))))
     (ctrl_ok inv pend (Some a))"
  proof (rule okR_bind [OF sync_ttl_okR [OF ok2]], goal_cases)
    case (1 s3)
    then have s3: "ctrl_ok inv pend (Some a) s3" "idle (m_p s3)"
      using s2 by auto
    obtain p4 where p4: "p_set_hold P (m_p s3) = Inr p4" "inv p4" "idle p4"
      using set_hold [OF ctrl_okD(1) [OF s3(1)]] s3(2) by blast
    obtain p5 where p5: "p_toggle_init P p4 = Inr p5" "inv p5"
      using toggle_init [OF p4(2,3)] by blast
    let ?s5 = "called ToggleInit (called SetHold s3\<lparr>m_p := p4\<rparr>)\<lparr>m_p := p5\<rparr>"
    have "ctrl_ok inv pend (Some a) ?s5"
      using s3(1) p5(2) by (simp add: called_def ctrl_ok_def ctrl_shape_def queues_ok_def)
    then have "okR (bindR (set_seq_state a SeqStart ?s5) (\<lambda>s6. Inr (backend_event s6)))
        (ctrl_ok inv pend (Some a))"
      by (intro okR_bind [OF set_seq_state_okR]) simp_all
    then show ?case
      using p4(1) p5(1) by (simp add: p_do_def)
  qed
qed

lemma run_seq_code_okR:
  assumes E: "env_ok inv fin pend E" and P: "e_P E = P" and ok: "run_ok inv pend cur rs"
    and seq: "valid_seq seq" and exe: "exe_ok exe"
  shows "okR (run_seq_code E exe fuel seq rs) (run_ok inv pend cur)"
proof -
  let ?x = "exe (rs_is_cmd seq) (if rs_ver seq > 1 then Some (PT_Min2 (e_pt E)) else None) (rs_code seq) (rs_ver seq)"
  have "\<forall>c \<in> set (fst ?x). valid_call c"
    using exe by (simp add: exe_ok_def)
  then have "okR (bindR (foldR (run_call E fuel) (fst ?x) rs) (\<lambda>(r, s).
      Inr (r, case snd ?x of None \<Rightarrow> s | Some msg \<Rightarrow> log_line (LogSeqError msg) s))) (run_ok inv pend cur)"
    by (intro okR_bind [OF run_calls_okR [OF E P ok]]) (auto split: option.splits)
  then show ?thesis
    using seq by (simp add: run_seq_code_def valid_seq_def case_prod_beta Let_def)
qed

lemma wait_seq_end_okR:
  assumes E: "env_ok inv fin pend E" and P: "e_P E = P" and "run_ok inv pend cur rs"
  shows "okR (wait_seq_end E fuel rs) (run_ok inv pend cur)"
  using assms(3)
proof (induction fuel arbitrary: rs)
  case (Suc fuel)
  obtain r s where rs: "rs = (r, s)" by fastforce
  have ok: "ctrl_ok inv pend cur s" "runner_ok r"
    using Suc.prems by (simp_all add: rs)
  obtain b p where p: "p_is_finished P (m_p s) = Inr (b, p)" "inv p"
    using is_finished [OF ctrl_okD(1) [OF ok(1)]] by blast
  let ?s = "s\<lparr>m_p := p\<rparr>"
  have ok1: "ctrl_ok inv pend cur ?s"
    using ok(1) p(2) by (simp add: ctrl_ok_def ctrl_shape_def queues_ok_def)
  have "okR (bindR (process_reqcmd E False (Some r, e_frontend E ?s)) (\<lambda>(_, (r2, s2)).
      case r2 of None \<Rightarrow> Inl Abort | Some r3 \<Rightarrow> wait_seq_end E fuel (r3, s2))) (run_ok inv pend cur)"
    by (rule okR_bind [OF process_reqcmd_okR [OF env_okD(3) [OF E ok1] E P]])
       (use ok(2) in \<open>auto simp: option_rel_Some1 intro!: Suc.IH runner_like_ok [of r]\<close>)
  then show ?case
    using p ok1 ok(2) by (simp add: rs P p_get_def)
qed simp

lemma runner_clock_okR:
  assumes "e_P E = P" and "run_ok inv pend cur rs"
  shows "okR (runner_clock E checked v rs) (run_ok inv pend cur)"
  using assms by (cases rs) (auto simp: runner_clock_def intro: advance_run_ok)

lemma run_seq_flush_okR:
  assumes E: "env_ok inv fin pend E" and P: "e_P E = P" and ok: "run_ok inv pend (Some a) rs"
  shows "okR (run_seq_flush E fuel a is_cmd rs) (run_ok inv pend (Some a))"
  unfolding run_seq_flush_def P
proof (rule okR_bind [OF runner_wait_okR [OF E P ok]], clarify, goal_cases)
  case (1 r s)
  note i = 1(2)
  then have rel: "okR (ctrl_release_hold P s) (ctrl_ok inv pend (Some a))"
    by (intro okR_weaken [OF release_hold_okR]) (auto simp: ctrl_okD(1) intro: port_post_ok)
  have clk: "okR (if is_cmd then Inr (r, backend_event s3)
      else runner_clock E False 9 (r, backend_event s3)) (run_ok inv pend (Some a))"
    if "ctrl_ok inv pend (Some a) s3" for s3
    using that i runner_clock_okR [OF P, of pend "Some a" "(r, backend_event s3)"] by simp
  show ?case
    by (rule okR_bind [OF rel], rule okR_bind [OF set_seq_state_okR]) (rule clk | assumption)+
qed

lemma run_seq_finish_okR:
  assumes E: "env_ok inv fin pend E" and P: "e_P E = P" and ok: "run_ok inv pend (Some a) rs"
  shows "okR (run_seq_finish E fuel a is_cmd rs) (run_ok inv pend (Some a))"
  unfolding run_seq_finish_def
proof (rule okR_bind [OF wait_seq_end_okR [OF E P ok]], clarify, goal_cases)
  case (1 r s)
  note i = 1(2)
  have tail: "okR (if is_cmd then Inr (enable_process_cmd r, backend_event s2)
     else bindR (runner_wait E fuel False 1000000 (enable_process_cmd r, backend_event s2))
            (runner_clock E False 255)) (run_ok inv pend (Some a))"
    if "ctrl_ok inv pend (Some a) s2" for s2
  proof -
    have i2: "run_ok inv pend (Some a) (enable_process_cmd r, backend_event s2)"
      using that i by (simp add: enable_process_cmd_def)
    show ?thesis
      using i2 okR_bind [OF runner_wait_okR [OF E P i2] runner_clock_okR [OF P]] by simp
  qed
  show ?case
    using i by (intro okR_bind [OF set_seq_state_okR] tail) auto
qed

lemma run_seq_cleanup_okR:
  assumes P: "e_P E = P" and ok: "ctrl_ok inv pend cur s"
  shows "okR (run_seq_cleanup E s) (ctrl_ok inv pend cur)"
proof -
  obtain b p where p: "p_timing_ok P (m_p s) = Inr (b, p)" "inv p"
    using timing_ok [OF ctrl_okD(1) [OF ok]] by blast
  let ?s = "if b then s\<lparr>m_p := p\<rparr> else log_line LogTiming (s\<lparr>m_p := p\<rparr>)"
  have ok1: "ctrl_ok inv pend cur ?s"
    using ok p(2) by (simp add: ctrl_ok_def ctrl_shape_def queues_ok_def log_line_def)
  then have iss: "okR (issue P P_clear_error ?s) (ctrl_ok inv pend cur)"
    by (intro okR_weaken [OF issue_okR [OF ctrl_okD(1) [OF ok1]]]) (auto intro: port_post_ok)
  have rest: "okR (if m_cmd_waiting s2 = None then foldR (reinit_dds P) [0 ..< NDDS] s2 else Inr s2)
      (ctrl_ok inv pend cur)" if "ctrl_ok inv pend cur s2" for s2
  proof (cases "m_cmd_waiting s2 = None")
    case True
    then have "calm inv pend cur s2"
      using that by (simp add: calm_def)
    then have "okR (foldR (reinit_dds P) [0 ..< NDDS] s2) (calm inv pend cur)"
      by (intro okR_foldR) (auto intro: reinit_dds_okR)
    then show ?thesis
      using True by (auto simp: calm_def elim!: okR_weaken)
  qed (use that in auto)
  have "okR (bindR (issue P P_clear_error ?s)
      (\<lambda>s2. if m_cmd_waiting s2 = None then foldR (reinit_dds P) [0 ..< NDDS] s2 else Inr s2))
      (ctrl_ok inv pend cur)"
    by (rule okR_bind [OF iss rest])
  then show ?thesis
    using p(1) unfolding run_seq_cleanup_def P by (simp add: p_get_def split del: if_split)
qed

lemma run_seq_okR:
  assumes E: "env_ok inv fin pend E" and P: "e_P E = P" and ok: "ctrl_ok inv pend (Some a) s"
    and exe: "exe_ok exe"
  shows "okR (run_seq E exe fuel a s) (ctrl_ok inv pend (Some a))"
  unfolding run_seq_def
proof (rule okR_bind [OF run_seq_begin_okR [OF E P ok]], goal_cases)
  case (1 s1)
  note ok1 = 1(2)
  obtain seq where seq: "m_seq_store s1 a = Some seq" "valid_seq seq"
    using ctrl_ok_seq [OF ok1] by blast
  have i: "run_ok inv pend (Some a) (Runner E (rs_ttl_mask seq) (rs_seq_len_ns seq) s1)"
    by (rule Runner_run_ok [OF ok1]) (use seq(2) in \<open>simp add: valid_seq_def\<close>)
  show ?case
    unfolding seq(1) option.case
    by (rule okR_bind [OF run_seq_code_okR [OF E P i seq(2) exe]],
        rule okR_bind [OF run_seq_flush_okR [OF E P]], assumption,
        rule okR_bind [OF run_seq_finish_okR [OF E P]], assumption)
       (auto intro: run_seq_cleanup_okR [OF P])
qed

end

section \<open>The worker\<close>

lemma finish_seq_ok:
  assumes ok: "ctrl_ok I pend (Some a) s" and laws: "fqueue_laws Q fin pend"
  shows "ctrl_ok I pend None (finish_seq Q s)"
proof -
  obtain as where a: "pend (m_seq_queue s) = a # as"
    using ok by (auto simp: ctrl_ok_def queues_ok_def head_opt_eq_Some)
  then have "pend (fq_forward_filter Q (m_seq_queue s)) = as"
    by (rule fqueue_lawsD(10) [OF laws])
  then show ?thesis
    using ok a by (auto simp: finish_seq_def backend_event_def ctrl_ok_def ctrl_shape_def queues_ok_def)
qed

context pulser_port
begin

lemma worker_seq_okR:
  assumes E: "env_ok inv fin pend E" and P: "e_P E = P" and ok: "ctrl_ok inv pend None s"
    and exe: "exe_ok exe"
  shows "okR (worker_seq E exe fuel s) (ctrl_ok inv pend None)"
proof (cases "pend (m_seq_queue s)")
  case Nil
  then show ?thesis
    using ok by (simp add: worker_seq_def get_seq_def fqueue_lawsD(7) [OF env_okD(1) [OF E]])
next
  case (Cons a as)
  have ok1: "ctrl_ok inv pend (Some a) s"
    using ok Cons by (simp add: ctrl_ok_def queues_ok_def)
  obtain seq where seq: "m_seq_store s a = Some seq"
    using ctrl_ok_seq [OF ok1] by blast
  have "okR (if rs_cancel seq then set_seq_state a SeqCancel s else run_seq E exe fuel a s)
      (ctrl_ok inv pend (Some a))"
    using set_seq_state_okR [OF ok1] run_seq_okR [OF E P ok1 exe] by simp
  then have "okR (bindR (if rs_cancel seq then set_seq_state a SeqCancel s else run_seq E exe fuel a s)
      (\<lambda>s1. Inr (finish_seq (e_Q E) s1))) (ctrl_ok inv pend None)"
    by (rule okR_bind) (simp add: finish_seq_ok [OF _ env_okD(1) [OF E]])
  then show ?thesis
    using Cons seq by (simp add: worker_seq_def get_seq_def fqueue_lawsD(7) [OF env_okD(1) [OF E]])
qed

lemma detect_if_idle_okR:
  assumes P: "e_P E = P" and ok: "ctrl_ok inv pend cur s"
  shows "okR (detect_if_idle E s) (ctrl_ok inv pend cur)"
proof (cases "m_cmd_waiting s = None")
  case True
  then have "okR (detect_dds P False s) (calm inv pend cur)"
    using ok by (intro detect_dds_okR) (simp add: calm_def)
  then show ?thesis
    using True P by (auto simp: detect_if_idle_def calm_def elim!: okR_weaken)
qed (use ok in \<open>auto simp: detect_if_idle_def\<close>)

lemma worker_iter_okR:
  assumes E: "env_ok inv fin pend E" and P: "e_P E = P" and ok: "ctrl_ok inv pend None s"
    and exe: "exe_ok exe"
  shows "okR (worker_iter E exe fuel s) (ctrl_ok inv pend None)"
  unfolding worker_iter_def P
proof (rule okR_bind [OF worker_seq_okR [OF E P ok exe]], goal_cases)
  case (1 s1)
  note ok1 = 1(2)
  have fin: "okR (p_get (p_is_finished P) s1) (\<lambda>(b, s2). ctrl_ok inv pend None s2)"
    by (rule okR_weaken [OF p_get_okR [of _ s1 inv]])
       (use is_finished [OF ctrl_okD(1) [OF ok1]] port_post_ok [OF ok1] in auto)
  have sync: "okR (if b then sync_ttl P s2 else Inr s2) (ctrl_ok inv pend None)"
    if "ctrl_ok inv pend None s2" for b s2
    using that okR_weaken [OF sync_ttl_okR [OF that]] by simp
  have proc: "okR (bindR (process_reqcmd E False (None, s4)) (\<lambda>(_, (_, s5)). detect_if_idle E s5))
      (ctrl_ok inv pend None)" if "ctrl_ok inv pend None s4" for s4
    by (rule okR_bind [OF process_reqcmd_okR [OF that E P]]) (auto intro: detect_if_idle_okR [OF P])
  show ?case
    by (rule okR_bind [OF fin], clarify, rule okR_bind [OF sync], assumption,
        rule okR_bind [OF detect_if_idle_okR [OF P]], assumption, rule proc)
qed

lemma worker_okR:
  assumes E: "env_ok inv fin pend E" and P: "e_P E = P" and "ctrl_ok inv pend None s"
    and exe: "exe_ok exe"
  shows "okR (worker E exe fuel n s) (ctrl_ok inv pend None)"
  using assms(3)
proof (induction n arbitrary: s)
  case (Suc n)
  have ok: "ctrl_ok inv pend None (e_frontend E s)"
    using env_okD(3) [OF E Suc.prems] .
  show ?case
    using okR_bind [OF worker_iter_okR [OF E P ok exe] Suc.IH] ok by (simp add: Let_def)
qed simp

end


section \<open>Behind the clock\<close>

text \<open>
  The subtraction of \<^verbatim>\<open>min_seqt\<close> is done modulo \<open>2 ^ 64\<close> with the smaller operand first, so that its
  tenth exceeds every realistic wait.
\<close>

lemma behind_min:
  fixes a b t :: u64
  assumes "a < b" and "unat b < 2 ^ 62" and "unat t < 2 ^ 58"
  shows "t \<le> max ((a - b) div 10) 10000 + 3000"
proof -
  have ab: "unat a < unat b"
    using assms(1) by (simp add: word_less_nat_alt)
  then have "unat (a - b) = 2 ^ 64 - (unat b - unat a)"
    by (simp add: unat_sub_if')
  then have d: "unat ((a - b) div 10) = (2 ^ 64 - (unat b - unat a)) div 10"
    by (simp add: unat_div)
  have lo: "(2 ^ 64 - (unat b - unat a)) div 10 \<ge> 2 ^ 58"
    using assms(2) ab by simp
  have hi: "(2 ^ 64 - (unat b - unat a)) div 10 < 2 ^ 63"
    by simp
  have m: "max ((a - b) div 10) 10000 = (a - b) div 10"
    using lo d by (simp add: max_def word_le_nat_alt)
  have "unat ((a - b) div 10 + 3000) = unat ((a - b) div 10) + 3000"
    using hi d by (simp add: unat_word_ariths)
  then show ?thesis
    using lo d assms(3) by (simp only: m word_le_nat_alt)
qed


context pulser_port
begin

lemma release_first_totR:
  assumes "inv (m_p s)" and P: "e_P E = P" and "\<not> r_released r \<longrightarrow> t \<ge> 2000"
  shows "totR (release_first E checked t (r, s)) (\<lambda>(t', (r', s')).
     inv (m_p s') \<and> quiet s s' \<and> m_coarse s' = m_coarse s \<and> r_released r' \<and>
     r_start_t r' = r_start_t r \<and> r_min_t r' = r_min_t r \<and> t' \<le> t \<and>
     r_t r' = (if r_released r then r_t r else r_t r + 1000))"
proof (cases "r_released r")
  case True
  then show ?thesis
    using assms(1) by (simp add: release_first_def)
next
  case False
  have v: "valid_pulse (P_wait checked 1000)"
    by (simp add: max_wait_t_eq)
  obtain p1 where p1: "p_pulse P (P_wait checked 1000) (m_p s) = Inr p1" "inv p1"
    using pulse [OF assms(1) v] by blast
  obtain p2 where p2: "p_release_hold P p1 = Inr p2" "inv p2"
    using release_hold [OF p1(2)] by blast
  have "t \<ge> 2000"
    using False assms(3) by simp
  then have "t - 1000 \<le> t"
    by (simp add: word_le_nat_alt unat_sub_if')
  then show ?thesis
    using False \<open>t \<ge> 2000\<close> p1(1) p2
    by (simp add: release_first_def advance_def issue_def ctrl_release_hold_def p_do_def called_def P quiet_def)
qed

end

text \<open>Nothing to do: no request is queued and no result is awaited.\<close>

definition no_work :: "'q fqueue_ops \<Rightarrow> ('q, 'cb, 'nt, 'p) controller \<Rightarrow> bool" where
  "no_work Q s \<longleftrightarrow> fq_get_filter Q (m_cmd_queue s) = None \<and> m_cmd_waiting s = None"

lemma process_nothing:
  "no_work (e_Q E) s \<Longrightarrow> process_reqcmd E checked (r, s) = Inr ((0, False), (r, s))"
  by (simp add: process_reqcmd_def try_get_result_def no_work_def get_cmd_def)

text \<open>The clock readings, start time and lengths are far from the end of the 64 bit range.\<close>

definition clock_sane :: "runner \<Rightarrow> ('q, 'cb, 'nt, 'p) controller \<Rightarrow> bool" where
  "clock_sane r s \<longleftrightarrow> (\<forall>k. unat (m_coarse s k) < 2 ^ 60) \<and> unat (r_min_t r) < 2 ^ 60 \<and>
     unat (r_start_t r) < 2 ^ 60 \<and> unat (r_t r) + (if r_released r then 0 else 1000) < 2 ^ 56"

text \<open>The reading at which the sequence is less than the safety margin ahead.\<close>

definition caught_up :: "runner \<Rightarrow> u64 \<Rightarrow> bool" where
  "caught_up r tnow \<longleftrightarrow>
     unat (r_start_t r) + 10 * (unat (r_t r) + (if r_released r then 0 else 1000)) <
     unat tnow + unat (r_min_t r)"

lemma seq_time_nat:
  assumes "clock_sane r s"
  shows "unat (r_start_t r + r_t r * 10) = unat (r_start_t r) + 10 * unat (r_t r)"
    "unat (m_coarse s k + r_min_t r) = unat (m_coarse s k) + unat (r_min_t r)"
proof -
  have b: "unat (r_t r) < 2 ^ 56" "unat (r_start_t r) < 2 ^ 60" "unat (m_coarse s k) < 2 ^ 60"
    "unat (r_min_t r) < 2 ^ 60"
    using assms by (auto simp: clock_sane_def split: if_splits)
  have "unat (r_t r * 10) = 10 * unat (r_t r)"
    using b(1) by (simp add: unat_word_ariths)
  then show "unat (r_start_t r + r_t r * 10) = unat (r_start_t r) + 10 * unat (r_t r)"
    using b(1,2) by (simp add: unat_word_ariths)
  show "unat (m_coarse s k + r_min_t r) = unat (m_coarse s k) + unat (r_min_t r)"
    using b(3,4) by (simp add: unat_word_ariths)
qed

lemma wait_behind:
  assumes "clock_sane r s" and "e_frontend E = (\<lambda>s. s)" and "unat t < 2 ^ 58"
    and "unat (r_start_t r) + 10 * unat (r_t r) < unat (m_coarse s 0) + unat (r_min_t r)"
  shows "wait_loop E checked (Suc fuel) t (r, s) = output_wait E checked t (r, snd (getCoarseTime s))"
proof -
  note n = seq_time_nat [OF assms(1)] seq_time_nat(2) [OF assms(1), of 0]
  have lt: "r_start_t r + r_t r * 10 < m_coarse s 0 + r_min_t r"
    using assms(4) n by (simp add: word_less_nat_alt)
  have "unat (m_coarse s 0) < 2 ^ 60" "unat (r_min_t r) < 2 ^ 60"
    using assms(1) by (simp_all add: clock_sane_def)
  then have "unat (m_coarse s 0 + r_min_t r) < 2 ^ 62"
    using n(3) by simp
  from behind_min [OF lt this assms(3)] lt show ?thesis
    by (simp add: assms(2) getCoarseTime_def Let_def)
qed


lemma release_keeps_clock:
  assumes "clock_sane r s" and "r_released r'" and "r_start_t r' = r_start_t r" "r_min_t r' = r_min_t r"
    and "r_t r' = (if r_released r then r_t r else r_t r + 1000)"
    and "m_coarse s' = (\<lambda>i. m_coarse s (Suc i))"
  shows "clock_sane r' s'" and "caught_up r' x = caught_up r x"
proof -
  have "unat (r_t r) + (if r_released r then 0 else 1000) < 2 ^ 56"
    using assms(1) by (simp add: clock_sane_def)
  then have "unat (r_t r') = unat (r_t r) + (if r_released r then 0 else 1000)"
    using assms(5) by (simp add: unat_word_ariths split: if_splits)
  then show "clock_sane r' s'" "caught_up r' x = caught_up r x"
    using assms by (simp_all add: clock_sane_def caught_up_def)
qed

context pulser_port
begin

lemma output_wait_totR:
  assumes "inv (m_p s)" and "e_P E = P"
  shows "totR (output_wait E checked t (r, s)) (\<lambda>_. True)"
  unfolding output_wait_def prod.case assms(2)
  by (rule totR_bind [OF output_waits_totR [OF assms(1)]]) simp

lemma wait_poll_idle:
  assumes inv: "inv (m_p s)" and P: "e_P E = P" and t: "\<not> r_released r \<longrightarrow> t \<ge> 2000"
    and idle: "no_work (e_Q E) s"
  shows "totR (wait_poll E checked t (r, s)) (\<lambda>(t', (r', s')).
     inv (m_p s') \<and> quiet s s' \<and> m_coarse s' = m_coarse s \<and> r_released r' \<and>
     r_start_t r' = r_start_t r \<and> r_min_t r' = r_min_t r \<and> t' \<le> t \<and>
     r_t r' = (if r_released r then r_t r else r_t r + 1000))"
  unfolding wait_poll_def
  by (rule totR_bind [OF release_first_totR [OF inv P t]])
     (use idle in \<open>auto simp: process_nothing no_work_def quiet_def\<close>)

lemma wait_loop_totR:
  assumes P: "e_P E = P" and id: "e_frontend E = (\<lambda>s. s)" and "inv (m_p s)" and "no_work (e_Q E) s"
    and "clock_sane r s" and "unat t < 2 ^ 58" and "\<not> r_released r \<longrightarrow> t \<ge> 2000"
    and "caught_up r (m_coarse s n)" and "n < fuel"
  shows "totR (wait_loop E checked fuel t (r, s)) (\<lambda>_. True)"
  using assms(3-)
proof (induction n arbitrary: fuel t r s)
  case 0
  then obtain f where f: "fuel = Suc f"
    by (cases fuel) auto
  have "unat (r_start_t r) + 10 * unat (r_t r) < unat (m_coarse s 0) + unat (r_min_t r)"
    using "0.prems"(6) by (simp add: caught_up_def split: if_splits)
  then show ?case
    using wait_behind [OF "0.prems"(3) id "0.prems"(4)] output_wait_totR [OF _ P] "0.prems"(1)
    by (simp add: f getCoarseTime_def)
next
  case (Suc n)
  then obtain f where f: "fuel = Suc f" "n < f"
    by (cases fuel) auto
  let ?s = "s\<lparr>m_coarse := \<lambda>i. m_coarse s (Suc i)\<rparr>"
  show ?case
  proof (cases "unat (r_start_t r) + 10 * unat (r_t r) < unat (m_coarse s 0) + unat (r_min_t r)")
    case True
    then show ?thesis
      using wait_behind [OF Suc.prems(3) id Suc.prems(4)] output_wait_totR [OF _ P] Suc.prems(1)
      by (simp add: f getCoarseTime_def)
  next
    case False
    then have ge: "\<not> r_start_t r + r_t r * 10 < m_coarse s 0 + r_min_t r"
      using seq_time_nat [OF Suc.prems(3)] by (simp add: word_less_nat_alt)
    have "totR (bindR (wait_poll E checked t (r, ?s)) (\<lambda>(t', rs'). wait_loop E checked f t' rs')) (\<lambda>_. True)"
    proof (rule totR_bind [OF wait_poll_idle [OF _ P Suc.prems(5)]], goal_cases)
      case (3 x)
      obtain t' r' s' where x: "x = (t', (r', s'))"
        by (cases x) auto
      note c = release_keeps_clock [OF Suc.prems(3), of r' s']
      have "totR (wait_loop E checked f t' (r', s')) (\<lambda>_. True)"
      proof (rule Suc.IH [OF _ _ _ _ _ _ f(2)])
        show "inv (m_p s')" "no_work (e_Q E) s'" "clock_sane r' s'" "\<not> r_released r' \<longrightarrow> 2000 \<le> t'"
          "caught_up r' (m_coarse s' n)"
          using 3(2) Suc.prems(2,6) c by (auto simp: x no_work_def quiet_def)
        show "unat t' < 2 ^ 58"
          using 3(2) Suc.prems(4) by (auto simp: x word_le_nat_alt)
      qed
      then show ?case
        by (simp add: x)
    qed (use Suc.prems(1,2) in \<open>simp_all add: no_work_def\<close>)
    then show ?thesis
      using ge by (simp add: f id getCoarseTime_def Let_def)
  qed
qed

end

section \<open>Properties\<close>


definition demo_exe :: exe_fn where
  "demo_exe is_cmd mt code ver = ([R_ttl 5 50 0, R_wait 300], None)"

lemma fresh_dummy_ok: "ctrl_ok dummy_inv snd None fresh_dummy"
  by (simp add: ctrl_ok_def DummyPulser_inv)
     (simp add: ctrl_shape_def queues_ok_def fresh_dummy_def controller_fields_def)

lemma dummy_env_ok: "env_ok dummy_inv fst snd dummy_env"
  by (simp add: env_ok_def list_fqueue_laws unit_times_def max_wait_t_eq)




text \<open>
  C21: once the sequence is behind the safety margin, \<^verbatim>\<open>Runner::wait\<close> outputs the whole rest of the
  wait at once and serves no more requests: \<^verbatim>\<open>seq_rt - thresh_rt\<close> is computed with
  \<^verbatim>\<open>seq_rt < thresh_rt\<close> and wraps around, so the piece it means to output first is longer than any
  wait.
\<close>

theorem wait_behind_outputs_all:
  assumes "clock_sane r s" and "e_frontend E = (\<lambda>s. s)" and "unat t < 2 ^ 58"
    and "unat (r_start_t r) + 10 * unat (r_t r) < unat (m_coarse s 0) + unat (r_min_t r)"
  shows "wait_loop E checked (Suc fuel) t (r, s) = output_wait E checked t (r, snd (getCoarseTime s))"
  by (rule wait_behind [OF assms])

theorem wait_behind_outputs_all_witness:
  "wait_loop dummy_env True (Suc 0) 100000000 (demo_runner, fresh_dummy) =
     output_wait dummy_env True 100000000 (demo_runner, snd (getCoarseTime fresh_dummy))"
  by (rule wait_behind_outputs_all)
     (simp_all add: clock_sane_def demo_runner_def fresh_dummy_def controller_fields_def)

text \<open>
  C22: the remaining time of \<^verbatim>\<open>Runner::wait\<close> wraps around when a request takes longer than what is
  left of the wait: the loop then goes on with almost \<open>2 ^ 64\<close> steps to wait for.
\<close>

theorem wait_remaining_wraps:
  assumes "r_released r" and "process_reqcmd E checked (Some r, s) = Inr ((stept, True), (Some r', s'))"
    and "t < ucast stept"
  shows "\<exists>t' rs'. wait_poll E checked t (r, s) = Inr (t', rs') \<and>
     unat t' = 2 ^ 64 - (unat stept - unat t)"
proof -
  have "unat stept < 2 ^ LENGTH(32)"
    by (rule unsigned_less)
  then have "unat (ucast stept :: u64) = unat stept"
    by (simp add: unsigned_ucast_eq take_bit_nat_eq_self)
  moreover have "unat t < unat (ucast stept :: u64)"
    using assms(3) by (simp add: word_less_nat_alt)
  ultimately show ?thesis
    using assms by (simp add: wait_poll_def release_first_def unat_sub_if')
qed

definition busy_hw :: "(addr list \<times> addr list, nat, nat, u32 \<Rightarrow> u32) controller" where
  "busy_hw = fresh_hw\<lparr>m_cmd_queue := ([], [0]), m_cmd_store := (\<lambda>_. None)(0 \<mapsto>
     \<lparr>rc_opcode = DDSFreq, rc_has_res = False, rc_is_override = False, rc_operand = 3, rc_val = 1000\<rparr>)\<rparr>"

theorem wait_remaining_wraps_witness:
  "\<exists>t' rs'. wait_poll hw_env True 10 (demo_runner\<lparr>r_released := True\<rparr>, busy_hw) = Inr (t', rs') \<and>
     unat t' = 2 ^ 64 - (unat (50 :: u32) - unat (10 :: u64))"
proof -
  have init: "m_dds_ovr busy_hw = replicate 22 DDSState_init" "m_cmd_queue busy_hw = ([], [0])"
    "m_cmd_waiting busy_hw = None"
    "m_cmd_store busy_hw 0 = Some \<lparr>rc_opcode = DDSFreq, rc_has_res = False, rc_is_override = False,
       rc_operand = 3, rc_val = 1000\<rparr>"
    by (simp_all add: busy_hw_def fresh_hw_def controller_fields_def NDDS_def)
  have v: "valid_pulse (P_dds_set_freq True 3 1000)"
    by (simp add: bank_simps)
  let ?r = "demo_runner\<lparr>r_released := True\<rparr>"
  obtain s' where "process_reqcmd hw_env True (Some ?r, busy_hw) = Inr ((50, True), (Some ?r, s'))"
    by (simp add: process_reqcmd_def try_get_result_def get_cmd_def list_fqueue_def process_next_def
        init run_cmd_def run_cmd_freq_def keep_runner_def DDSState_init_def issue_hw [OF v] unit_times_def)
  from wait_remaining_wraps [OF _ this, of 10] show ?thesis
    by simp
qed

end
