(* ===== verification/Override_Sync.thy ===== *)
theory Override_Sync
  imports Controller_Instances
begin

unbundle bit_operations_syntax

text \<open>
  DDS overrides are kept twice: the frontend answers \<^verbatim>\<open>get_dds_ovr\<close> from \<^verbatim>\<open>CmdCache\<close>
  (\<^verbatim>\<open>lib/ctrl_iface.cpp\<close>) and the backend decides by \<^verbatim>\<open>m_dds_ovr\<close> (\<^verbatim>\<open>lib/controller.cpp\<close>). No
  message keeps the two in step; each side derives its value from the same set requests. The
  theory shows that they stay equal, request by request.
\<close>

text \<open>The override of a channel as the backend has it; \<open>-1\<close> for none, as in the cache.\<close>

definition backend_ovr :: "ReqOP \<Rightarrow> ('q, 'cb, 'nt, 'p) controller \<Rightarrow> nat \<Rightarrow> u32" where
  "backend_ovr op s chn =
     (let o' = m_dds_ovr s ! chn
      in case op of
           DDSFreq \<Rightarrow> ds_freq o'
         | DDSAmp \<Rightarrow> (if ds_amp_enable o' then ucast (ds_amp o') else -1)
         | DDSPhase \<Rightarrow> (if ds_phase_enable o' then ucast (ds_phase o') else -1)
         | _ \<Rightarrow> -1)"

text \<open>The values that fit the backend's fields: 12 bits of amplitude, 16 of phase.\<close>

definition ovr_value :: "ReqOP \<Rightarrow> u32 \<Rightarrow> bool" where
  "ovr_value op v \<longleftrightarrow> v = -1 \<or> op = DDSFreq \<or> (op = DDSAmp \<and> v < 0x1000) \<or> (op = DDSPhase \<and> v < 0xffff)"

definition set_req :: "ReqOP \<Rightarrow> bool \<Rightarrow> u32 \<Rightarrow> u32 \<Rightarrow> ReqCmd" where
  "set_req op ovr chn v = \<lparr>rc_opcode = op, rc_has_res = False, rc_is_override = ovr,
     rc_operand = chn AND operand_mask, rc_val = v\<rparr>"

lemma issue_ovr: "issue P c s = Inr s' \<Longrightarrow> m_dds_ovr s' = m_dds_ovr s"
  by (auto simp: issue_def p_do_def called_def)

lemma small_chn: "unat (chn :: u32) < 22 \<Longrightarrow> chn AND operand_mask = chn"
  by (rule operand_mask_small) (simp add: word_less_nat_alt)

lemma ucast_amp:
  assumes "v < 0x1000"
  shows "ucast ((ucast (v :: u32) :: u16) AND (push_bit 12 1 - 1)) = v" "(ucast v :: u16) AND (push_bit 12 1 - 1) = ucast v"
proof -
  have "take_bit 12 v = v"
    using assms by (simp add: word_unat_eq_iff unsigned_take_bit_eq take_bit_nat_eq_self word_less_nat_alt)
  then have b: "bit v k \<Longrightarrow> k < 12" for k
    by (metis bit_take_bit_iff)
  have m: "x AND (push_bit 12 1 - 1) = take_bit 12 x" for x :: u16
    by (simp add: take_bit_eq_mask mask_eq_exp_minus_1)
  show "ucast ((ucast v :: u16) AND (push_bit 12 1 - 1)) = v" "(ucast v :: u16) AND (push_bit 12 1 - 1) = ucast v"
    unfolding m by (rule bit_word_eqI; auto simp: bit_simps dest: b)+
qed

lemma ucast_phase:
  assumes "v < 0xffff"
  shows "ucast (ucast (v :: u32) :: u16) = v" "(ucast v :: u16) \<noteq> -1"
proof -
  have v: "unat v < 0xffff"
    using assms by (simp add: word_less_nat_alt)
  then show "ucast (ucast v :: u16) = v"
    by (simp add: word_unat_eq_iff unsigned_ucast_eq unsigned_take_bit_eq take_bit_nat_eq_self)
  have "unat (ucast v :: u16) = unat v"
    using v by (simp add: unsigned_ucast_eq unsigned_take_bit_eq take_bit_nat_eq_self)
  moreover have "unat (-1 :: u16) = 0xffff"
    by (simp add: unsigned_minus_1_eq_mask mask_eq_exp_minus_1)
  ultimately show "(ucast v :: u16) \<noteq> -1"
    using v by (metis nat_less_le)
qed


section \<open>One request\<close>

text \<open>Both sides follow the same rule: an override is replaced, a plain set only updates one.\<close>

definition next_ovr :: "bool \<Rightarrow> u32 \<Rightarrow> u32 \<Rightarrow> u32" where
  "next_ovr is_override v old = (if is_override \<or> old \<noteq> -1 then v else -1)"

lemma cache_follows:
  assumes "is_dds_op op" and "chn < 2 ^ 26" and "cache_set t op chn ovr v c = Inr (c', calls)"
  shows "cached_ovr c' op chn = next_ovr ovr v (cached_ovr c op chn)"
  using assms cache_set_normal [OF assms(1,2), of t v c c' calls]
    cache_set_override [OF assms(1), of t chn v c c' calls]
  by (cases ovr) (auto simp: next_ovr_def)

lemma amp_field: "ucast (a :: u16) \<noteq> (-1 :: u32)"
proof
  assume "ucast a = (-1 :: u32)"
  then have "bit (ucast a :: u32) 31"
    by simp
  then show False
    by (simp add: bit_simps) (auto dest: bit_imp_le_length)
qed

text \<open>What the 12 bit amplitude field can hold.\<close>

definition amps_small :: "('q, 'cb, 'nt, 'p) controller \<Rightarrow> bool" where
  "amps_small s \<longleftrightarrow> (\<forall>o' \<in> set (m_dds_ovr s). ds_amp o' < 0x1000)"

lemma run_freq_follows:
  assumes "run_cmd_freq E checked (set_req op ovr chn v) s = Inr (res, s')" and "unat chn < 22"
    and "length (m_dds_ovr s) = 22" and "i < 22"
  shows "m_dds_ovr s' ! i = (if i = unat chn then (m_dds_ovr s ! i)
     \<lparr>ds_freq := next_ovr ovr v (ds_freq (m_dds_ovr s ! i))\<rparr> else m_dds_ovr s ! i)
     \<and> length (m_dds_ovr s') = 22"
  using assms
  by (auto simp: run_cmd_freq_def set_req_def small_chn Let_def next_ovr_def split: if_splits
      dest!: issue_ovr)

text \<open>The entry of a channel after an amplitude or a phase request.\<close>

definition amp_next :: "bool \<Rightarrow> u32 \<Rightarrow> DDSState \<Rightarrow> DDSState" where
  "amp_next ovr v x =
     (if \<not> (ovr \<or> ds_amp_enable x) \<or> (ucast v = ds_amp x \<and> ds_amp_enable x) then x
      else if v = -1 then x\<lparr>ds_amp_enable := False\<rparr>
      else x\<lparr>ds_amp := ucast v AND (push_bit 12 1 - 1), ds_amp_enable := True\<rparr>)"

definition phase_next :: "bool \<Rightarrow> u32 \<Rightarrow> DDSState \<Rightarrow> DDSState" where
  "phase_next ovr v x =
     (if \<not> (ovr \<or> ds_phase_enable x) \<or> (ucast v = ds_phase x \<and> ds_phase_enable x) then x
      else if v = -1 then x\<lparr>ds_phase_enable := False\<rparr>
      else x\<lparr>ds_phase := ucast v, ds_phase_enable := True\<rparr>)"

lemma run_amp_follows:
  assumes "run_cmd_amp E checked (set_req op ovr chn v) s = Inr (res, s')" and "unat chn < 22"
    and "length (m_dds_ovr s) = 22" and "i < 22"
  shows "m_dds_ovr s' ! i = (if i = unat chn then amp_next ovr v (m_dds_ovr s ! i) else m_dds_ovr s ! i)
     \<and> length (m_dds_ovr s') = 22"
  using assms
  by (auto simp: run_cmd_amp_def set_req_def small_chn Let_def amp_next_def split: if_splits
      dest!: issue_ovr)

lemma run_phase_follows:
  assumes "run_cmd_phase E checked (set_req op ovr chn v) s = Inr (res, s')" and "unat chn < 22"
    and "length (m_dds_ovr s) = 22" and "i < 22"
  shows "m_dds_ovr s' ! i = (if i = unat chn then phase_next ovr v (m_dds_ovr s ! i) else m_dds_ovr s ! i)
     \<and> length (m_dds_ovr s') = 22"
  using assms
  by (auto simp: run_cmd_phase_def set_req_def small_chn Let_def phase_next_def updR_eq_Inr
      split: if_splits dest!: issue_ovr)

lemma ucast_minus_1: "(ucast (-1 :: u32) :: u16) = -1"
  by (rule bit_word_eqI) (simp add: bit_simps)

lemma amp_next_ovr:
  assumes "v = -1 \<or> v < 0x1000" and "ds_amp x < 0x1000"
  shows "(if ds_amp_enable (amp_next ovr v x) then ucast (ds_amp (amp_next ovr v x)) else -1) =
     next_ovr ovr v (if ds_amp_enable x then ucast (ds_amp x) else -1)"
    and "ds_amp (amp_next ovr v x) < 0x1000"
proof -
  have m1: "(ucast (-1 :: u32) :: u16) \<noteq> ds_amp x"
    using assms(2) by (auto simp: ucast_minus_1 word_less_nat_alt unsigned_minus_1_eq_mask
        mask_eq_exp_minus_1 dest!: sym [of "-1"])
  have "ucast v = ds_amp x \<Longrightarrow> v \<noteq> -1 \<Longrightarrow> ucast (ds_amp x) = v"
    using assms(1) ucast_amp [of v] by auto
  then show "(if ds_amp_enable (amp_next ovr v x) then ucast (ds_amp (amp_next ovr v x)) else -1) =
     next_ovr ovr v (if ds_amp_enable x then ucast (ds_amp x) else -1)"
    using assms(1) m1 ucast_amp [of v] amp_field [of "ds_amp x"]
    by (auto simp: amp_next_def next_ovr_def)
  have "(y :: u16) AND (push_bit 12 1 - 1) < 0x1000" for y
  proof -
    have "unat (take_bit 12 y) < 2 ^ 12"
      using take_bit_nat_less_exp [of 12 "unat y"] by (simp add: unsigned_take_bit_eq)
    then show ?thesis
      by (simp add: take_bit_eq_mask mask_eq_exp_minus_1 word_less_nat_alt)
  qed
  then show "ds_amp (amp_next ovr v x) < 0x1000"
    using assms(2) by (simp add: amp_next_def)
qed

lemma phase_next_ovr:
  assumes "v = -1 \<or> v < 0xffff" and "ds_phase x \<noteq> -1"
  shows "(if ds_phase_enable (phase_next ovr v x) then ucast (ds_phase (phase_next ovr v x)) else -1) =
     next_ovr ovr v (if ds_phase_enable x then ucast (ds_phase x) else -1)"
    and "ds_phase (phase_next ovr v x) \<noteq> -1"
proof -
  have "ucast v = ds_phase x \<Longrightarrow> v \<noteq> -1 \<Longrightarrow> ucast (ds_phase x) = v"
    using assms(1) ucast_phase [of v] by auto
  then show "(if ds_phase_enable (phase_next ovr v x) then ucast (ds_phase (phase_next ovr v x)) else -1) =
     next_ovr ovr v (if ds_phase_enable x then ucast (ds_phase x) else -1)"
    using assms ucast_phase [of v] amp_field [of "ds_phase x"] ucast_minus_1
    by (auto simp: phase_next_def next_ovr_def)
  show "ds_phase (phase_next ovr v x) \<noteq> -1"
    using assms ucast_phase [of v] by (auto simp: phase_next_def)
qed


section \<open>Any number of requests\<close>

text \<open>A set request as both sides see it.\<close>

record ovr_req =
  q_op :: ReqOP
  q_ovr :: bool
  q_chn :: u32
  q_val :: u32

definition req_ok :: "ovr_req \<Rightarrow> bool" where
  "req_ok q \<longleftrightarrow> is_dds_op (q_op q) \<and> unat (q_chn q) < 22 \<and> ovr_value (q_op q) (q_val q)"

definition frontend_req :: "u64 \<Rightarrow> ovr_req \<Rightarrow> 'cb cmd_cache \<Rightarrow> 'cb cmd_cache result" where
  "frontend_req t q c =
     bindR (cache_set t (q_op q) (q_chn q) (q_ovr q) (q_val q) c) (\<lambda>(c', _). Inr c')"

definition backend_req ::
  "('q, 'cb, 'nt, 'p) ctrl_env \<Rightarrow> bool \<Rightarrow> ovr_req \<Rightarrow> ('q, 'cb, 'nt, 'p) rstate
    \<Rightarrow> ('q, 'cb, 'nt, 'p) rstate result" where
  "backend_req E checked q rs =
     bindR (run_cmd E checked (set_req (q_op q) (q_ovr q) (q_chn q) (q_val q)) rs) (\<lambda>(_, rs'). Inr rs')"

definition fields_ok :: "('q, 'cb, 'nt, 'p) controller \<Rightarrow> bool" where
  "fields_ok s \<longleftrightarrow> length (m_dds_ovr s) = 22 \<and>
     (\<forall>i < 22. ds_amp (m_dds_ovr s ! i) < 0x1000 \<and> ds_phase (m_dds_ovr s ! i) \<noteq> -1)"

text \<open>The entry of a channel after any of the three.\<close>

definition entry_next :: "ovr_req \<Rightarrow> DDSState \<Rightarrow> DDSState" where
  "entry_next q x =
     (case q_op q of
        DDSFreq \<Rightarrow> x\<lparr>ds_freq := next_ovr (q_ovr q) (q_val q) (ds_freq x)\<rparr>
      | DDSAmp \<Rightarrow> amp_next (q_ovr q) (q_val q) x
      | DDSPhase \<Rightarrow> phase_next (q_ovr q) (q_val q) x
      | _ \<Rightarrow> x)"

definition entry_ovr :: "ReqOP \<Rightarrow> DDSState \<Rightarrow> u32" where
  "entry_ovr op x =
     (case op of
        DDSFreq \<Rightarrow> ds_freq x
      | DDSAmp \<Rightarrow> (if ds_amp_enable x then ucast (ds_amp x) else -1)
      | DDSPhase \<Rightarrow> (if ds_phase_enable x then ucast (ds_phase x) else -1)
      | _ \<Rightarrow> -1)"

lemma backend_ovr_entry: "backend_ovr op s i = entry_ovr op (m_dds_ovr s ! i)"
  by (simp add: backend_ovr_def entry_ovr_def Let_def)

lemma backend_entries:
  assumes "req_ok q" and "length (m_dds_ovr s) = 22" and "backend_req E checked q (r, s) = Inr (r', s')"
    and "i < 22"
  shows "m_dds_ovr s' ! i = (if i = unat (q_chn q) then entry_next q (m_dds_ovr s ! i) else m_dds_ovr s ! i)
     \<and> length (m_dds_ovr s') = 22"
  using assms run_freq_follows [of E checked "q_op q" "q_ovr q" "q_chn q" "q_val q" s _ s' i]
    run_amp_follows [of E checked "q_op q" "q_ovr q" "q_chn q" "q_val q" s _ s' i]
    run_phase_follows [of E checked "q_op q" "q_ovr q" "q_chn q" "q_val q" s _ s' i]
  by (cases "q_op q")
     (auto simp: req_ok_def is_dds_op_def backend_req_def run_cmd_def set_req_def keep_runner_def entry_next_def)

lemma entry_next_ovr:
  assumes "req_ok q" and "ds_amp x < 0x1000" and "ds_phase x \<noteq> -1"
  shows "entry_ovr (q_op q) (entry_next q x) = next_ovr (q_ovr q) (q_val q) (entry_ovr (q_op q) x)"
    and "op \<noteq> q_op q \<Longrightarrow> entry_ovr op (entry_next q x) = entry_ovr op x"
    and "ds_amp (entry_next q x) < 0x1000 \<and> ds_phase (entry_next q x) \<noteq> -1"
proof -
  note a = amp_next_ovr [OF _ assms(2)] and p = phase_next_ovr [OF _ assms(3)]
  have v: "q_op q = DDSFreq \<or> q_op q = DDSAmp \<and> (q_val q = -1 \<or> q_val q < 0x1000) \<or>
      q_op q = DDSPhase \<and> (q_val q = -1 \<or> q_val q < 0xffff)"
    using assms(1) by (auto simp: req_ok_def is_dds_op_def ovr_value_def)
  show "entry_ovr (q_op q) (entry_next q x) = next_ovr (q_ovr q) (q_val q) (entry_ovr (q_op q) x)"
    using v a(1) p(1) by (elim disjE conjE) (simp_all add: entry_ovr_def entry_next_def)
  show "op \<noteq> q_op q \<Longrightarrow> entry_ovr op (entry_next q x) = entry_ovr op x"
    using v by (elim disjE conjE; cases op)
      (auto simp: entry_ovr_def entry_next_def amp_next_def phase_next_def)
  show "ds_amp (entry_next q x) < 0x1000 \<and> ds_phase (entry_next q x) \<noteq> -1"
    using v a(2) p(2) assms(2,3)
    by (elim disjE conjE) (auto simp: entry_next_def amp_next_def phase_next_def)
qed

lemma backend_follows:
  assumes ok: "req_ok q" and f: "fields_ok s" and r: "backend_req E checked q (r, s) = Inr (r', s')"
  shows "fields_ok s'"
    and "i < 22 \<Longrightarrow> backend_ovr op s' i =
       (if op = q_op q \<and> i = unat (q_chn q) then next_ovr (q_ovr q) (q_val q) (backend_ovr op s i)
        else backend_ovr op s i)"
proof -
  have len: "length (m_dds_ovr s) = 22"
    using f by (simp add: fields_ok_def)
  note e = backend_entries [OF ok len r]
  have x: "ds_amp (m_dds_ovr s ! j) < 0x1000" "ds_phase (m_dds_ovr s ! j) \<noteq> -1" if "j < 22" for j
    using f that by (simp_all add: fields_ok_def)
  show "fields_ok s'"
    using e x entry_next_ovr(3) [OF ok] e [of 0] by (simp add: fields_ok_def)
  show "i < 22 \<Longrightarrow> backend_ovr op s' i =
       (if op = q_op q \<and> i = unat (q_chn q) then next_ovr (q_ovr q) (q_val q) (backend_ovr op s i)
        else backend_ovr op s i)"
    using e [of i] entry_next_ovr(1,2) [OF ok x] by (auto simp: backend_ovr_entry)
qed

lemma cache_set_other:
  assumes "cache_set t op a ovr v c = Inr (c', calls)"
    and "\<And>b. cache_key op a b \<noteq> Inr k"
  shows "c' k = c k"
  using assms(1) assms(2) [of True] assms(2) [of False]
  by (cases ovr) (auto simp: cache_set_def update_entry_def Let_def split: if_splits option.splits)

lemma frontend_follows:
  assumes ok: "req_ok q" and r: "frontend_req t q c = Inr c'" and i: "i < 22" and op: "is_dds_op op"
  shows "cached_ovr c' op (of_nat i) =
     (if op = q_op q \<and> i = unat (q_chn q) then next_ovr (q_ovr q) (q_val q) (cached_ovr c op (of_nat i))
      else cached_ovr c op (of_nat i))"
proof -
  obtain calls where cs: "cache_set t (q_op q) (q_chn q) (q_ovr q) (q_val q) c = Inr (c', calls)"
    using r by (auto simp: frontend_req_def)
  have u: "unat (of_nat i :: u32) = i"
    using i by (simp add: unsigned_of_nat take_bit_nat_eq_self)
  have small: "q_chn q < 2 ^ 26" "(of_nat i :: u32) < 2 ^ 26"
    using ok u i by (simp_all add: req_ok_def word_less_nat_alt)
  show ?thesis
  proof (cases "op = q_op q \<and> i = unat (q_chn q)")
    case True
    then have "of_nat i = q_chn q"
      by simp
    then show ?thesis
      using True cache_follows [OF _ small(1) cs] ok by (simp add: req_ok_def)
  next
    case False
    obtain k where k: "cache_key op (of_nat i) True = Inr k"
      using op by simp
    have "cache_key (q_op q) (q_chn q) b \<noteq> Inr k" for b
      using cache_key_inject [OF small(1,2) _ k, of "q_op q" b] False u by auto
    then have "c' k = c k"
      by (rule cache_set_other [OF cs])
    then show ?thesis
      using False k by (auto simp: cached_ovr_def)
  qed
qed

text \<open>Both sides hold the same overrides.\<close>

definition in_sync :: "'cb cmd_cache \<Rightarrow> ('q, 'cb, 'nt, 'p) controller \<Rightarrow> bool" where
  "in_sync c s \<longleftrightarrow> (\<forall>op i. is_dds_op op \<longrightarrow> i < 22 \<longrightarrow> cached_ovr c op (of_nat i) = backend_ovr op s i)"

lemma requests_keep_sync:
  assumes "\<forall>q \<in> set qs. req_ok q" and "fields_ok s" and "in_sync c s"
    and "foldR (frontend_req t) qs c = Inr c'" and "foldR (backend_req E checked) qs (r, s) = Inr (r', s')"
  shows "in_sync c' s'"
  using assms
proof (induction qs arbitrary: c r s)
  case Nil
  then show ?case by simp
next
  case (Cons q qs)
  obtain c1 where c1: "frontend_req t q c = Inr c1" "foldR (frontend_req t) qs c1 = Inr c'"
    using Cons.prems(4) by auto
  obtain r1 s1 where s1: "backend_req E checked q (r, s) = Inr (r1, s1)"
    "foldR (backend_req E checked) qs (r1, s1) = Inr (r', s')"
    using Cons.prems(5) by auto
  have ok: "req_ok q"
    using Cons.prems(1) by simp
  note b = backend_follows [OF ok Cons.prems(2) s1(1)]
  have "in_sync c1 s1"
    unfolding in_sync_def
  proof (intro allI impI)
    fix op i
    assume op: "is_dds_op op" and i: "i < (22 :: nat)"
    then have "cached_ovr c op (of_nat i) = backend_ovr op s i"
      using Cons.prems(3) by (simp add: in_sync_def)
    then show "cached_ovr c1 op (of_nat i) = backend_ovr op s1 i"
      by (simp only: frontend_follows [OF ok c1(1) i op] b(2) [OF i])
  qed
  then show ?case
    using Cons.IH [OF _ b(1) _ c1(2) s1(2)] Cons.prems(1) by simp
qed


section \<open>Properties\<close>


definition demo_reqs :: "ovr_req list" where
  "demo_reqs = [\<lparr>q_op = DDSFreq, q_ovr = True, q_chn = 3, q_val = 1000\<rparr>,
     \<lparr>q_op = DDSFreq, q_ovr = False, q_chn = 3, q_val = 2000\<rparr>]"


text \<open>
  C23: a phase override of \<open>0xffff\<close> cannot be switched off: the request to disable it is taken for
  a repetition of the same value, and the channel stays overridden.
\<close>

theorem phase_ffff_override_stuck:
  assumes "length (m_dds_ovr s) = 22" and "unat chn < 22" and "ds_phase_enable (m_dds_ovr s ! unat chn)"
    and "ds_phase (m_dds_ovr s ! unat chn) = 0xffff"
  shows "run_cmd E checked (set_req DDSPhase True chn (-1)) (r, s) = Inr ((0, False), (r, s))"
  using assms
  by (simp add: run_cmd_def run_cmd_phase_def keep_runner_def set_req_def small_chn ucast_minus_1 Let_def)

theorem phase_ffff_override_stuck_witness:
  "run_cmd hw_env False (set_req DDSPhase True 5 (-1))
     (None, fresh_hw\<lparr>m_dds_ovr := replicate 22 (DDSState_init\<lparr>ds_phase_enable := True, ds_phase := 0xffff\<rparr>)\<rparr>)
   = Inr ((0, False),
     (None, fresh_hw\<lparr>m_dds_ovr := replicate 22 (DDSState_init\<lparr>ds_phase_enable := True, ds_phase := 0xffff\<rparr>)\<rparr>))"
  by (rule phase_ffff_override_stuck) simp_all

end
