(* ===== verification/Seq_Protocol.thy ===== *)
theory Seq_Protocol
  imports Controller_Instances
begin

text \<open>
  The life of a sequence, from \<^verbatim>\<open>_run_code\<close> to the destructor of its notification object, with the
  frontend and the worker running at the same time. The steps are the atomic accesses of
  \<^verbatim>\<open>lib/ctrl_iface.cpp\<close> and of \<^verbatim>\<open>run_seq\<close> and \<^verbatim>\<open>worker\<close> in \<^verbatim>\<open>lib/controller.cpp\<close>: \<^verbatim>\<open>run_frontend\<close> is cut
  between its peek at the current sequence, each pop, and the callbacks of the current sequence,
  and the worker may move between any two of them.
\<close>

section \<open>Steps\<close>

text \<open>Where the frontend thread is: outside \<^verbatim>\<open>run_frontend\<close>, in its loop, or past it.\<close>

datatype fpc = FIdle | FPop "addr option" | FCur addr

text \<open>The notifications a sequence gets, by the state they announce.\<close>

fun seq_event :: "('cb, 'nt) call \<Rightarrow> (ReqSeqState \<times> u64) list" where
  "seq_event (NotifyStart n i) = [(SeqStart, i)]"
| "seq_event (NotifyFlushed n i) = [(SeqFlushed, i)]"
| "seq_event (NotifyEnd n i) = [(SeqEnd, i)]"
| "seq_event (NotifyCancel n i) = [(SeqCancel, i)]"
| "seq_event _ = []"

definition seq_events :: "('cb, 'nt) call list \<Rightarrow> (ReqSeqState \<times> u64) list" where
  "seq_events log = concat (map seq_event log)"

text \<open>Steps of the program that leave the sequences alone: requests, callbacks, polling.\<close>

definition same_seqs ::
  "('q, 'cb, 'nt, 'p) controller \<Rightarrow> ('q, 'cb, 'nt, 'p) controller \<Rightarrow> bool" where
  "same_seqs s s' \<longleftrightarrow> m_seq_queue s' = m_seq_queue s \<and> m_seq_store s' = m_seq_store s \<and>
     m_seq_next s' = m_seq_next s \<and> m_seq_cnt s' = m_seq_cnt s \<and>
     seq_events (m_log s') = seq_events (m_log s)"

inductive seq_step ::
  "'q fqueue_ops \<Rightarrow> fpc \<times> ('q, 'cb, 'nt, 'p) controller \<Rightarrow> fpc \<times> ('q, 'cb, 'nt, 'p) controller \<Rightarrow> bool"
  for Q where
  submit: "m_seq_cnt s + 1 \<noteq> 0 \<Longrightarrow>
     seq_step Q (FIdle, s) (FIdle, snd (seq_run_code Q is_cmd ver len ttl_mask code notify s))"
| request_cancel: "cancel_seq Q sid s = Inr (found, s') \<Longrightarrow> seq_step Q (FIdle, s) (FIdle, s')"
| other: "same_seqs s s' \<Longrightarrow> seq_step Q (pc, s) (pc, s')"
| set_state: "get_seq Q s = Some a \<Longrightarrow> m_seq_store s a = Some seq \<Longrightarrow>
     (rs_state seq, st) \<in> {(SeqInit, SeqStart), (SeqStart, SeqFlushed), (SeqFlushed, SeqEnd)} \<or>
       rs_cancel seq \<and> rs_state seq = SeqInit \<and> st = SeqCancel \<Longrightarrow>
     set_seq_state a st s = Inr s' \<Longrightarrow> seq_step Q (pc, s) (pc, s')"
| finish: "get_seq Q s = Some a \<Longrightarrow> m_seq_store s a = Some seq \<Longrightarrow>
     rs_state seq = SeqEnd \<or> rs_state seq = SeqCancel \<Longrightarrow> seq_step Q (pc, s) (pc, finish_seq Q s)"
| enter: "seq_step Q (FIdle, s) (FPop (fq_peek_filter Q (m_seq_queue s)), s\<lparr>m_bkend_evt := 0\<rparr>)"
| pop: "fq_pop Q (m_seq_queue s) = (Some a, q) \<Longrightarrow> run_callbacks a (s\<lparr>m_seq_queue := q\<rparr>) = Inr s1 \<Longrightarrow>
     free_seq a s1 = Inr s2 \<Longrightarrow>
     seq_step Q (FPop cur, s) (FPop (if cur = Some a then None else cur), s2)"
| pop_none: "fq_pop Q (m_seq_queue s) = (None, q) \<Longrightarrow>
     seq_step Q (FPop cur, s)
       ((case cur of None \<Rightarrow> FIdle | Some a \<Rightarrow> FCur a), s\<lparr>m_seq_queue := q\<rparr>)"
| current: "run_callbacks a s = Inr s' \<Longrightarrow> seq_step Q (FCur a, s) (FIdle, s')"

definition seq_init ::
  "('q \<Rightarrow> addr list) \<Rightarrow> ('q \<Rightarrow> addr list) \<Rightarrow> ('q, 'cb, 'nt, 'p) controller \<Rightarrow> bool" where
  "seq_init fin pend s \<longleftrightarrow> fin (m_seq_queue s) = [] \<and> pend (m_seq_queue s) = [] \<and> m_seq_cnt s = 0 \<and>
     seq_events (m_log s) = []"

inductive seq_reach ::
  "'q fqueue_ops \<Rightarrow> ('q \<Rightarrow> addr list) \<Rightarrow> ('q \<Rightarrow> addr list) \<Rightarrow> fpc \<times> ('q, 'cb, 'nt, 'p) controller \<Rightarrow> bool"
  for Q fin pend where
  start: "seq_init fin pend s \<Longrightarrow> seq_reach Q fin pend (FIdle, s)"
| step: "seq_reach Q fin pend x \<Longrightarrow> seq_step Q x y \<Longrightarrow> seq_reach Q fin pend y"

section \<open>What the notifications of one sequence are\<close>

fun events_upto :: "u64 \<Rightarrow> ReqSeqState \<Rightarrow> (ReqSeqState \<times> u64) list" where
  "events_upto i SeqInit = []"
| "events_upto i SeqStart = [(SeqStart, i)]"
| "events_upto i SeqFlushed = [(SeqStart, i), (SeqFlushed, i)]"
| "events_upto i SeqEnd = [(SeqStart, i), (SeqFlushed, i), (SeqEnd, i)]"
| "events_upto i SeqCancel = [(SeqCancel, i)]"

text \<open>What has been processed is an earlier state of the same life.\<close>

definition progress :: "ReqSeqState \<Rightarrow> ReqSeqState \<Rightarrow> bool" where
  "progress p st \<longleftrightarrow> p = st \<or> p = SeqInit \<or> (SeqInit \<le> p \<and> p \<le> st)"

lemma seq_events_append [simp]: "seq_events (xs @ ys) = seq_events xs @ seq_events ys"
  by (simp add: seq_events_def)

lemma seq_events_simps [simp]:
  "seq_events [] = []" "seq_events (c # cs) = seq_event c @ seq_events cs"
  by (simp_all add: seq_events_def)

lemma events_catch_up:
  assumes "progress (rs_processed_state seq) (rs_state seq)"
  shows "events_upto (rs_id seq) (rs_processed_state seq) @ seq_events (seq_notifications seq) =
     events_upto (rs_id seq) (rs_state seq)"
  using assms
  by (cases "rs_state seq"; cases "rs_processed_state seq")
     (simp_all add: seq_notifications_def progress_def seq_state_less Let_def)

section \<open>The invariant\<close>

text \<open>
  \<open>ds\<close> records, for every sequence that was freed, the state it ended in. The queue holds the
  sequences after those, in the order of their ids, and only the oldest of them has had any
  notification.
\<close>

fun pc_ok :: "fpc \<Rightarrow> addr list \<Rightarrow> addr list \<Rightarrow> bool" where
  "pc_ok FIdle f q = True"
| "pc_ok (FPop None) f q = True"
| "pc_ok (FPop (Some a)) f q = (\<exists>xs ys. q = xs @ a # ys \<and> length xs \<le> length f)"
| "pc_ok (FCur a) f q = (\<exists>ys. q = a # ys)"

definition over :: "ReqSeqState \<Rightarrow> bool" where
  "over st \<longleftrightarrow> st = SeqEnd \<or> st = SeqCancel"

definition told :: "ReqSeqState list \<Rightarrow> (ReqSeqState \<times> u64) list" where
  "told ds = concat (map (\<lambda>(i, st). events_upto (of_nat i) st) (enumerate 1 ds))"

abbreviation seq_ids :: "('q, 'cb, 'nt, 'p) controller \<Rightarrow> addr list \<Rightarrow> u64 list" where
  "seq_ids s q \<equiv> map (\<lambda>a. rs_id (the (m_seq_store s a))) q"

definition head_events :: "('q, 'cb, 'nt, 'p) controller \<Rightarrow> addr list \<Rightarrow> (ReqSeqState \<times> u64) list" where
  "head_events s q = (case q of [] \<Rightarrow> []
     | a # _ \<Rightarrow> let x = the (m_seq_store s a) in events_upto (rs_id x) (rs_processed_state x))"

definition store_ok :: "('q, 'cb, 'nt, 'p) controller \<Rightarrow> addr list \<Rightarrow> addr list \<Rightarrow> bool" where
  "store_ok s f p \<longleftrightarrow> distinct (f @ p) \<and>
     (\<forall>a \<in> set (f @ p). a < m_seq_next s \<and> (\<exists>x. m_seq_store s a = Some x \<and>
        progress (rs_processed_state x) (rs_state x))) \<and>
     (\<forall>a \<in> set f. over (rs_state (the (m_seq_store s a)))) \<and>
     (\<forall>a \<in> set (tl (f @ p)). rs_processed_state (the (m_seq_store s a)) = SeqInit)"

definition seq_inv_at ::
  "addr list \<Rightarrow> addr list \<Rightarrow> fpc \<Rightarrow> ('q, 'cb, 'nt, 'p) controller \<Rightarrow> ReqSeqState list \<Rightarrow> bool" where
  "seq_inv_at f p pc s ds \<longleftrightarrow> store_ok s f p \<and> pc_ok pc f (f @ p) \<and> (\<forall>d \<in> set ds. over d) \<and>
     length ds + length (f @ p) = unat (m_seq_cnt s) \<and>
     seq_ids s (f @ p) = map of_nat [Suc (length ds) ..< Suc (unat (m_seq_cnt s))] \<and>
     seq_events (m_log s) = told ds @ head_events s (f @ p)"

definition seq_inv ::
  "('q \<Rightarrow> addr list) \<Rightarrow> ('q \<Rightarrow> addr list) \<Rightarrow> fpc \<times> ('q, 'cb, 'nt, 'p) controller
    \<Rightarrow> ReqSeqState list \<Rightarrow> bool" where
  "seq_inv fin pend = (\<lambda>(pc, s). seq_inv_at (fin (m_seq_queue s)) (pend (m_seq_queue s)) pc s)"

lemma told_snoc: "told (ds @ [st]) = told ds @ events_upto (of_nat (Suc (length ds))) st"
  by (simp add: told_def enumerate_append_eq)

lemma unat_Suc_cnt: "(c :: u64) + 1 \<noteq> 0 \<Longrightarrow> unat (c + 1) = Suc (unat c)"
  by (metis Suc_eq_plus1 add.commute unatSuc)

text \<open>The parts of the state that the invariant reads.\<close>

definition life :: "'nt ReqSeq \<Rightarrow> u64 \<times> ReqSeqState \<times> ReqSeqState" where
  "life x = (rs_id x, rs_processed_state x, rs_state x)"

lemma lifeD:
  assumes "map_option life o1 = map_option life o2" and "o2 = Some x"
  obtains y where "o1 = Some y" "rs_id y = rs_id x" "rs_processed_state y = rs_processed_state x"
    "rs_state y = rs_state x"
  using assms by (auto simp: life_def)

lemma in_set_tl: "a \<in> set (tl xs) \<Longrightarrow> a \<in> set xs"
  by (cases xs) auto

lemma seq_inv_at_cong:
  assumes eq: "\<And>a. a \<in> set (f @ p) \<Longrightarrow> map_option life (m_seq_store s' a) = map_option life (m_seq_store s a)"
    and "m_seq_next s \<le> m_seq_next s'" and "m_seq_cnt s' = m_seq_cnt s"
    and "seq_events (m_log s') = seq_events (m_log s)" and inv: "seq_inv_at f p pc s ds"
  shows "seq_inv_at f p pc s' ds"
proof -
  have st: "store_ok s f p"
    using inv by (simp add: seq_inv_at_def)
  have same: "\<exists>x y. m_seq_store s a = Some x \<and> m_seq_store s' a = Some y \<and> rs_id y = rs_id x \<and>
      rs_processed_state y = rs_processed_state x \<and> rs_state y = rs_state x" if "a \<in> set (f @ p)" for a
  proof -
    obtain x where "m_seq_store s a = Some x"
      using st \<open>a \<in> set (f @ p)\<close> unfolding store_ok_def by blast
    with lifeD [OF eq [OF that] this] show ?thesis
      by metis
  qed
  have "head_events s' (f @ p) = head_events s (f @ p)"
    using same [of "hd (f @ p)"] by (cases "f @ p") (auto simp: head_events_def)
  moreover have "seq_ids s' (f @ p) = seq_ids s (f @ p)"
    using same by (intro map_cong [OF refl]) fastforce
  moreover have "store_ok s' f p"
    unfolding store_ok_def
  proof (intro conjI ballI)
    show "distinct (f @ p)"
      using st by (simp add: store_ok_def)
  next
    fix a assume a: "a \<in> set (f @ p)"
    then show "a < m_seq_next s'"
      using st assms(2) unfolding store_ok_def by (meson order.strict_trans2)
    show "\<exists>x. m_seq_store s' a = Some x \<and> progress (rs_processed_state x) (rs_state x)"
      using same [OF a] st a unfolding store_ok_def by (metis option.inject)
  next
    fix a assume "a \<in> set f"
    then show "over (rs_state (the (m_seq_store s' a)))"
      using same [of a] st by (force simp: store_ok_def)
  next
    fix a assume a: "a \<in> set (tl (f @ p))"
    then show "rs_processed_state (the (m_seq_store s' a)) = SeqInit"
      using same [OF in_set_tl [OF a]] st by (force simp: store_ok_def)
  qed
  ultimately show ?thesis
    using assms(3-5) by (simp add: seq_inv_at_def del: map_append map_eq_conv upt_Suc)
qed

lemma set_tl_snoc: "b \<in> set (tl (xs @ [a])) \<Longrightarrow> b = a \<or> b \<in> set (tl xs)"
  by (cases xs) auto

lemma submit_inv:
  assumes inv: "seq_inv_at f p FIdle s ds" and "m_seq_cnt s + 1 \<noteq> 0"
    and s': "s' = snd (seq_run_code Q is_cmd ver len ttl_mask code notify s)"
  shows "seq_inv_at f (p @ [m_seq_next s]) FIdle s' ds"
proof -
  let ?a = "m_seq_next s"
  note defs = s' seq_run_code_def set_dirty_def log_calls_def Let_def
  let ?s = "s'\<lparr>m_seq_cnt := m_seq_cnt s\<rparr>"
  have new: "?a \<notin> set (f @ p)"
    using inv by (auto simp: seq_inv_at_def store_ok_def)
  have old: "seq_inv_at f p FIdle ?s ds"
    by (rule seq_inv_at_cong [OF _ _ _ _ inv]) (use new in \<open>auto simp: defs\<close>)
  have a: "m_seq_next s' = Suc ?a" "m_seq_cnt s' = m_seq_cnt s + 1"
    "\<exists>x. m_seq_store s' ?a = Some x \<and> rs_id x = m_seq_cnt s + 1 \<and> rs_state x = SeqInit \<and>
       rs_processed_state x = SeqInit"
    by (auto simp: defs)
  have "head_events s' ((f @ p) @ [?a]) = head_events s' (f @ p)"
    using a(3) by (cases "f @ p") (auto simp: head_events_def)
  moreover have "store_ok s' f (p @ [?a])"
  proof -
    have st: "store_ok ?s f p" "\<forall>b \<in> set (f @ p). b < ?a"
      using old inv by (auto simp: seq_inv_at_def store_ok_def)
    obtain x where x: "m_seq_store s' ?a = Some x" "rs_state x = SeqInit" "rs_processed_state x = SeqInit"
      using a(3) by blast
    have "rs_processed_state (the (m_seq_store s' b)) = SeqInit" if "b \<in> set (tl ((f @ p) @ [?a]))" for b
      using set_tl_snoc [OF that] st(1) x by (auto simp: store_ok_def)
    then show ?thesis
      using st a(1) x new by (auto simp: store_ok_def progress_def)
  qed
  moreover have "head_events ?s (f @ p) = head_events s' (f @ p)"
    by (simp add: head_events_def split: list.split)
  ultimately show ?thesis
    using old a unat_Suc_cnt [OF assms(2)] by (auto simp: seq_inv_at_def)
qed

text \<open>Cancelling only sets the flag.\<close>

lemma cancel_loop_life:
  "cancel_loop sid as found st = Inr (r, st') \<Longrightarrow>
   map_option life (st' a) = map_option life (st a)"
  by (induction as arbitrary: found st)
     (fastforce simp: life_def split: option.splits if_splits)+

lemma cancel_inv:
  assumes "seq_inv_at f p pc s ds" and "cancel_seq Q sid s = Inr (found, s')"
  shows "seq_inv_at f p pc s' ds \<and> m_seq_queue s' = m_seq_queue s"
proof -
  obtain st where st: "cancel_loop sid (fq_items Q (m_seq_queue s)) False (m_seq_store s) = Inr (found, st)"
    and s': "s' = s\<lparr>m_seq_store := st\<rparr>"
    using assms(2) by (auto simp: cancel_seq_def bindR_eq_Inr)
  show ?thesis
    using seq_inv_at_cong [OF _ _ _ _ assms(1), of s'] cancel_loop_life [OF st] s' by simp
qed

text \<open>The worker sets the state of the oldest unfinished sequence, then passes it on.\<close>

lemma set_state_inv:
  assumes inv: "seq_inv_at f (a # p) pc s ds" and seq: "m_seq_store s a = Some seq"
    and st: "progress (rs_processed_state seq) st" and s': "set_seq_state a st s = Inr s'"
  shows "seq_inv_at f (a # p) pc s' ds \<and> m_seq_queue s' = m_seq_queue s"
proof -
  have s'_eq: "s' = s\<lparr>m_seq_store := (m_seq_store s)(a \<mapsto> seq\<lparr>rs_state := st\<rparr>)\<rparr>"
    using s' seq by (simp add: set_seq_state_def)
  have store: "store_ok s f (a # p)"
    using inv by (simp add: seq_inv_at_def)
  have "head_events s' (f @ a # p) = head_events s (f @ a # p)"
    using seq by (cases f) (auto simp: head_events_def s'_eq)
  moreover have "seq_ids s' (f @ a # p) = seq_ids s (f @ a # p)"
    using seq by (intro map_cong [OF refl]) (simp add: s'_eq)
  moreover have "store_ok s' f (a # p)"
    using store seq st by (auto simp: store_ok_def s'_eq)
  ultimately show ?thesis
    using inv by (simp add: seq_inv_at_def s'_eq del: map_append map_eq_conv upt_Suc)
qed

lemma finish_inv:
  assumes inv: "seq_inv_at f (a # p) pc s ds" and "over (rs_state (the (m_seq_store s a)))"
    and s': "s' = finish_seq Q s"
  shows "seq_inv_at (f @ [a]) p pc s' ds"
proof -
  have "pc_ok pc (f @ [a]) (f @ a # p)"
  proof (cases pc)
    case (FPop cur)
    then show ?thesis
      using inv by (cases cur) (auto simp: seq_inv_at_def intro: le_SucI)
  qed (use inv in \<open>auto simp: seq_inv_at_def\<close>)
  then have "seq_inv_at (f @ [a]) p pc s ds"
    using inv assms(2) by (auto simp: seq_inv_at_def store_ok_def simp del: upt_Suc)
  then show ?thesis
    by (rule seq_inv_at_cong [rotated -1]) (simp_all add: s' finish_seq_def backend_event_def)
qed

text \<open>The frontend tells the oldest sequence in the queue what it missed, and frees it when it is over.\<close>

lemma inv_head:
  assumes "seq_inv_at f p pc s ds" and "f @ p = a # q"
  obtains x where "m_seq_store s a = Some x" "progress (rs_processed_state x) (rs_state x)"
    "rs_id x = of_nat (Suc (length ds))" "a \<notin> set q" "a \<in> set f \<Longrightarrow> over (rs_state x)"
    "seq_ids s q = map of_nat [Suc (Suc (length ds)) ..< Suc (unat (m_seq_cnt s))]"
proof -
  have store: "store_ok s f p"
    and ids: "seq_ids s (a # q) = map of_nat [Suc (length ds) ..< Suc (unat (m_seq_cnt s))]"
    and len: "length ds + length (a # q) = unat (m_seq_cnt s)"
    using assms by (simp_all add: seq_inv_at_def del: upt_Suc)
  have "a \<in> set (f @ p)" "distinct (a # q)"
    using assms(2) store by (simp_all only: store_ok_def assms(2) [symmetric]) (simp add: assms(2))
  moreover have "[Suc (length ds) ..< Suc (unat (m_seq_cnt s))] =
      Suc (length ds) # [Suc (Suc (length ds)) ..< Suc (unat (m_seq_cnt s))]"
    using len by (intro upt_conv_Cons) simp
  moreover obtain x where x: "m_seq_store s a = Some x" "progress (rs_processed_state x) (rs_state x)"
    using store calculation(1) unfolding store_ok_def by blast
  ultimately show ?thesis
    using store ids by (intro that [OF x]) (auto simp: store_ok_def x simp del: upt_Suc)
qed

lemma callbacks_inv:
  assumes inv: "seq_inv_at f p pc s ds" and q: "f @ p = a # q" and s': "run_callbacks a s = Inr s'"
  shows "seq_inv_at f p FIdle s' ds" and "m_seq_queue s' = m_seq_queue s"
    and "rs_processed_state (the (m_seq_store s' a)) = rs_state (the (m_seq_store s' a))"
proof -
  obtain x where x: "m_seq_store s a = Some x" "progress (rs_processed_state x) (rs_state x)"
    using inv_head [OF inv q] by metis
  have s'_eq: "s' = s\<lparr>m_seq_store := (m_seq_store s)(a \<mapsto> x\<lparr>rs_processed_state := rs_state x\<rparr>),
      m_log := m_log s @ seq_notifications x\<rparr>"
    using s' x by (simp add: run_callbacks_def log_calls_def)
  have store: "store_ok s f p" and distinct: "a \<notin> set q"
    using inv inv_head [OF inv q] by (auto simp: seq_inv_at_def)
  have "seq_ids s' (a # q) = seq_ids s (a # q)"
    using x by (intro map_cong [OF refl]) (simp add: s'_eq)
  moreover have "told ds @ head_events s (a # q) @ seq_events (seq_notifications x) =
      told ds @ head_events s' (a # q)"
    using x events_catch_up [OF x(2)] by (simp add: head_events_def s'_eq)
  moreover have "store_ok s' f p"
    using store x distinct unfolding store_ok_def q by (auto simp: s'_eq progress_def q)
  ultimately show "seq_inv_at f p FIdle s' ds"
    using inv by (simp add: seq_inv_at_def q s'_eq del: list.map map_eq_conv upt_Suc)
  show "m_seq_queue s' = m_seq_queue s"
    "rs_processed_state (the (m_seq_store s' a)) = rs_state (the (m_seq_store s' a))"
    by (simp_all add: s'_eq)
qed

lemma free_inv:
  assumes inv: "seq_inv_at (a # f) p pc s ds" and s': "free_seq a s = Inr s'"
    and told: "rs_processed_state (the (m_seq_store s a)) = rs_state (the (m_seq_store s a))"
  shows "seq_inv_at f p FIdle s' (ds @ [rs_state (the (m_seq_store s a))])"
    and "m_seq_queue s' = m_seq_queue s"
proof -
  have q: "(a # f) @ p = a # f @ p"
    by simp
  obtain x where x: "m_seq_store s a = Some x" "rs_id x = of_nat (Suc (length ds))" "over (rs_state x)"
    and ids: "a \<notin> set (f @ p)"
      "seq_ids s (f @ p) = map of_nat [Suc (Suc (length ds)) ..< Suc (unat (m_seq_cnt s))]"
    by (rule inv_head [OF inv q]) (auto simp del: upt_Suc)
  have s'_eq: "s' = s\<lparr>m_seq_store := (m_seq_store s)(a := None), m_log := m_log s @ [NotifyFree (rs_notify x)]\<rparr>"
    using s' x by (simp add: free_seq_def log_calls_def)
  have store: "store_ok s (a # f) p"
    using inv by (simp add: seq_inv_at_def)
  have "seq_ids s' (f @ p) = seq_ids s (f @ p)"
    using ids(1) by (intro map_cong [OF refl]) (auto simp: s'_eq)
  moreover have "head_events s' (f @ p) = []"
    using store ids(1) by (cases "f @ p") (auto simp: store_ok_def head_events_def s'_eq)
  moreover have "store_ok s' f p"
    using store ids(1) unfolding store_ok_def by (auto simp: s'_eq dest: in_set_tl)
  ultimately show "seq_inv_at f p FIdle s' (ds @ [rs_state (the (m_seq_store s a))])"
    using inv x ids(2) told
    by (simp add: seq_inv_at_def told_snoc head_events_def s'_eq del: map_append map_eq_conv upt_Suc of_nat_Suc)
  show "m_seq_queue s' = m_seq_queue s"
    by (simp add: s'_eq)
qed

section \<open>Every step keeps the invariant\<close>

lemma seq_inv_at_pc:
  "seq_inv_at f p pc s ds \<Longrightarrow> pc_ok pc' f (f @ p) \<Longrightarrow> seq_inv_at f p pc' s ds"
  by (simp add: seq_inv_at_def)

lemma progress_next:
  assumes "progress p st" and "(st, st') \<in> {(SeqInit, SeqStart), (SeqStart, SeqFlushed), (SeqFlushed, SeqEnd)} \<or>
     st = SeqInit \<and> st' = SeqCancel"
  shows "progress p st'"
  using assms by (cases p) (auto simp: progress_def seq_state_less)

lemma pop_inv:
  assumes inv: "seq_inv_at (a # f) p (FPop cur) s ds" and s1: "run_callbacks a s = Inr s1"
    and s2: "free_seq a s1 = Inr s2"
  shows "\<exists>st. seq_inv_at f p (FPop (if cur = Some a then None else cur)) s2 (ds @ [st])"
    and "m_seq_queue s2 = m_seq_queue s"
proof -
  note c = callbacks_inv [OF inv append_Cons s1]
  note d = free_inv [OF c(1) s2 c(3)]
  show "m_seq_queue s2 = m_seq_queue s"
    using c(2) d(2) by simp
  have "pc_ok (FPop (if cur = Some a then None else cur)) f (f @ p)"
  proof (cases cur)
    case (Some b)
    then obtain xs ys where "(a # f) @ p = xs @ b # ys" "length xs \<le> Suc (length f)"
      using inv by (auto simp: seq_inv_at_def)
    then show ?thesis
      using Some by (cases xs) auto
  qed simp
  then show "\<exists>st. seq_inv_at f p (FPop (if cur = Some a then None else cur)) s2 (ds @ [st])"
    using seq_inv_at_pc [OF d(1)] by blast
qed

lemma seq_step_inv:
  assumes Q: "fqueue_laws Q fin pend" and "seq_step Q x y" and "seq_inv fin pend x ds"
  shows "\<exists>ds'. seq_inv fin pend y (ds @ ds')"
  using assms(2,3)
proof cases
  case (submit s is_cmd ver len ttl_mask code notify)
  let ?s = "snd (seq_run_code Q is_cmd ver len ttl_mask code notify s)"
  have "m_seq_queue ?s = fq_push Q (m_seq_next s) (m_seq_queue s)"
    by (simp add: seq_run_code_def set_dirty_def log_calls_def Let_def)
  then show ?thesis
    using submit assms(3) submit_inv [OF _ submit(3) refl, of _ _ ds Q is_cmd ver len ttl_mask code notify]
    by (intro exI [of _ "[]"]) (simp add: seq_inv_def fqueue_lawsD [OF Q])
next
  case (request_cancel sid s found s')
  then show ?thesis
    using assms(3) cancel_inv [OF _ request_cancel(3)] by (intro exI [of _ "[]"]) (simp add: seq_inv_def)
next
  case (other s s' pc)
  have "seq_inv_at f p pc s' ds" if "seq_inv_at f p pc s ds" for f p
    using other(3) by (intro seq_inv_at_cong [OF _ _ _ _ that]) (simp_all add: same_seqs_def)
  then show ?thesis
    using other assms(3) by (intro exI [of _ "[]"]) (simp add: seq_inv_def same_seqs_def)
next
  case (set_state s a seq st s' pc)
  obtain p where p: "pend (m_seq_queue s) = a # p"
    using set_state(3) by (auto simp: get_seq_def fqueue_lawsD [OF Q] head_opt_eq_Some)
  have inv: "seq_inv_at (fin (m_seq_queue s)) (a # p) pc s ds"
    using assms(3) set_state(1) p by (simp add: seq_inv_def)
  have "progress (rs_processed_state seq) (rs_state seq)"
    using inv set_state(4) by (auto simp: seq_inv_at_def store_ok_def)
  then have "progress (rs_processed_state seq) st"
    using progress_next set_state(5) by blast
  from set_state_inv [OF inv set_state(4) this set_state(6)] show ?thesis
    using set_state(2) p by (intro exI [of _ "[]"]) (simp add: seq_inv_def)
next
  case (finish s a seq pc)
  obtain p where p: "pend (m_seq_queue s) = a # p"
    using finish(3) by (auto simp: get_seq_def fqueue_lawsD [OF Q] head_opt_eq_Some)
  have inv: "seq_inv_at (fin (m_seq_queue s)) (a # p) pc s ds"
    using assms(3) finish(1) p by (simp add: seq_inv_def)
  have "m_seq_queue (finish_seq Q s) = fq_forward_filter Q (m_seq_queue s)"
    by (simp add: finish_seq_def backend_event_def)
  with finish_inv [OF inv _ refl, of Q] show ?thesis
    using finish(2,4,5) p
    by (intro exI [of _ "[]"]) (auto simp: seq_inv_def over_def fqueue_lawsD [OF Q, where q = "m_seq_queue s"])
next
  case (enter s)
  let ?q = "m_seq_queue s" and ?s = "s\<lparr>m_bkend_evt := 0\<rparr>"
  have "seq_inv_at (fin ?q) (pend ?q) FIdle ?s ds"
    by (rule seq_inv_at_cong) (use assms(3) enter in \<open>auto simp: seq_inv_def\<close>)
  moreover have "pc_ok (FPop (fq_peek_filter Q ?q)) (fin ?q) (fin ?q @ pend ?q)"
    by (cases "pend ?q") (auto simp: fqueue_lawsD [OF Q])
  ultimately show ?thesis
    using enter seq_inv_at_pc by (intro exI [of _ "[]"]) (fastforce simp: seq_inv_def)
next
  case (pop s a q s1 s2 cur)
  let ?s = "s\<lparr>m_seq_queue := q\<rparr>"
  obtain f where f: "fin (m_seq_queue s) = a # f" "fin q = f" "pend q = pend (m_seq_queue s)"
    using pop(3) fqueue_lawsD(3-5) [OF Q, of "m_seq_queue s"]
    by (cases "fin (m_seq_queue s)") auto
  have inv: "seq_inv_at (a # f) (pend q) (FPop cur) ?s ds"
    by (rule seq_inv_at_cong) (use assms(3) pop(1) f in \<open>auto simp: seq_inv_def\<close>)
  show ?thesis
    using pop_inv [OF inv pop(4,5)] pop(2) f(2) by (auto simp: seq_inv_def)
next
  case (pop_none s q cur)
  let ?s = "s\<lparr>m_seq_queue := q\<rparr>"
  have f: "fin (m_seq_queue s) = []" "fin q = []" "pend q = pend (m_seq_queue s)"
    using pop_none(3) fqueue_lawsD(3-5) [OF Q, of "m_seq_queue s"]
    by (cases "fin (m_seq_queue s)"; auto)+
  have inv: "seq_inv_at [] (pend q) (FPop cur) ?s ds"
    by (rule seq_inv_at_cong) (use assms(3) pop_none(1) f in \<open>auto simp: seq_inv_def\<close>)
  then have "seq_inv_at [] (pend q) (case cur of None \<Rightarrow> FIdle | Some a \<Rightarrow> FCur a) ?s ds"
    by (intro seq_inv_at_pc [OF inv]) (auto simp: seq_inv_at_def split: option.splits)
  then show ?thesis
    using pop_none(2) f by (intro exI [of _ "[]"]) (simp add: seq_inv_def)
next
  case (current a s s')
  have inv: "seq_inv_at (fin (m_seq_queue s)) (pend (m_seq_queue s)) (FCur a) s ds"
    using assms(3) current(1) by (simp add: seq_inv_def)
  then obtain q where q: "fin (m_seq_queue s) @ pend (m_seq_queue s) = a # q"
    by (auto simp: seq_inv_at_def)
  from callbacks_inv(1,2) [OF inv q current(3)] show ?thesis
    using current(2) by (intro exI [of _ "[]"]) (simp add: seq_inv_def)
qed

lemma seq_reach_inv:
  assumes "fqueue_laws Q fin pend" and "seq_reach Q fin pend x"
  shows "\<exists>ds. seq_inv fin pend x ds"
  using assms(2)
proof induction
  case (start s)
  then show ?case
    by (intro exI [of _ "[]"])
       (simp add: seq_init_def seq_inv_def seq_inv_at_def store_ok_def told_def head_events_def)
next
  case (step x y)
  then show ?case
    using seq_step_inv [OF assms(1)] by blast
qed

section \<open>Properties\<close>

text \<open>
  C24: notifications come in order and without a gap, whatever the interleaving of the frontend and
  the worker. At any moment the notifications given so far are those of the sequences that were
  freed, in the order they were submitted, each either start, flushed, end or only cancel, followed
  by some of those of the next sequence; nothing was said to any later one. The sequences still in
  the queue are exactly the later ones.
\<close>

theorem notifications_in_order:
  assumes "fqueue_laws Q fin pend" and "seq_reach Q fin pend (pc, s)"
  shows "\<exists>ds st. (\<forall>d \<in> set ds. d = SeqEnd \<or> d = SeqCancel) \<and>
     seq_events (m_log s) =
       concat (map (\<lambda>(i, d). events_upto (of_nat i) d) (enumerate 1 ds))
       @ events_upto (of_nat (Suc (length ds))) st \<and>
     map (\<lambda>a. map_option rs_id (m_seq_store s a)) (fq_items Q (m_seq_queue s)) =
       map (\<lambda>i. Some (of_nat i)) [Suc (length ds) ..< Suc (unat (m_seq_cnt s))]"
proof -
  let ?q = "fin (m_seq_queue s) @ pend (m_seq_queue s)"
  obtain ds where inv: "seq_inv_at (fin (m_seq_queue s)) (pend (m_seq_queue s)) pc s ds"
    using seq_reach_inv [OF assms] by (auto simp: seq_inv_def)
  have "map (\<lambda>a. map_option rs_id (m_seq_store s a)) ?q = map Some (seq_ids s ?q)"
    using inv unfolding seq_inv_at_def store_ok_def list.map_comp by (intro map_cong [OF refl]) fastforce
  moreover have "\<exists>st. head_events s ?q = events_upto (of_nat (Suc (length ds))) st"
  proof (cases ?q)
    case Nil
    then show ?thesis
      by (intro exI [of _ SeqInit]) (simp add: head_events_def)
  next
    case (Cons a q)
    show ?thesis
      by (rule inv_head [OF inv Cons]) (auto simp: head_events_def Cons simp del: upt_Suc)
  qed
  ultimately show ?thesis
    using inv unfolding fqueue_lawsD(11) [OF assms(1)] seq_inv_at_def told_def over_def
    by (intro exI [of _ ds]) (auto simp: comp_def simp del: upt_Suc map_append)
qed

text \<open>
  A run on the list queue: a sequence is submitted and started, and the frontend has just told it.
\<close>

definition demo_state :: "(addr list \<times> addr list, nat, nat, dummy_pulser) controller result" where
  "demo_state =
     bindR (set_seq_state 0 SeqStart
       (snd (seq_run_code list_fqueue False 1 0 [] [] 7 fresh_dummy))) (\<lambda>s.
     run_callbacks 0 (s\<lparr>m_bkend_evt := 0, m_seq_queue := ([], [0])\<rparr>))"

lemmas demo_simps = fresh_dummy_def controller_fields_def seq_run_code_def set_dirty_def log_calls_def
  set_seq_state_def run_callbacks_def seq_notifications_def seq_state_less list_fqueue_def Let_def

lemma demo_log:
  "\<exists>s. demo_state = Inr s \<and> m_log s = [NotifySetId 7 1, NotifyStart 7 1] \<and>
     seq_reach list_fqueue fst snd (FIdle, s)"
proof -
  let ?s1 = "snd (seq_run_code list_fqueue False 1 0 [] [] 7 fresh_dummy)"
  obtain s2 where s2: "set_seq_state 0 SeqStart ?s1 = Inr s2"
    "m_seq_queue s2 = ([], [0])"
    by (simp add: demo_simps)
  let ?s3 = "s2\<lparr>m_bkend_evt := 0\<rparr>"
  obtain s5 where s5: "run_callbacks 0 (?s3\<lparr>m_seq_queue := ([], [0])\<rparr>) = Inr s5"
    "m_log s5 = [NotifySetId 7 1, NotifyStart 7 1]"
    using s2(1) by (auto simp: demo_simps)
  have "seq_reach list_fqueue fst snd (FIdle, fresh_dummy)"
    by (rule seq_reach.start) (simp add: seq_init_def fresh_dummy_def controller_fields_def)
  then have "seq_reach list_fqueue fst snd (FIdle, ?s1)"
    by (rule seq_reach.step) (rule seq_step.submit, simp add: demo_simps)
  then have "seq_reach list_fqueue fst snd (FIdle, s2)"
    by (rule seq_reach.step)
       (rule seq_step.set_state [OF _ _ _ s2(1)], simp add: get_seq_def demo_simps,
        simp add: demo_simps, simp)
  then have "seq_reach list_fqueue fst snd (FPop (Some 0), ?s3)"
    by (rule seq_reach.step) (use seq_step.enter [of list_fqueue s2] s2(2) in \<open>simp add: list_fqueue_def\<close>)
  then have "seq_reach list_fqueue fst snd (FCur 0, ?s3\<lparr>m_seq_queue := ([], [0])\<rparr>)"
    by (rule seq_reach.step)
       (use seq_step.pop_none [of list_fqueue ?s3 "([], [0])" "Some 0"] s2(2) in \<open>simp add: list_fqueue_def\<close>)
  then have "seq_reach list_fqueue fst snd (FIdle, s5)"
    by (rule seq_reach.step) (rule seq_step.current [OF s5(1)])
  then show ?thesis
    using s2(1) s5 by (simp add: demo_state_def)
qed

theorem notifications_in_order_witness:
  "\<exists>ds st. (\<forall>d \<in> set ds. d = SeqEnd \<or> d = SeqCancel) \<and>
     [(SeqStart, 1)] =
       concat (map (\<lambda>(i, d). events_upto (of_nat i) d) (enumerate 1 ds))
       @ events_upto (of_nat (Suc (length ds))) st"
proof -
  obtain s where "demo_state = Inr s" and s: "seq_reach list_fqueue fst snd (FIdle, s)"
    "m_log s = [NotifySetId 7 1, NotifyStart 7 1]"
    using demo_log by blast
  have "seq_events (m_log s) = [(SeqStart, 1)]"
    by (simp add: s(2))
  note s = s(1) this
  show ?thesis
    using notifications_in_order [OF list_fqueue_laws s(1)] unfolding s(2) by blast
qed

text \<open>
  C25: no sequence is used after it was freed, whatever the interleaving: every sequence that the
  frontend pops, the current sequence it looked up before its loop, and the one the worker gets
  are still allocated.
\<close>

theorem no_use_after_free:
  assumes "fqueue_laws Q fin pend" and "seq_reach Q fin pend (pc, s)"
  shows "(\<forall>cur a q. pc = FPop cur \<and> fq_pop Q (m_seq_queue s) = (Some a, q) \<longrightarrow>
       (\<exists>s1 s2. run_callbacks a (s\<lparr>m_seq_queue := q\<rparr>) = Inr s1 \<and> free_seq a s1 = Inr s2)) \<and>
     (\<forall>a. pc = FCur a \<longrightarrow> (\<exists>s'. run_callbacks a s = Inr s')) \<and>
     (\<forall>a. get_seq Q s = Some a \<longrightarrow> m_seq_store s a \<noteq> None)"
proof -
  let ?f = "fin (m_seq_queue s)" and ?p = "pend (m_seq_queue s)"
  obtain ds where inv: "seq_inv_at ?f ?p pc s ds"
    using seq_reach_inv [OF assms] by (auto simp: seq_inv_def)
  have alloc: "\<exists>x. m_seq_store s a = Some x" if "a \<in> set ?f \<or> a \<in> set ?p" for a
    using inv that unfolding seq_inv_at_def store_ok_def by auto
  have pop: "a \<in> set ?f" if "fq_pop Q (m_seq_queue s) = (Some a, q)" for a q
    using that fqueue_lawsD(3) [OF assms(1), of "m_seq_queue s"] by (cases ?f) auto
  have cur: "a \<in> set ?f \<or> a \<in> set ?p" if "pc = FCur a" for a
    using inv that unfolding seq_inv_at_def by (metis Un_iff list.set_intros(1) pc_ok.simps(4) set_append)
  have get: "a \<in> set ?p" if "get_seq Q s = Some a" for a
    using that by (auto simp: get_seq_def fqueue_lawsD [OF assms(1)] head_opt_eq_Some)
  show ?thesis
    using alloc pop cur get
    by (fastforce simp: run_callbacks_def free_seq_def log_calls_def split: option.splits)
qed

theorem no_use_after_free_witness:
  "\<exists>s. demo_state = Inr s \<and> (\<forall>a. get_seq list_fqueue s = Some a \<longrightarrow> m_seq_store s a \<noteq> None)"
proof -
  obtain s where s: "demo_state = Inr s" "seq_reach list_fqueue fst snd (FIdle, s)"
    using demo_log by blast
  show ?thesis
    using no_use_after_free [OF list_fqueue_laws s(2)] s(1) by blast
qed

end
