(* ===== verification/Frontend.thy ===== *)
theory Frontend
  imports Controller_Overrides Seq_Protocol "HOL-Library.Multiset"
begin

text \<open>
  What the clients of the frontend interface of \<^verbatim>\<open>lib/ctrl_iface.cpp\<close> can rely on: every reader is
  answered exactly once, \<^verbatim>\<open>run_frontend\<close> takes everything that the worker gave
  back, \<^verbatim>\<open>cancel_seq\<close> marks the sequences it names, and the state id changes whenever something
  that was read has been changed.
\<close>

section \<open>Readers in the command cache\<close>

text \<open>A history of the cache; every call of a callback is tagged with the key it is about.\<close>

datatype 'cb cache_op =
    CGet u64 ReqOP u32 bool 'cb
  | CSet u64 ReqOP u32 bool u32

type_synonym 'cb tagged = "(u32 \<times> 'cb \<times> u32) list"

fun cache_step :: "'cb cache_op \<Rightarrow> 'cb cmd_cache \<times> 'cb tagged \<Rightarrow> ('cb cmd_cache \<times> 'cb tagged) result" where
  "cache_step (CGet t op a ovr cb) (c, out) =
     bindR (cache_key op a ovr) (\<lambda>k. bindR (cache_get t op a ovr cb c) (\<lambda>(hit, c', calls).
       Inr (c', out @ map (Pair k) calls)))"
| "cache_step (CSet t op a ovr v) (c, out) =
     bindR (cache_key op a ovr) (\<lambda>k. bindR (cache_set t op a ovr v c) (\<lambda>(c', calls).
       Inr (c', out @ map (Pair k) calls)))"

fun asked :: "u32 \<Rightarrow> 'cb cache_op \<Rightarrow> 'cb list" where
  "asked k (CGet t op a ovr cb) = (if cache_key op a ovr = Inr k then [cb] else [])"
| "asked k (CSet t op a ovr v) = []"

fun op_small :: "'cb cache_op \<Rightarrow> bool" where
  "op_small (CGet t op a ovr cb) \<longleftrightarrow> a < 2 ^ 26"
| "op_small (CSet t op a ovr v) \<longleftrightarrow> a < 2 ^ 26"

definition called_for :: "u32 \<Rightarrow> 'cb tagged \<Rightarrow> 'cb list" where
  "called_for k out = map (\<lambda>(_, cb, _). cb) (filter (\<lambda>(k', _). k' = k) out)"

lemma called_for_append [simp]: "called_for k (xs @ ys) = called_for k xs @ called_for k ys"
  by (simp add: called_for_def)

lemma called_for_tag [simp]:
  "called_for k (map (Pair k') calls) = (if k' = k then map fst calls else [])"
  by (induction calls) (auto simp: called_for_def)

text \<open>Overrides are kept in software, so nobody ever waits for one.\<close>

definition no_ovr_waiting :: "'cb cmd_cache \<Rightarrow> bool" where
  "no_ovr_waiting c \<longleftrightarrow> (\<forall>k. bit k 26 \<longrightarrow> waiting c k = [])"

lemma cache_key_bit:
  assumes "cache_key op a ovr = Inr k" and "a < 2 ^ 26"
  shows "bit k 26 = ovr"
proof -
  have "bit k 26 = odd (drop_bit 26 k)"
    by (simp add: bit_iff_odd_drop_bit)
  then show ?thesis
    using assms cache_key_fields(3) [OF assms(2), of op ovr] by (simp add: cache_key_eq)
qed

lemma cache_get_counts:
  assumes "cache_get t op a ovr cb c = Inr (hit, c', calls)" and "cache_key op a ovr = Inr k"
    and "a < 2 ^ 26" and "no_ovr_waiting c"
  shows "(if k = k' then mset (map fst calls) else {#}) + mset (waiting c' k') =
      mset (waiting c k') + (if k = k' then {#cb#} else {#})"
    and "no_ovr_waiting c'"
proof -
  note acc = cache_get_accounts [OF assms(1,2)]
  have "mset (waiting c' k @ map fst calls) = mset (waiting c k @ [cb])"
    by (simp only: acc(1))
  then have "mset (map fst calls) + mset (waiting c' k) = add_mset cb (mset (waiting c k))"
    by (simp add: add.commute)
  moreover have "k' \<noteq> k \<Longrightarrow> waiting c' k' = waiting c k'"
    using acc(2) by (simp add: waiting_def)
  ultimately show "(if k = k' then mset (map fst calls) else {#}) + mset (waiting c' k') =
      mset (waiting c k') + (if k = k' then {#cb#} else {#})"
    by (cases "k' = k") auto
  have "ovr \<Longrightarrow> waiting c' k = waiting c k"
    using assms(1,2)
    by (auto simp: cache_get_def Let_def cache_entry_def waiting_def split: if_splits option.splits)
  then show "no_ovr_waiting c'"
    using assms(4) cache_key_bit [OF assms(2,3)] acc(2) unfolding no_ovr_waiting_def waiting_def
    by metis
qed

lemma cache_set_counts:
  assumes "cache_set t op a ovr v c = Inr (c', calls)" and "cache_key op a ovr = Inr k"
    and "a < 2 ^ 26" and "no_ovr_waiting c"
  shows "(if k = k' then mset (map fst calls) else {#}) + mset (waiting c' k') = mset (waiting c k')"
    and "no_ovr_waiting c'"
proof -
  have ovr: "waiting c k2 = []" if "cache_key op a True = Inr k2" for k2
    using cache_key_bit [OF that assms(3)] assms(4) by (simp add: no_ovr_waiting_def)
  have w: "waiting c' k = []" "k' \<noteq> k \<Longrightarrow> waiting c' k' = waiting c k'" "map fst calls = waiting c k" for k'
    using assms(1,2) ovr
    by (auto simp: cache_set_def update_entry_def Let_def waiting_entry comp_def bindR_eq_Inr
        split: if_splits option.splits)
  then show "(if k = k' then mset (map fst calls) else {#}) + mset (waiting c' k') = mset (waiting c k')"
    by (cases "k' = k") auto
  show "no_ovr_waiting c'"
    using assms(4) w(1,2) unfolding no_ovr_waiting_def by metis
qed

lemma cache_step_counts:
  assumes "cache_step x (c, out) = Inr (c', out')" and "op_small x" and "no_ovr_waiting c"
  shows "mset (called_for k out') + mset (waiting c' k) = mset (called_for k out) + mset (waiting c k) + mset (asked k x)"
    and "no_ovr_waiting c'"
proof (goal_cases)
  case 1
  show ?case
  proof (cases x)
    case (CGet t op a ovr cb)
    then obtain k0 hit calls where k: "cache_key op a ovr = Inr k0" "cache_get t op a ovr cb c = Inr (hit, c', calls)"
      "out' = out @ map (Pair k0) calls"
      using assms(1) by (auto simp: bindR_eq_Inr)
    show ?thesis
      using cache_get_counts(1) [OF k(2,1) _ assms(3), of k] assms(2) CGet k(1,3) by auto
  next
    case (CSet t op a ovr v)
    then obtain k0 calls where k: "cache_key op a ovr = Inr k0" "cache_set t op a ovr v c = Inr (c', calls)"
      "out' = out @ map (Pair k0) calls"
      using assms(1) by (auto simp: bindR_eq_Inr)
    show ?thesis
      using cache_set_counts(1) [OF k(2,1) _ assms(3), of k] assms(2) CSet k(3) by auto
  qed
next
  case 2
  show ?case
    using assms cache_get_counts(2) cache_set_counts(2)
    by (cases x) (auto simp: bindR_eq_Inr)
qed

lemma cache_steps_count:
  assumes "foldR cache_step xs (c, out) = Inr (c', out')" and "\<forall>x \<in> set xs. op_small x" and "no_ovr_waiting c"
  shows "mset (called_for k out') + mset (waiting c' k) =
     mset (called_for k out) + mset (waiting c k) + mset (concat (map (asked k) xs))"
  using assms
proof (induction xs arbitrary: c out)
  case (Cons x xs)
  obtain c1 out1 where s1: "cache_step x (c, out) = Inr (c1, out1)"
    and rest: "foldR cache_step xs (c1, out1) = Inr (c', out')"
    using Cons.prems(1) by (auto simp: bindR_eq_Inr)
  have x: "op_small x"
    using Cons.prems(2) by simp
  show ?case
    using Cons.IH [OF rest _ cache_step_counts(2) [OF s1 x Cons.prems(3)]] Cons.prems(2)
      cache_step_counts(1) [OF s1 x Cons.prems(3), of k]
    by (simp add: add.assoc add.commute)
qed simp

section \<open>Cancelling\<close>

definition cancels :: "u64 \<Rightarrow> 'nt ReqSeq \<Rightarrow> bool" where
  "cancels sid seq \<longleftrightarrow> sid = 0 \<or> rs_id seq = sid"

lemma cancel_loop_spec:
  assumes "\<forall>a \<in> set as. st a \<noteq> None"
  shows "cancel_loop sid as found st = Inr (found \<or> (\<exists>a \<in> set as. cancels sid (the (st a))),
     \<lambda>a. if a \<in> set as \<and> cancels sid (the (st a))
         then Some ((the (st a))\<lparr>rs_cancel := True\<rparr>) else st a)"
  using assms
proof (induction as arbitrary: found st)
  case Nil
  then show ?case by simp
next
  case (Cons a as)
  obtain seq where a: "st a = Some seq"
    using Cons.prems by auto
  let ?st = "st(a \<mapsto> seq\<lparr>rs_cancel := True\<rparr>)"
  show ?case
  proof (cases "cancels sid seq")
    case True
    moreover have "\<forall>b \<in> set as. ?st b \<noteq> None"
      using Cons.prems by auto
    moreover have "(\<lambda>b. if b \<in> set as \<and> cancels sid (the (?st b))
          then Some ((the (?st b))\<lparr>rs_cancel := True\<rparr>) else ?st b) =
        (\<lambda>b. if b \<in> set (a # as) \<and> cancels sid (the (st b))
          then Some ((the (st b))\<lparr>rs_cancel := True\<rparr>) else st b)"
      using True a by (auto simp: fun_eq_iff cancels_def)
    ultimately show ?thesis
      using Cons.IH [of ?st True] a by (simp add: cancels_def fun_upd_def)
  next
    case False
    then show ?thesis
      using Cons.IH [of st found] Cons.prems a by (auto simp: cancels_def fun_eq_iff)
  qed
qed

section \<open>Collecting what the worker gave back\<close>

text \<open>The two queues hold requests that are allocated, and answers to queries the cache knows.\<close>

definition answer_ok :: "ReqCmd \<Rightarrow> bool" where
  "answer_ok cmd \<longleftrightarrow> rc_has_res cmd \<longrightarrow>
     (\<exists>k. cache_key (rc_opcode cmd) (rc_operand cmd) (rc_is_override cmd) = Inr k)"

text \<open>No reader is dropped: it still waits, or it was called.\<close>

definition kept :: "('q, 'cb, 'nt, 'z) iface \<Rightarrow> ('q, 'cb, 'nt, 'z) iface \<Rightarrow> bool" where
  "kept s s' \<longleftrightarrow> set (m_log s) \<subseteq> set (m_log s') \<and>
     (\<forall>k. set (waiting (m_cmd_cache s') k) \<subseteq> set (waiting (m_cmd_cache s) k) \<and>
        (\<forall>cb \<in> set (waiting (m_cmd_cache s) k). cb \<in> set (waiting (m_cmd_cache s') k) \<or>
           (\<exists>v. Callback cb v \<in> set (m_log s'))))"

lemma kept_trans: "kept s1 s2 \<Longrightarrow> kept s2 s3 \<Longrightarrow> kept s1 s3"
  unfolding kept_def by (meson subset_iff)

lemma kept_refl: "m_log s' = m_log s \<Longrightarrow> m_cmd_cache s' = m_cmd_cache s \<Longrightarrow> kept s s'"
  by (simp add: kept_def)

lemma cache_set_keeps:
  assumes "cache_set t op a ovr v c = Inr (c', calls)" and "cb \<in> set (waiting c k)"
  shows "cb \<in> set (waiting c' k) \<or> (cb, v) \<in> set calls"
  using assms
  by (auto simp: cache_set_def update_entry_def Let_def waiting_entry bindR_eq_Inr split: if_splits option.splits)

lemma cmd_cache_set_total:
  assumes "cache_key op a ovr = Inr k"
  shows "\<exists>s'. cmd_cache_set op a ovr v s = Inr s' \<and> m_cmd_queue s' = m_cmd_queue s \<and>
     m_cmd_store s' = m_cmd_store s \<and> m_seq_queue s' = m_seq_queue s \<and> m_seq_store s' = m_seq_store s \<and>
     m_bkend_evt s' = m_bkend_evt s \<and> waiting (m_cmd_cache s') k = [] \<and> kept s s'"
proof -
  obtain c' calls where c: "cache_set (m_times s 0) op a ovr v (m_cmd_cache s) = Inr (c', calls)"
    using cache_set_total [of op ovr "m_times s 0" a v "m_cmd_cache s"] assms by (auto simp: cache_key_eq)
  show ?thesis
    using cache_set_accounts(1,3) [OF c assms] cache_set_keeps [OF c] c
    by (force simp: cmd_cache_set_def getTime_def log_calls_def kept_def Let_def)
qed

definition farewell :: "'nt ReqSeq \<Rightarrow> ('cb, 'nt) call list" where
  "farewell seq = seq_notifications seq @ [NotifyFree (rs_notify seq)]"

text \<open>What the loops over the queues leave alone.\<close>

lemma frontend_seqs_total:
  assumes Q: "fqueue_laws Q fin pend"
    and "distinct (fin (m_seq_queue s))" and "\<forall>a \<in> set (fin (m_seq_queue s)). m_seq_store s a \<noteq> None"
    and "length (fin (m_seq_queue s)) < fuel"
  shows "\<exists>s'. frontend_seqs Q fuel cur s =
       Inr ((if cur \<in> Some ` set (fin (m_seq_queue s)) then None else cur), s') \<and>
     fin (m_seq_queue s') = [] \<and> pend (m_seq_queue s') = pend (m_seq_queue s) \<and>
     (\<forall>a. m_seq_store s' a = (if a \<in> set (fin (m_seq_queue s)) then None else m_seq_store s a)) \<and>
     m_log s' = m_log s @ concat (map (\<lambda>a. farewell (the (m_seq_store s a))) (fin (m_seq_queue s))) \<and>
     m_cmd_queue s' = m_cmd_queue s \<and> m_cmd_store s' = m_cmd_store s \<and>
     m_cmd_cache s' = m_cmd_cache s \<and> m_bkend_evt s' = m_bkend_evt s"
  using assms(2-)
proof (induction "fin (m_seq_queue s)" arbitrary: s fuel cur)
  case Nil
  note q = fqueue_lawsD(3-5) [OF Q, of "m_seq_queue s"]
  have "fin (m_seq_queue s) = []"
    using Nil(1) by simp
  moreover obtain n where "fuel = Suc n"
    using Nil.prems(3) by (cases fuel) auto
  ultimately show ?case
    using q by (cases "fq_pop Q (m_seq_queue s)") auto
next
  case (Cons a f)
  note q = fqueue_lawsD(3-5) [OF Q, of "m_seq_queue s"] Cons(2) [symmetric]
  obtain n where n: "fuel = Suc n" "length f < n"
    using Cons.prems(3) q(4) by (cases fuel) auto
  obtain seq where seq: "m_seq_store s a = Some seq"
    using Cons.prems(2) q(4) by auto
  obtain q' where pop: "fq_pop Q (m_seq_queue s) = (Some a, q')" and q': "fin q' = f"
    "pend q' = pend (m_seq_queue s)"
    using q by (cases "fq_pop Q (m_seq_queue s)") auto
  let ?s = "s\<lparr>m_seq_queue := q', m_seq_store := (m_seq_store s)(a := None),
      m_log := m_log s @ farewell seq\<rparr>"
  have step: "frontend_seqs Q fuel cur s = frontend_seqs Q n (if cur = Some a then None else cur) ?s"
    using pop seq by (simp add: n run_callbacks_def free_seq_def log_calls_def farewell_def Let_def)
  have a: "a \<notin> set f" and f: "f = fin (m_seq_queue ?s)"
    using q(4) q' Cons.prems(1) by simp_all
  have same: "map (\<lambda>b. farewell (the (m_seq_store ?s b))) f = map (\<lambda>b. farewell (the (m_seq_store s b))) f"
    using a by (intro map_cong [OF refl]) auto
  have pre: "distinct (fin (m_seq_queue ?s))" "\<forall>b \<in> set (fin (m_seq_queue ?s)). m_seq_store ?s b \<noteq> None"
    "length (fin (m_seq_queue ?s)) < n"
    using Cons.prems q(4) n q' a by auto
  obtain s' where s': "frontend_seqs Q fuel cur s =
      Inr (if (if cur = Some a then None else cur) \<in> Some ` set f then None else if cur = Some a then None else cur, s')"
    "fin (m_seq_queue s') = []" "pend (m_seq_queue s') = pend (m_seq_queue s)"
    "\<forall>b. m_seq_store s' b = (if b \<in> set f then None else m_seq_store ?s b)"
    "m_log s' = (m_log s @ farewell seq) @ concat (map (\<lambda>b. farewell (the (m_seq_store ?s b))) f)"
    "m_cmd_queue s' = m_cmd_queue s" "m_cmd_store s' = m_cmd_store s"
    "m_cmd_cache s' = m_cmd_cache s" "m_bkend_evt s' = m_bkend_evt s"
    using Cons(1) [OF f pre, of "if cur = Some a then None else cur"] unfolding step by (auto simp: q')
  have "m_log s' = m_log s @ concat (map (\<lambda>b. farewell (the (m_seq_store s b))) (a # f))"
    using s'(5) seq unfolding same by simp
  then show ?case
    using s'(1-4,6-9) by (intro exI [of _ s']) (auto simp: q(4))
qed

definition answer_key :: "ReqCmd \<Rightarrow> u32" where
  "answer_key cmd = push_bit 27 (op_num (rc_opcode cmd)) OR push_bit 26 (of_bool (rc_is_override cmd)) OR rc_operand cmd"

lemma frontend_cmds_total:
  assumes Q: "fqueue_laws Q fin pend"
    and "distinct (fin (m_cmd_queue s))"
    and "\<forall>a \<in> set (fin (m_cmd_queue s)). \<exists>cmd. m_cmd_store s a = Some cmd \<and> answer_ok cmd"
    and "length (fin (m_cmd_queue s)) < fuel"
  shows "\<exists>s'. frontend_cmds Q fuel s = Inr s' \<and>
     fin (m_cmd_queue s') = [] \<and> pend (m_cmd_queue s') = pend (m_cmd_queue s) \<and>
     (\<forall>a. m_cmd_store s' a = (if a \<in> set (fin (m_cmd_queue s)) then None else m_cmd_store s a)) \<and>
     (\<forall>a \<in> set (fin (m_cmd_queue s)). \<forall>cmd. m_cmd_store s a = Some cmd \<and> rc_has_res cmd \<longrightarrow>
        waiting (m_cmd_cache s') (answer_key cmd) = []) \<and>
     kept s s' \<and> m_seq_queue s' = m_seq_queue s \<and>
     m_seq_store s' = m_seq_store s \<and> m_bkend_evt s' = m_bkend_evt s"
  using assms(2-)
proof (induction "fin (m_cmd_queue s)" arbitrary: s fuel)
  case Nil
  note q = fqueue_lawsD(3-5) [OF Q, of "m_cmd_queue s"]
  have "fin (m_cmd_queue s) = []"
    using Nil(1) by simp
  moreover obtain n where "fuel = Suc n"
    using Nil.prems(3) by (cases fuel) auto
  ultimately show ?case
    using q by (cases "fq_pop Q (m_cmd_queue s)") (auto intro: kept_refl)
next
  case (Cons a f)
  note q = fqueue_lawsD(3-5) [OF Q, of "m_cmd_queue s"] Cons(2) [symmetric]
  obtain n where n: "fuel = Suc n" "length f < n"
    using Cons.prems(3) q(4) by (cases fuel) auto
  obtain cmd where cmd: "m_cmd_store s a = Some cmd" "answer_ok cmd"
    using Cons.prems(2) q(4) by auto
  obtain q' where pop: "fq_pop Q (m_cmd_queue s) = (Some a, q')" and q': "fin q' = f"
    "pend q' = pend (m_cmd_queue s)"
    using q by (cases "fq_pop Q (m_cmd_queue s)") auto
  let ?s1 = "s\<lparr>m_cmd_queue := q'\<rparr>"
  obtain s2 where s2: "(if rc_has_res cmd
      then cmd_cache_set (rc_opcode cmd) (rc_operand cmd) (rc_is_override cmd) (rc_val cmd) ?s1
      else Inr ?s1) = Inr s2"
    and frame: "m_cmd_queue s2 = q'" "m_cmd_store s2 = m_cmd_store s" "m_seq_queue s2 = m_seq_queue s"
      "m_seq_store s2 = m_seq_store s" "m_bkend_evt s2 = m_bkend_evt s"
      "kept s s2"
    and ans: "rc_has_res cmd \<Longrightarrow> waiting (m_cmd_cache s2) (answer_key cmd) = []"
  proof (cases "rc_has_res cmd")
    case True
    then have "cache_key (rc_opcode cmd) (rc_operand cmd) (rc_is_override cmd) = Inr (answer_key cmd)"
      using cmd(2) by (auto simp: answer_ok_def answer_key_def cache_key_eq)
    from cmd_cache_set_total [OF this, of "rc_val cmd" ?s1] True that show ?thesis
      by (auto simp: kept_def)
  next
    case False
    show ?thesis
      by (rule that [of ?s1]) (use False in \<open>simp_all add: kept_def\<close>)
  qed
  let ?s = "s2\<lparr>m_cmd_store := (m_cmd_store s2)(a := None)\<rparr>"
  have step: "frontend_cmds Q fuel s = frontend_cmds Q n ?s"
    using pop cmd(1) s2 by (simp add: n Let_def)
  have a: "a \<notin> set f" and f: "f = fin (m_cmd_queue ?s)"
    using q(4) q' Cons.prems(1) frame by simp_all
  have pre: "distinct (fin (m_cmd_queue ?s))"
    "\<forall>b \<in> set (fin (m_cmd_queue ?s)). \<exists>c. m_cmd_store ?s b = Some c \<and> answer_ok c"
    "length (fin (m_cmd_queue ?s)) < n"
    using Cons.prems q(4) n q' a frame by auto
  obtain s' where s': "frontend_cmds Q fuel s = Inr s'"
    "fin (m_cmd_queue s') = []" "pend (m_cmd_queue s') = pend (m_cmd_queue s)"
    "\<forall>b. m_cmd_store s' b = (if b \<in> set f then None else m_cmd_store ?s b)"
    "\<forall>b \<in> set f. \<forall>c. m_cmd_store ?s b = Some c \<and> rc_has_res c \<longrightarrow> waiting (m_cmd_cache s') (answer_key c) = []"
    "kept s2 s'" "m_seq_queue s' = m_seq_queue s"
    "m_seq_store s' = m_seq_store s" "m_bkend_evt s' = m_bkend_evt s"
    using Cons(1) [OF f pre] unfolding step f [symmetric] by (auto simp: q' frame kept_def)
  have "waiting (m_cmd_cache s') (answer_key c) = []"
    if "b \<in> set (a # f)" "m_cmd_store s b = Some c" "rc_has_res c" for b c
  proof (cases "b = a")
    case True
    then have "waiting (m_cmd_cache s2) (answer_key c) = []"
      using ans that cmd(1) by simp
    then show ?thesis
      using s'(6) unfolding kept_def by (metis list.set(1) set_empty subset_empty)
  next
    case False
    then show ?thesis
      using s'(5) that frame(2) by auto
  qed
  then show ?case
    using s'(1-4,7-) kept_trans [OF frame(6) s'(6)] a frame(2) cmd(1)
    by (intro exI [of _ s']) (auto simp: q(4))
qed

text \<open>What \<^verbatim>\<open>run_frontend\<close> needs: the requests in the two queues are allocated.\<close>

definition frontend_ok ::
  "('q \<Rightarrow> addr list) \<Rightarrow> ('q \<Rightarrow> addr list) \<Rightarrow> ('q, 'cb, 'nt, 'z) iface \<Rightarrow> bool" where
  "frontend_ok fin pend s \<longleftrightarrow>
     distinct (fin (m_seq_queue s) @ pend (m_seq_queue s)) \<and>
     (\<forall>a \<in> set (fin (m_seq_queue s) @ pend (m_seq_queue s)). m_seq_store s a \<noteq> None) \<and>
     distinct (fin (m_cmd_queue s)) \<and>
     (\<forall>a \<in> set (fin (m_cmd_queue s)). \<exists>cmd. m_cmd_store s a = Some cmd \<and> answer_ok cmd)"

lemma run_frontend_total:
  assumes Q: "fqueue_laws Q fin pend" and ok: "frontend_ok fin pend s"
  shows "\<exists>s'. run_frontend Q s = Inr s' \<and>
     fin (m_seq_queue s') = [] \<and> pend (m_seq_queue s') = pend (m_seq_queue s) \<and>
     fin (m_cmd_queue s') = [] \<and> pend (m_cmd_queue s') = pend (m_cmd_queue s) \<and>
     (\<forall>a \<in> set (fin (m_seq_queue s)). m_seq_store s' a = None) \<and>
     (\<forall>a \<in> set (fin (m_cmd_queue s)). m_cmd_store s' a = None) \<and>
     (\<forall>a \<in> set (fin (m_cmd_queue s)). \<forall>cmd. m_cmd_store s a = Some cmd \<and> rc_has_res cmd \<longrightarrow>
        waiting (m_cmd_cache s') (answer_key cmd) = []) \<and>
     kept s s' \<and> m_bkend_evt s' = 0"
proof -
  let ?s = "s\<lparr>m_bkend_evt := 0\<rparr>" and ?f = "fin (m_seq_queue s)" and ?p = "pend (m_seq_queue s)"
  let ?cur = "fq_peek_filter Q (m_seq_queue s)"
  let ?cur' = "if ?cur \<in> Some ` set ?f then None else ?cur"
  have pre: "distinct ?f" "\<forall>a \<in> set ?f. m_seq_store s a \<noteq> None"
    "length ?f < Suc (length (fq_items Q (m_seq_queue s)))"
    using ok by (auto simp: frontend_ok_def fqueue_lawsD [OF Q])
  then obtain s1 where s1: "frontend_seqs Q (Suc (length (fq_items Q (m_seq_queue s)))) ?cur ?s = Inr (?cur', s1)"
    "fin (m_seq_queue s1) = []" "pend (m_seq_queue s1) = ?p"
    "\<forall>a. m_seq_store s1 a = (if a \<in> set ?f then None else m_seq_store s a)"
    "set (m_log s) \<subseteq> set (m_log s1)" "m_cmd_queue s1 = m_cmd_queue s" "m_cmd_store s1 = m_cmd_store s"
    "m_cmd_cache s1 = m_cmd_cache s" "m_bkend_evt s1 = 0"
    using frontend_seqs_total [OF Q, of ?s "Suc (length (fq_items Q (m_seq_queue s)))" ?cur] by auto
  obtain s2 where s2: "(case ?cur' of None \<Rightarrow> Inr s1 | Some a \<Rightarrow> run_callbacks a s1) = Inr s2"
    "m_seq_queue s2 = m_seq_queue s1" "\<forall>a \<in> set ?f. m_seq_store s2 a = None"
    "set (m_log s1) \<subseteq> set (m_log s2)" "m_cmd_queue s2 = m_cmd_queue s1" "m_cmd_store s2 = m_cmd_store s1"
    "m_cmd_cache s2 = m_cmd_cache s1" "m_bkend_evt s2 = 0"
  proof (cases ?cur')
    case (Some a)
    then have "a \<in> set ?p" "a \<notin> set ?f"
      by (auto simp: fqueue_lawsD [OF Q] head_opt_eq_Some split: if_splits)
    moreover from this ok obtain x where "m_seq_store s a = Some x"
      unfolding frontend_ok_def by fastforce
    ultimately have "m_seq_store s1 a = Some x" "a \<notin> set ?f"
      using s1(4) by simp_all
    with Some that show ?thesis
      using s1(4,9) by (force simp: run_callbacks_def log_calls_def)
  qed (use that s1 in simp)
  let ?n = "Suc (length (fq_items Q (m_cmd_queue s2)))"
  have "distinct (fin (m_cmd_queue s2))" "length (fin (m_cmd_queue s2)) < ?n"
    "\<forall>a \<in> set (fin (m_cmd_queue s2)). \<exists>cmd. m_cmd_store s2 a = Some cmd \<and> answer_ok cmd"
    using ok s1 s2 by (auto simp: frontend_ok_def fqueue_lawsD [OF Q])
  note c = frontend_cmds_total [OF Q this(1,3,2)]
  have "kept s s2"
    using s1(5,8) s2(4,7) by (auto simp: kept_def)
  note k = kept_trans [OF this]
  from c show ?thesis
  proof (elim exE conjE, goal_cases)
    case (1 s')
    have "run_frontend Q s = Inr s'"
      unfolding run_frontend_def Let_def by (simp add: s1(1) s2(1) 1(1) del: frontend_seqs.simps frontend_cmds.simps)
    then show ?case
      using 1(2-) s1(2,3,6,7) s2(2,3,5,6,8) k [OF 1(6)] by (intro exI [of _ s']) simp
  qed
qed

section \<open>The state id\<close>

text \<open>The frontend's operations by what they do to the state a client can see.\<close>

inductive reads ::
  "'q fqueue_ops \<Rightarrow> 'p pulser_ops \<Rightarrow> ('q, 'cb, 'nt, 'p) controller \<Rightarrow> ('q, 'cb, 'nt, 'p) controller \<Rightarrow> bool"
  for Q P where
  "get_ttl (concurrent_get P) bank s = Inr (v, s') \<Longrightarrow> reads Q P s s'"
| "get_ttl_ovrlo (concurrent_get P) bank s = Inr (v, s') \<Longrightarrow> reads Q P s s'"
| "get_ttl_ovrhi (concurrent_get P) bank s = Inr (v, s') \<Longrightarrow> reads Q P s s'"
| "get_dds Q (concurrent_get P) op chn cb s = Inr s' \<Longrightarrow> reads Q P s s'"
| "get_dds_ovr Q (concurrent_get P) op chn cb s = Inr s' \<Longrightarrow> reads Q P s s'"
| "get_clock Q (concurrent_get P) cb s = Inr s' \<Longrightarrow> reads Q P s s'"

inductive writes ::
  "'q fqueue_ops \<Rightarrow> 'p pulser_ops \<Rightarrow> ('q, 'cb, 'nt, 'p) controller \<Rightarrow> ('q, 'cb, 'nt, 'p) controller \<Rightarrow> bool"
  for Q P where
  "set_ttl Q (concurrent_set P) bank msk v s = Inr s' \<Longrightarrow> msk \<noteq> 0 \<Longrightarrow> writes Q P s s'"
| "set_ttl_ovr Q (concurrent_set P) bank msk w s = Inr s' \<Longrightarrow> msk \<noteq> 0 \<Longrightarrow> writes Q P s s'"
| "set_dds Q (concurrent_set P) op chn val s = Inr s' \<Longrightarrow> writes Q P s s'"
| "set_dds_ovr Q (concurrent_set P) op chn val s = Inr s' \<Longrightarrow> writes Q P s s'"
| "reset_dds Q chn s = Inr s' \<Longrightarrow> writes Q P s s'"
| "set_clock Q (concurrent_set P) c s = Inr s' \<Longrightarrow> writes Q P s s'"
| "seq_run_code Q is_cmd ver len ttl_mask code notify s = (i, s') \<Longrightarrow> writes Q P s s'"

text \<open>The fields behind the state id; no other thread writes them.\<close>

definition same_tracking :: "('q, 'cb, 'nt, 'z) iface \<Rightarrow> ('q, 'cb, 'nt, 'z) iface \<Rightarrow> bool" where
  "same_tracking s s' \<longleftrightarrow> m_dirty s' = m_dirty s \<and> m_observed s' = m_observed s \<and>
     m_had_seq s' = m_had_seq s \<and> m_state_cnt s' = m_state_cnt s"

inductive runs ::
  "'q fqueue_ops \<Rightarrow> 'p pulser_ops \<Rightarrow> ('q, 'cb, 'nt, 'p) controller \<Rightarrow> ('q, 'cb, 'nt, 'p) controller \<Rightarrow> bool"
  for Q P where
  runs_nil: "runs Q P s s"
| runs_read: "reads Q P s s1 \<Longrightarrow> runs Q P s1 s2 \<Longrightarrow> runs Q P s s2"
| runs_write: "writes Q P s s1 \<Longrightarrow> runs Q P s1 s2 \<Longrightarrow> runs Q P s s2"
| runs_cancel: "cancel_seq Q sid s = Inr (found, s1) \<Longrightarrow> runs Q P s1 s2 \<Longrightarrow> runs Q P s s2"
| runs_poll: "run_frontend Q s = Inr s1 \<Longrightarrow> runs Q P s1 s2 \<Longrightarrow> runs Q P s s2"
| runs_backend: "same_tracking s s1 \<Longrightarrow> runs Q P s1 s2 \<Longrightarrow> runs Q P s s2"

definition tracks :: "('q, 'cb, 'nt, 'z) iface \<Rightarrow> ('q, 'cb, 'nt, 'z) iface \<Rightarrow> bool" where
  "tracks s s' \<longleftrightarrow> (m_dirty s \<longrightarrow> m_dirty s') \<and> (m_observed s \<longrightarrow> m_observed s') \<and>
     m_had_seq s' = m_had_seq s \<and> m_state_cnt s' = m_state_cnt s"

lemma tracks_trans: "tracks s1 s2 \<Longrightarrow> tracks s2 s3 \<Longrightarrow> tracks s1 s3"
  by (simp add: tracks_def)

lemma same_tracking_trans: "same_tracking s1 s2 \<Longrightarrow> same_tracking s2 s3 \<Longrightarrow> same_tracking s1 s3"
  by (simp add: same_tracking_def)

lemma same_tracking_tracks: "same_tracking s s' \<Longrightarrow> tracks s s'"
  by (simp add: same_tracking_def tracks_def)

lemma concurrent_set_tracking:
  "concurrent_set P op a ovr v s = Inr (h, s') \<Longrightarrow> same_tracking s s'"
  by (auto simp: concurrent_set_def same_tracking_def p_get_def p_do_def Let_def bindR_eq_Inr
      split: if_splits prod.splits)

lemma concurrent_get_tracking:
  "concurrent_get P op a ovr s = Inr (got, s') \<Longrightarrow> same_tracking s s'"
  by (auto simp: concurrent_get_def same_tracking_def p_get_def p_do_def Let_def bindR_eq_Inr
      split: if_splits prod.splits)

lemma cmd_cache_set_tracking:
  "cmd_cache_set op a ovr v s = Inr s' \<Longrightarrow> same_tracking s s'"
  by (auto simp: cmd_cache_set_def same_tracking_def getTime_def log_calls_def Let_def bindR_eq_Inr)

lemma send_cmd_tracking: "same_tracking s (send_cmd Q cmd s)"
  by (simp add: send_cmd_def same_tracking_def)

lemma same_tracking_send [simp]: "same_tracking (send_cmd Q cmd s) s' = same_tracking s s'"
  by (simp add: send_cmd_def same_tracking_def)

lemma send_get_tracking:
  assumes "send_get_cmd Q (concurrent_get P) op a ovr cb s = Inr s'"
  shows "same_tracking (set_observed s) s'"
proof -
  obtain got s1 where g: "concurrent_get P op a ovr (set_observed s) = Inr (got, s1)"
    using assms by (auto simp: send_get_cmd_def bindR_eq_Inr)
  have "same_tracking s1 s'"
  proof (cases got)
    case None
    have upd: "same_tracking s1 (log_calls cs (snd (getTime s1)\<lparr>m_cmd_cache := c\<rparr>))" for cs c
      by (simp add: same_tracking_def log_calls_def getTime_def)
    then show ?thesis
      using assms None g same_tracking_trans [OF upd send_cmd_tracking]
      by (auto simp: send_get_cmd_def bindR_eq_Inr getTime_def Let_def split: if_splits)
  next
    case (Some v)
    then obtain s2 where "cmd_cache_set op a ovr v s1 = Inr s2" "s' = log_calls [Callback cb v] s2"
      using assms g by (auto simp: send_get_cmd_def bindR_eq_Inr)
    then show ?thesis
      using cmd_cache_set_tracking [of op a ovr v s1 s2] by (simp add: same_tracking_def log_calls_def)
  qed
  with concurrent_get_tracking [OF g] show ?thesis
    by (rule same_tracking_trans)
qed

lemma send_ttl_get_tracking:
  "send_ttl_get_cmd (concurrent_get P) a ovr s = Inr (v, s') \<Longrightarrow> same_tracking (set_observed s) s'"
  using concurrent_get_tracking [of P TTL a ovr "set_observed s"]
  by (auto simp: send_ttl_get_cmd_def bindR_eq_Inr split: option.splits)

lemma send_set_tracking:
  assumes "send_set_cmd Q (concurrent_set P) op a ovr v s = Inr s'"
  shows "same_tracking (set_dirty s) s'"
proof -
  obtain h s1 where c: "concurrent_set P op a ovr v (set_dirty s) = Inr (h, s1)"
    using assms by (auto simp: send_set_cmd_def bindR_eq_Inr)
  then show ?thesis
    using assms concurrent_set_tracking [OF c]
    by (cases h) (auto simp: send_set_cmd_def bindR_eq_Inr dest!: cmd_cache_set_tracking intro: same_tracking_trans)
qed

lemma send_ttl_set_tracking:
  assumes "send_ttl_set_cmd Q (concurrent_set P) a ovr v s = Inr s'"
  shows "same_tracking (set_dirty s) s'"
proof -
  obtain h s1 where c: "concurrent_set P TTL a ovr v (set_dirty s) = Inr (h, s1)"
    using assms by (auto simp: send_ttl_set_cmd_def bindR_eq_Inr)
  then show ?thesis
    using assms concurrent_set_tracking [OF c] send_cmd_tracking
    by (cases h) (auto simp: send_ttl_set_cmd_def bindR_eq_Inr intro: same_tracking_trans)
qed

lemma reads_observes:
  assumes "reads Q P s s'"
  shows "m_observed s'" and "tracks s s'"
proof -
  have "same_tracking (set_observed s) s'"
    using assms
    by cases (auto simp: get_ttl_def get_ttl_ovrlo_def get_ttl_ovrhi_def get_dds_def get_dds_ovr_def get_clock_def
        bindR_eq_Inr dest: send_ttl_get_tracking send_get_tracking)
  then show "m_observed s'" "tracks s s'"
    by (simp_all add: same_tracking_def set_observed_def tracks_def)
qed

lemma writes_dirties:
  assumes "writes Q P s s'"
  shows "m_observed s \<Longrightarrow> \<not> m_had_seq s \<Longrightarrow> m_dirty s'" and "tracks s s'"
proof -
  have "same_tracking (set_dirty s) s'"
    using assms
  proof cases
    case (5 chn)
    then show ?thesis
      by (auto simp: reset_dds_def bindR_eq_Inr Let_def dest!: cmd_cache_set_tracking)
         (metis same_tracking_trans)
  next
    case (7 is_cmd ver len ttl_mask code notify i)
    then show ?thesis
      by (auto simp: seq_run_code_def same_tracking_def log_calls_def Let_def)
  qed (auto simp: set_ttl_def set_ttl_ovr_def set_dds_def set_dds_ovr_def set_clock_def bindR_eq_Inr
      dest: send_ttl_set_tracking send_set_tracking)
  then show "m_observed s \<Longrightarrow> \<not> m_had_seq s \<Longrightarrow> m_dirty s'" "tracks s s'"
    by (auto simp: same_tracking_def set_dirty_def tracks_def split: if_splits)
qed

lemma run_callbacks_tracking: "run_callbacks a s = Inr s' \<Longrightarrow> same_tracking s s'"
  by (auto simp: run_callbacks_def same_tracking_def log_calls_def split: option.splits)

lemma free_seq_tracking: "free_seq a s = Inr s' \<Longrightarrow> same_tracking s s'"
  by (auto simp: free_seq_def same_tracking_def log_calls_def split: option.splits)

lemma same_tracking_queues [simp]:
  "same_tracking (s\<lparr>m_seq_queue := q\<rparr>) s' = same_tracking s s'"
  "same_tracking (s\<lparr>m_cmd_queue := q\<rparr>) s' = same_tracking s s'"
  "same_tracking (s\<lparr>m_cmd_store := st\<rparr>) s' = same_tracking s s'"
  "same_tracking (s\<lparr>m_bkend_evt := n\<rparr>) s' = same_tracking s s'"
  "same_tracking s (s\<lparr>m_seq_queue := q\<rparr>)" "same_tracking s (s\<lparr>m_cmd_queue := q\<rparr>)"
  by (simp_all add: same_tracking_def)

lemma frontend_seqs_tracking:
  "frontend_seqs Q fuel cur s = Inr (cur', s') \<Longrightarrow> same_tracking s s'"
proof (induction fuel arbitrary: cur s)
  case (Suc fuel)
  obtain got q where "fq_pop Q (m_seq_queue s) = (got, q)"
    by fastforce
  with Suc.prems show ?case
    by (cases got) (auto simp: Let_def bindR_eq_Inr dest!: run_callbacks_tracking free_seq_tracking Suc.IH
        intro: same_tracking_trans)
qed simp

lemma frontend_cmds_tracking:
  "frontend_cmds Q fuel s = Inr s' \<Longrightarrow> same_tracking s s'"
proof (induction fuel arbitrary: s)
  case (Suc fuel)
  obtain got q where "fq_pop Q (m_cmd_queue s) = (got, q)"
    by fastforce
  with Suc.prems show ?case
    by (cases got) (auto simp: Let_def bindR_eq_Inr dest!: cmd_cache_set_tracking Suc.IH
        intro: same_tracking_trans split: option.splits if_splits)
qed simp

lemma run_frontend_tracking:
  assumes "run_frontend Q s = Inr s'"
  shows "same_tracking s s'"
proof -
  obtain cur s1 s2 where s1: "frontend_seqs Q (Suc (length (fq_items Q (m_seq_queue s))))
      (fq_peek_filter Q (m_seq_queue s)) (s\<lparr>m_bkend_evt := 0\<rparr>) = Inr (cur, s1)"
    and s2: "(case cur of None \<Rightarrow> Inr s1 | Some a \<Rightarrow> run_callbacks a s1) = Inr s2"
    and s3: "frontend_cmds Q (Suc (length (fq_items Q (m_cmd_queue s2)))) s2 = Inr s'"
    using assms by (auto simp: run_frontend_def Let_def bindR_eq_Inr
        simp del: frontend_seqs.simps frontend_cmds.simps)
  have "same_tracking s1 s2"
    using s2 run_callbacks_tracking by (auto simp: same_tracking_def split: option.splits)
  then show ?thesis
    using frontend_seqs_tracking [OF s1] frontend_cmds_tracking [OF s3]
    by (auto intro: same_tracking_trans)
qed

lemma runs_tracks: "runs Q P s s' \<Longrightarrow> tracks s s'"
proof (induction rule: runs.induct)
  case (runs_nil s)
  show ?case
    by (simp add: tracks_def)
next
  case (runs_read s s1 s2)
  then show ?case
    by (blast intro: tracks_trans reads_observes(2))
next
  case (runs_write s s1 s2)
  then show ?case
    by (blast intro: tracks_trans writes_dirties(2))
next
  case (runs_cancel sid s found s1 s2)
  then have "same_tracking s s1"
    by (auto simp: cancel_seq_def same_tracking_def bindR_eq_Inr)
  then show ?case
    using runs_cancel by (blast intro: tracks_trans same_tracking_tracks)
next
  case (runs_poll s s1 s2)
  then show ?case
    by (blast intro: tracks_trans same_tracking_tracks run_frontend_tracking)
next
  case (runs_backend s s1 s2)
  then show ?case
    by (blast intro: tracks_trans same_tracking_tracks)
qed

text \<open>What a query of the id does.\<close>

lemma get_state_id_fields:
  assumes "get_state_id Q s = (v, s')"
  shows "v = push_bit 63 (of_bool (m_had_seq s')) OR m_state_cnt s'"
    and "m_state_cnt s' = (if m_had_seq s' \<noteq> m_had_seq s \<or> m_dirty s then m_state_cnt s + 1 else m_state_cnt s)"
  using assms by (auto simp: get_state_id_def Let_def split: prod.splits if_splits)

lemma state_id_parts:
  assumes "(c :: u64) < 2 ^ 63"
  shows "bit (push_bit 63 (of_bool b) OR c) 63 = b" "take_bit 63 (push_bit 63 (of_bool b) OR c) = c"
proof -
  have t: "take_bit 63 c = c"
    using assms by (simp add: word_unat_eq_iff unsigned_take_bit_eq take_bit_nat_eq_self word_less_nat_alt)
  have "\<not> bit c 63"
    by (metis bit_take_bit_iff t less_irrefl)
  then show "bit (push_bit 63 (of_bool b) OR c) 63 = b"
    by (cases b) (simp_all add: bit_simps)
  show "take_bit 63 (push_bit 63 (of_bool b) OR c) = c"
    using t by (cases b) simp_all
qed

lemma state_cnt_small:
  assumes "unat (c :: u64) + 2 < 2 ^ 63"
  shows "c + 1 < 2 ^ 63" "c < 2 ^ 63" "2 + c < 2 ^ 63" "c + 1 \<noteq> c"
  using assms by (simp_all add: word_less_nat_alt unat_word_ariths)

section \<open>Properties\<close>


text \<open>A clock read and then set through the register level pulser.\<close>

lemma hw_clock_read:
  "\<exists>s'. get_clock list_fqueue (concurrent_get (pulser_ops reg_file 0)) 7 fresh_hw = Inr s' \<and>
     m_observed s' \<and> \<not> m_had_seq s' \<and> m_seq_queue s' = ([], []) \<and> m_state_cnt s' = 0"
  by (simp add: get_clock_def send_get_cmd_def concurrent_get_def p_get_def pulser_ops_def pulser_cur_clock_def
      cmd_cache_set_def getTime_def cache_set_def cache_key_def is_dds_op_def update_entry_def log_calls_def
      set_observed_def fresh_hw_def controller_fields_def reg_file_def Let_def)

lemma set_clock_total:
  "\<exists>s'. set_clock Q (concurrent_set P) c s = Inr s' \<and> m_seq_queue s' = m_seq_queue s"
  by (simp add: set_clock_def send_set_cmd_def concurrent_set_def set_dirty_def send_cmd_def
      cmd_cache_set_def getTime_def cache_set_def cache_key_def is_dds_op_def update_entry_def log_calls_def Let_def)


text \<open>
  C27: every reader of a DDS setting or of the clock is called exactly once. Over any history of
  gets and sets, the callbacks that were called for a key and those that still wait for it are
  together the ones that were passed to \<^verbatim>\<open>get\<close> for that key, each as often as it was passed.
\<close>

theorem readers_called_once:
  assumes "foldR cache_step xs (Map.empty, []) = Inr (c, out)" and "\<forall>x \<in> set xs. op_small x"
  shows "mset (called_for k out) + mset (waiting c k) = mset (concat (map (asked k) xs))"
  using cache_steps_count [OF assms, of k] by (simp add: no_ovr_waiting_def waiting_def called_for_def)

theorem readers_called_once_witness:
  "\<exists>c out. foldR cache_step [CGet 200000000 DDSFreq 3 False 1, CGet 200000000 DDSFreq 3 False 2,
       CSet 300000000 DDSFreq 3 False 7, CGet 300000001 DDSFreq 3 False (5 :: nat)] (Map.empty, []) = Inr (c, out) \<and>
     mset (called_for (push_bit 27 1 OR 3) out) + mset (waiting c (push_bit 27 1 OR 3)) = {#1, 2, 5#}"
proof -
  let ?xs = "[CGet 200000000 DDSFreq 3 False 1, CGet 200000000 DDSFreq 3 False 2,
       CSet 300000000 DDSFreq 3 False 7, CGet 300000001 DDSFreq 3 False (5 :: nat)]"
  obtain c out where c: "foldR cache_step ?xs (Map.empty, []) = Inr (c, out)"
    by (simp add: cache_get_def cache_set_def cache_entry_def update_entry_def is_dds_op_def Let_def)
  have "\<forall>x \<in> set ?xs. op_small x"
    by simp
  from readers_called_once [OF c this, of "push_bit 27 1 OR 3"] c show ?thesis
    by (auto simp: cache_key_def)
qed

text \<open>
  C28: \<^verbatim>\<open>run_frontend\<close> takes everything the worker gave back. It always completes (as many rounds of
  its loops as there are requests are enough), frees all finished sequences and commands, leaves
  the unfinished ones in the queue, and afterwards nobody waits for an answer that has arrived:
  each reader was called or still waits.
\<close>

theorem run_frontend_collects:
  assumes "fqueue_laws Q fin pend" and "frontend_ok fin pend s"
  shows "\<exists>s'. run_frontend Q s = Inr s' \<and>
     fin (m_seq_queue s') = [] \<and> pend (m_seq_queue s') = pend (m_seq_queue s) \<and>
     fin (m_cmd_queue s') = [] \<and> pend (m_cmd_queue s') = pend (m_cmd_queue s) \<and>
     (\<forall>a \<in> set (fin (m_seq_queue s)). m_seq_store s' a = None) \<and>
     (\<forall>a \<in> set (fin (m_cmd_queue s)). m_cmd_store s' a = None) \<and>
     (\<forall>a \<in> set (fin (m_cmd_queue s)). \<forall>cmd. m_cmd_store s a = Some cmd \<and> rc_has_res cmd \<longrightarrow>
        waiting (m_cmd_cache s') (answer_key cmd) = []) \<and>
     kept s s' \<and> m_bkend_evt s' = 0"
  by (rule run_frontend_total [OF assms])

theorem run_frontend_collects_witness:
  "\<exists>s'. run_frontend list_fqueue (fresh_hw\<lparr>m_cmd_queue := ([4], [5]),
       m_cmd_store := [4 \<mapsto> \<lparr>rc_opcode = DDSFreq, rc_has_res = True, rc_is_override = False, rc_operand = 3, rc_val = 9\<rparr>]\<rparr>) =
       Inr s' \<and> m_cmd_queue s' = ([], [5]) \<and> m_cmd_store s' 4 = None"
proof -
  let ?s = "fresh_hw\<lparr>m_cmd_queue := ([4], [5]),
       m_cmd_store := [4 \<mapsto> \<lparr>rc_opcode = DDSFreq, rc_has_res = True, rc_is_override = False, rc_operand = 3, rc_val = 9\<rparr>]\<rparr>"
  have "frontend_ok fst snd ?s"
    by (simp add: frontend_ok_def fresh_hw_def controller_fields_def answer_ok_def cache_key_def)
  from run_frontend_collects [OF list_fqueue_laws this] show ?thesis
    by (auto simp: prod_eq_iff)
qed

text \<open>
  C29: \<^verbatim>\<open>cancel_seq\<close> marks exactly the sequences with the given id that have not been freed (all of
  them for id 0), and says whether there was one.
\<close>

theorem cancel_marks_exactly:
  assumes "fqueue_laws Q fin pend" and "frontend_ok fin pend s"
  shows "cancel_seq Q sid s =
     (let items = fin (m_seq_queue s) @ pend (m_seq_queue s); st = m_seq_store s;
          hit = (\<lambda>a. sid = 0 \<or> rs_id (the (st a)) = sid)
      in Inr (\<exists>a \<in> set items. hit a,
           s\<lparr>m_seq_store := \<lambda>a. if a \<in> set items \<and> hit a then Some ((the (st a))\<lparr>rs_cancel := True\<rparr>) else st a\<rparr>))"
  using cancel_loop_spec [of "fin (m_seq_queue s) @ pend (m_seq_queue s)" "m_seq_store s" sid False] assms(2)
  unfolding cancel_seq_def fqueue_lawsD(11) [OF assms(1)] frontend_ok_def cancels_def Let_def
  by auto

theorem cancel_marks_exactly_witness:
  "\<exists>s'. cancel_seq list_fqueue 1 (snd (seq_run_code list_fqueue False 1 0 [] [] 7 fresh_hw)) = Inr (True, s')"
proof -
  let ?s = "snd (seq_run_code list_fqueue False 1 0 [] [] 7 fresh_hw)"
  have "frontend_ok fst snd ?s"
    by (simp add: frontend_ok_def seq_run_code_def fresh_hw_def controller_fields_def set_dirty_def log_calls_def
        list_fqueue_def Let_def)
  from cancel_marks_exactly [OF list_fqueue_laws this, of 1] show ?thesis
    by (simp add: Let_def seq_run_code_def fresh_hw_def controller_fields_def set_dirty_def log_calls_def list_fqueue_def)
qed

end
