(* ===== verification/Names_Config.thy ===== *)
theory Names_Config
  imports Prelude
begin

text \<open>
  \<^verbatim>\<open>lib/config.h\<close>, \<^verbatim>\<open>lib/config.cpp\<close>, \<^verbatim>\<open>lib/namesconfig.h\<close> and \<^verbatim>\<open>lib/namesconfig.cpp\<close>, and the two
  functions of \<^verbatim>\<open>lib/server.cpp\<close> that read and write lists of channel names. yaml-cpp is a parameter:
  what loading a document gives, how a node converts (which may throw), and the text of a list of
  names. Names are the bytes of a \<^verbatim>\<open>std::string\<close>.
\<close>

section \<open>Files\<close>

text \<open>The files the program reads and writes; opening one for writing may fail.\<close>

record files =
  f_data :: "string \<Rightarrow> bytes option"
  f_writable :: "string \<Rightarrow> bool"

definition write_file :: "string \<Rightarrow> bytes \<Rightarrow> files \<Rightarrow> files" where
  "write_file name bs fs = fs\<lparr>f_data := (f_data fs)(name \<mapsto> bs)\<rparr>"

section \<open>The configuration\<close>

record ('d, 'n) yaml_conf =
  yc_load :: "string \<Rightarrow> 'd result"
  yc_node :: "'d \<Rightarrow> string \<Rightarrow> 'n option"
  yc_bool :: "'n \<Rightarrow> bool result"
  yc_int :: "'n \<Rightarrow> int result"
  yc_string :: "'n \<Rightarrow> string result"

record Config =
  c_dummy :: bool
  c_max_ttl_chn :: int
  c_listen :: string
  c_runtime_dir :: string
  c_dds_write_adsu :: int
  c_dds_write_wrlow :: int
  c_dds_write_adhd :: int
  c_dds_write_fuddl :: int
  c_dds_write_fudhd :: int

definition Config_init :: Config where
  "Config_init = \<lparr>c_dummy = False, c_max_ttl_chn = 31, c_listen = ''tcp://*:7777'',
     c_runtime_dir = ''/var/lib/molecube/'', c_dds_write_adsu = -1, c_dds_write_wrlow = -1,
     c_dds_write_adhd = -1, c_dds_write_fuddl = -1, c_dds_write_fudhd = -1\<rparr>"

text \<open>\<^verbatim>\<open>if (auto node = file[key]) field = conv(node)\<close>\<close>

definition conf_field ::
  "('d, 'n) yaml_conf \<Rightarrow> 'd \<Rightarrow> ('n \<Rightarrow> 'v result) \<Rightarrow> string \<Rightarrow> ('v \<Rightarrow> Config \<Rightarrow> Config)
    \<Rightarrow> Config \<Rightarrow> Config result" where
  "conf_field Y file conv key upd conf =
     (case yc_node Y file key of
        None \<Rightarrow> Inr conf
      | Some n \<Rightarrow> bindR (conv n) (\<lambda>v. Inr (upd v conf)))"

definition int8 :: "int \<Rightarrow> int" where
  "int8 i = sint (word_of_int i :: 8 word)"

definition loadYAML :: "('d, 'n) yaml_conf \<Rightarrow> string \<Rightarrow> Config result" where
  "loadYAML Y fname =
     bindR (yc_load Y fname) (\<lambda>file.
     bindR (conf_field Y file (yc_bool Y) ''dummy'' (\<lambda>v. c_dummy_update (\<lambda>_. v)) Config_init) (\<lambda>c1.
     bindR (conf_field Y file (yc_int Y) ''max_ttl_chn'' (\<lambda>v. c_max_ttl_chn_update (\<lambda>_. v)) c1) (\<lambda>c2.
     bindR (conf_field Y file (yc_string Y) ''listen'' (\<lambda>v. c_listen_update (\<lambda>_. v)) c2) (\<lambda>c3.
     bindR (conf_field Y file (yc_string Y) ''runtime_dir'' (\<lambda>v. c_runtime_dir_update (\<lambda>_. v)) c3) (\<lambda>c4.
     bindR (conf_field Y file (yc_int Y) ''dds_write_adsu''
       (\<lambda>v. c_dds_write_adsu_update (\<lambda>_. int8 v)) c4) (\<lambda>c5.
     bindR (conf_field Y file (yc_int Y) ''dds_write_wrlow''
       (\<lambda>v. c_dds_write_wrlow_update (\<lambda>_. int8 v)) c5) (\<lambda>c6.
     bindR (conf_field Y file (yc_int Y) ''dds_write_adhd''
       (\<lambda>v. c_dds_write_adhd_update (\<lambda>_. int8 v)) c6) (\<lambda>c7.
     bindR (conf_field Y file (yc_int Y) ''dds_write_fuddl''
       (\<lambda>v. c_dds_write_fuddl_update (\<lambda>_. int8 v)) c7) (\<lambda>c8.
     conf_field Y file (yc_int Y) ''dds_write_fudhd''
       (\<lambda>v. c_dds_write_fudhd_update (\<lambda>_. int8 v)) c8)))))))))"

section \<open>Names\<close>

datatype names_doc = BadFile | NotList | NameList "bytes option list"

record yaml_names =
  yn_emit :: "bytes list \<Rightarrow> bytes"
  yn_load :: "bytes option \<Rightarrow> names_doc"

record NamesConfig =
  nc_fname :: string
  nc_names :: "bytes list"

definition names_save :: "yaml_names \<Rightarrow> NamesConfig \<Rightarrow> files \<Rightarrow> files" where
  "names_save Y nc fs =
     (if \<not> f_writable fs (nc_fname nc) then fs
      else write_file (nc_fname nc) (yn_emit Y (nc_names nc) @ [0x0A]) fs)"

text \<open>The loop over the elements: the first one that is not a string throws.\<close>

fun load_strings :: "bytes option list \<Rightarrow> bytes list result" where
  "load_strings [] = Inr []"
| "load_strings (None # ns) = Inl (RuntimeError ''bad conversion'')"
| "load_strings (Some n # ns) = bindR (load_strings ns) (\<lambda>rest. Inr (n # rest))"

definition names_load :: "yaml_names \<Rightarrow> files \<Rightarrow> NamesConfig \<Rightarrow> NamesConfig result" where
  "names_load Y fs nc =
     (case yn_load Y (f_data fs (nc_fname nc)) of
        BadFile \<Rightarrow> Inr nc
      | NotList \<Rightarrow> Inr nc
      | NameList ns \<Rightarrow> bindR (load_strings ns) (\<lambda>names. Inr (nc\<lparr>nc_names := names\<rparr>)))"

definition NamesConfig_init :: "yaml_names \<Rightarrow> files \<Rightarrow> string \<Rightarrow> NamesConfig result" where
  "NamesConfig_init Y fs fname = names_load Y fs \<lparr>nc_fname = fname, nc_names = []\<rparr>"

text \<open>\<^verbatim>\<open>std::vector::resize\<close>; new elements are empty strings.\<close>

definition names_resize :: "nat \<Rightarrow> bytes list \<Rightarrow> bytes list" where
  "names_resize n names = take n names @ replicate (n - length names) []"

section \<open>Name messages\<close>

lemma dropWhile_rest: "dropWhile P xs = y # ys \<Longrightarrow> length ys < length xs"
  by (metis length_Cons length_dropWhile_le less_eq_Suc_le)

text \<open>
  The loop of \<^verbatim>\<open>process_set_names\<close>: a channel byte, then a NUL terminated name. An entry without
  terminator ends it, one with a channel out of range is skipped.
\<close>

function set_names_loop :: "bytes \<Rightarrow> bool \<Rightarrow> bytes list \<Rightarrow> bool \<times> bytes list" where
  "set_names_loop p has_set vec =
     (case p of
        [] \<Rightarrow> (has_set, vec)
      | [_] \<Rightarrow> (has_set, vec)
      | chn # rest \<Rightarrow>
          (case dropWhile (\<lambda>b. b \<noteq> 0) rest of
             [] \<Rightarrow> (has_set, vec)
           | _ # rest' \<Rightarrow>
               if unat chn \<ge> length vec then set_names_loop rest' has_set vec
               else set_names_loop rest' True (vec[unat chn := takeWhile (\<lambda>b. b \<noteq> 0) rest])))"
  by pat_completeness auto

termination
  by (relation "measure (\<lambda>(p, has_set, vec). length p)") (auto dest!: dropWhile_rest split: if_splits)

declare set_names_loop.simps [simp del]

definition name_entry :: "nat \<Rightarrow> bytes \<Rightarrow> bytes" where
  "name_entry i str = (if str = [] then [] else [of_nat i] @ str @ [0])"

text \<open>What \<^verbatim>\<open>process_get_names\<close> writes.\<close>

definition names_msg :: "bytes list \<Rightarrow> bytes" where
  "names_msg vec = concat (map (\<lambda>(i, str). name_entry i str) (enumerate 0 vec))"

section \<open>Facts about name messages\<close>

definition no_nul :: "bytes \<Rightarrow> bool" where
  "no_nul str \<longleftrightarrow> 0 \<notin> set str"

lemma takeWhile_nul: "no_nul str \<Longrightarrow> takeWhile (\<lambda>b. b \<noteq> 0) (str @ 0 # rest) = str"
  by (induction str) (auto simp: no_nul_def)

lemma dropWhile_nul: "no_nul str \<Longrightarrow> dropWhile (\<lambda>b. b \<noteq> 0) (str @ 0 # rest) = 0 # rest"
  by (induction str) (auto simp: no_nul_def)

lemma set_names_entry:
  assumes "no_nul str" and "i < length vec" and "i < 256"
  shows "set_names_loop (of_nat i # str @ 0 # rest) h vec = set_names_loop rest True (vec[i := str])"
proof -
  have i: "unat (of_nat i :: u8) = i"
    using assms(3) by (simp add: unat_of_nat)
  obtain c cs where c: "str @ 0 # rest = c # cs"
    by (cases str) auto
  show ?thesis
    using takeWhile_nul [OF assms(1), of rest] dropWhile_nul [OF assms(1), of rest] assms(2) i
    by (subst set_names_loop.simps) (simp add: c)
qed

lemma set_names_all:
  assumes "length ys + length xs \<le> 256" and "\<forall>str \<in> set xs. no_nul str"
  shows "set_names_loop (concat (map (\<lambda>(i, str). name_entry i str) (enumerate (length ys) xs))) h
       (ys @ replicate (length xs) []) = (h \<or> (\<exists>str \<in> set xs. str \<noteq> []), ys @ xs)"
  using assms
proof (induction xs arbitrary: ys h)
  case Nil
  then show ?case by (simp add: set_names_loop.simps)
next
  case (Cons str xs)
  have IH: "set_names_loop (concat (map (\<lambda>(i, str). name_entry i str) (enumerate (Suc (length ys)) xs))) h'
      (ys @ str # replicate (length xs) []) = (h' \<or> (\<exists>str \<in> set xs. str \<noteq> []), ys @ str # xs)" for h'
    using Cons.IH [of "ys @ [str]" h'] Cons.prems by simp
  show ?case
  proof (cases "str = []")
    case True
    then show ?thesis
      using IH [of h] by (simp add: name_entry_def)
  next
    case False
    then show ?thesis
      using IH [of True] set_names_entry [of str "length ys" "ys @ [] # replicate (length xs) []"] Cons.prems
      by (simp add: name_entry_def)
  qed
qed

lemma set_names_loop_inv:
  "(fst (set_names_loop p h vec) = False \<longrightarrow> \<not> h \<and> snd (set_names_loop p h vec) = vec) \<and>
   length (snd (set_names_loop p h vec)) = length vec \<and>
   ((\<forall>str \<in> set vec. no_nul str) \<longrightarrow> (\<forall>str \<in> set (snd (set_names_loop p h vec)). no_nul str))"
proof (induction p h vec rule: set_names_loop.induct)
  case (1 p h vec)
  have nn: "no_nul (takeWhile (\<lambda>b. b \<noteq> 0) xs)" for xs
    by (auto simp: no_nul_def dest: set_takeWhileD)
  show ?case
  proof (cases "\<exists>chn c cs. p = chn # c # cs")
    case False
    then show ?thesis
      by (subst (1 2 3 4) set_names_loop.simps) (auto split: list.splits)
  next
    case True
    then obtain chn c cs where p: "p = chn # c # cs"
      by blast
    show ?thesis
    proof (cases "dropWhile (\<lambda>b. b \<noteq> 0) (c # cs)")
      case Nil
      then show ?thesis
        by (subst (1 2 3 4) set_names_loop.simps) (simp add: p)
    next
      case (Cons z rest)
      note IH = 1 [OF p refl Cons]
      let ?vec = "vec[unat chn := takeWhile (\<lambda>b. b \<noteq> 0) (c # cs)]"
      have "(\<forall>str \<in> set vec. no_nul str) \<Longrightarrow> \<forall>str \<in> set ?vec. no_nul str"
        using nn [of "c # cs"] by (auto simp del: takeWhile.simps dest!: set_update_subset_insert [THEN subsetD])
      moreover have "set_names_loop p h vec =
          (if unat chn \<ge> length vec then set_names_loop rest h vec else set_names_loop rest True ?vec)"
        using Cons by (subst set_names_loop.simps) (simp add: p)
      ultimately show ?thesis
        using IH by (auto simp del: takeWhile.simps)
    qed
  qed
qed

text \<open>A configuration file that sets one DDS write timing.\<close>

definition only_timing :: "int \<Rightarrow> (unit, int) yaml_conf" where
  "only_timing v = \<lparr>yc_load = (\<lambda>_. Inr ()),
     yc_node = (\<lambda>_ key. if key = ''dds_write_adsu'' then Some v else None),
     yc_bool = (\<lambda>_. Inl (RuntimeError ''bad conversion'')), yc_int = Inr,
     yc_string = (\<lambda>_. Inl (RuntimeError ''bad conversion''))\<rparr>"

section \<open>Properties\<close>

text \<open>
  C37: the names that are sent to a client are the names it can set. For at most 256 channels and
  names without NUL, the message of \<^verbatim>\<open>get_ttl_names\<close> sent back as \<^verbatim>\<open>set_ttl_names\<close> to a server
  without names sets every name, and is an error only if there is no name at all.
\<close>

theorem names_roundtrip:
  assumes "length vec \<le> 256" and "\<forall>str \<in> set vec. no_nul str"
  shows "set_names_loop (names_msg vec) False (replicate (length vec) []) = (\<exists>str \<in> set vec. str \<noteq> [], vec)"
  using set_names_all [of "[]" vec False] assms by (simp add: names_msg_def)

theorem names_roundtrip_witness:
  "set_names_loop (names_msg [[65, 66], [], [67]]) False (replicate 3 []) = (True, [[65, 66], [], [67]])"
  using names_roundtrip [of "[[65, 66], [], [67]]"] by (simp add: no_nul_def numeral_3_eq_3)

text \<open>
  C38: a set names request that reports an error has changed no name, whatever the message is; the
  number of channels never changes, and no name ever contains a NUL.
\<close>

theorem set_names_error_changes_nothing:
  "let (ok, vec') = set_names_loop p False vec
   in (ok \<or> vec' = vec) \<and> length vec' = length vec \<and>
      ((\<forall>str \<in> set vec. no_nul str) \<longrightarrow> (\<forall>str \<in> set vec'. no_nul str))"
  using set_names_loop_inv [of p False vec] by (auto split: prod.split)

theorem set_names_error_changes_nothing_witness:
  "set_names_loop [7, 65, 0, 1, 66] False [[1], [2]] = (False, [[1], [2]]) \<and>
   length (snd (set_names_loop [7, 65, 0, 1, 66] False [[1], [2]])) = 2"
proof -
  have "set_names_loop [7, 65, 0, 1, 66] False [[1], [2 :: u8]] = (False, [[1], [2]])"
    by code_simp
  then show ?thesis
    using set_names_error_changes_nothing [of "[7, 65, 0, 1, 66]" "[[1], [2]]"] by (auto simp: Let_def)
qed

text \<open>
  A DDS write timing in the configuration file is cut to 8 bits before it is checked, so a value
  out of range can pass for a valid one, or for the default.
\<close>

lemma config_timing_truncated:
  "loadYAML (only_timing 258) f = loadYAML (only_timing 2) f \<and>
   (\<exists>c. loadYAML (only_timing 258) f = Inr c \<and> c_dds_write_adsu c = 2) \<and>
   loadYAML (only_timing 255) f = Inr Config_init"
  by (simp add: loadYAML_def conf_field_def only_timing_def int8_def Config_init_def)

end
