(* ===== verification/Seq_Message.thy ===== *)
theory Seq_Message
  imports Pulser_Common
begin

text \<open>
  The binary formats of \<^verbatim>\<open>lib/server.cpp\<close>: the header of a sequence (in a \<^verbatim>\<open>run_seq\<close> message and in
  the file of the startup sequence), the ids that clients hold, and the lists of DDS values.
\<close>

section \<open>The header of a sequence\<close>

text \<open>
  \<^verbatim>\<open>memcpy(&ttl_mask, data, 4 * n)\<close> into an array of \<^verbatim>\<open>NUM_TTL_BANKS\<close> words that was filled with 0.
\<close>

definition masks_of :: "nat \<Rightarrow> bytes \<Rightarrow> u32 list" where
  "masks_of n bs =
     map (\<lambda>i. of_le (take 4 (drop (4 * i) bs))) [0 ..< n] @ replicate (NUM_TTL_BANKS - n) 0"

datatype header_error = BankRange | TooShort

text \<open>The banks, the masks and the code, from what follows the length of the sequence.\<close>

definition read_ttl_masks :: "u32 \<Rightarrow> bytes \<Rightarrow> header_error + u32 \<times> u32 list \<times> bytes" where
  "read_ttl_masks ver bs =
     (if ver < 3 then Inr (1, masks_of 1 bs, drop 4 bs)
      else
        let ttl_banks = of_le (take 4 bs); rest = drop 4 bs
        in if ttl_banks = 0 \<or> ttl_banks > of_nat NUM_TTL_BANKS then Inl BankRange
           else if length rest < unat ttl_banks * 4 then Inl TooShort
           else Inr (ttl_banks, masks_of (unat ttl_banks) rest, drop (4 * unat ttl_banks) rest))"

record seq_header =
  sh_len_ns :: u64
  sh_banks :: u32
  sh_masks :: "u32 list"
  sh_code :: bytes

definition valid_ver :: "u32 \<Rightarrow> bool" where
  "valid_ver ver \<longleftrightarrow> ver = 1 \<or> ver = 2 \<or> ver = 3"

text \<open>The two parts of a \<^verbatim>\<open>run_seq\<close> or \<^verbatim>\<open>run_cmdlist\<close> message.\<close>

definition parse_run_seq :: "bytes option \<Rightarrow> bytes option \<Rightarrow> (u32 \<times> seq_header) option" where
  "parse_run_seq part1 part2 =
     (case part1 of
        None \<Rightarrow> None
      | Some vmsg \<Rightarrow>
          if length vmsg \<noteq> 4 then None
          else let ver = of_le vmsg
            in if \<not> valid_ver ver then None
               else (case part2 of
                  None \<Rightarrow> None
                | Some msg \<Rightarrow>
                    if length msg < 12 then None
                    else (case read_ttl_masks ver (drop 8 msg) of
                       Inl _ \<Rightarrow> None
                     | Inr (banks, masks, code) \<Rightarrow>
                         Some (ver, \<lparr>sh_len_ns = of_le (take 8 msg), sh_banks = banks,
                                sh_masks = masks, sh_code = code\<rparr>))))"

text \<open>The file of the startup sequence, as \<^verbatim>\<open>run_startup\<close> reads it.\<close>

definition parse_startup :: "bytes \<Rightarrow> (u32 \<times> seq_header) option" where
  "parse_startup str =
     (if length str < 16 then None
      else let ver = of_le (take 4 str); len_ns = of_le (take 8 (drop 4 str))
        in if \<not> valid_ver ver then None
           else (case read_ttl_masks ver (drop 12 str) of
              Inl _ \<Rightarrow> None
            | Inr (banks, masks, code) \<Rightarrow>
                Some (ver, \<lparr>sh_len_ns = len_ns, sh_banks = banks, sh_masks = masks, sh_code = code\<rparr>)))"

text \<open>The same file as \<^verbatim>\<open>process_set_startup\<close> writes it; it always writes version 3.\<close>

definition startup_file :: "u64 \<Rightarrow> u32 list \<Rightarrow> bytes \<Rightarrow> bytes" where
  "startup_file len_ns masks code =
     le_bytes 4 (3 :: u32) @ le_bytes 8 len_ns @ le_bytes 4 (of_nat (length masks) :: u32)
     @ concat (map (le_bytes 4) masks) @ code"

section \<open>Ids and DDS values\<close>

text \<open>\<^verbatim>\<open>get_seq_id\<close>; \<open>srv\<close> is \<^verbatim>\<open>m_id\<close>.\<close>

definition get_seq_id :: "u64 \<Rightarrow> bytes \<Rightarrow> nat \<Rightarrow> u64" where
  "get_seq_id srv msg suffix =
     (if length msg \<noteq> 16 + suffix then 0
      else if of_le (take 8 (drop 8 msg)) \<noteq> srv then 0
      else of_le (take 8 msg))"

text \<open>What the reply to \<^verbatim>\<open>run_seq\<close> starts with.\<close>

definition seq_id_msg :: "u64 \<Rightarrow> u64 \<Rightarrow> bytes" where
  "seq_id_msg srv i = le_bytes 8 i @ le_bytes 8 srv"

definition push_dds_res :: "u8 \<Rightarrow> u32 \<Rightarrow> bytes \<Rightarrow> bytes" where
  "push_dds_res chn v res = res @ chn # le_bytes 4 v"

text \<open>The entries of a list of DDS values, whose length is a multiple of 5.\<close>

fun dds_entries :: "bytes \<Rightarrow> (u8 \<times> u32) list" where
  "dds_entries (c # b0 # b1 # b2 # b3 # rest) = (c, of_le [b0, b1, b2, b3]) # dds_entries rest"
| "dds_entries _ = []"

definition dds_chn_ok :: "u8 \<Rightarrow> bool" where
  "dds_chn_ok chn \<longleftrightarrow> drop_bit 6 chn < 3 \<and> chn AND 0x3f < 22"

section \<open>Facts\<close>

lemma le_bytes_4: "le_bytes 4 (v :: u32) = [ucast v, ucast (drop_bit 8 v), ucast (drop_bit 16 v), ucast (drop_bit 24 v)]"
  by (simp add: eval_nat_numeral drop_bit_drop_bit)

lemma dds_entries_push [simp]:
  "dds_entries (chn # le_bytes 4 v @ rest) = (chn, v) # dds_entries rest"
proof -
  have "of_le [ucast v, ucast (drop_bit 8 v), ucast (drop_bit 16 v), ucast (drop_bit 24 v)] = v"
    using of_le_le_bytes_std(1) [of v] unfolding le_bytes_4 .
  then show ?thesis
    by (simp add: le_bytes_4)
qed

lemma masks_of_concat:
  assumes "length masks \<le> NUM_TTL_BANKS"
  shows "masks_of (length masks) (concat (map (le_bytes 4) masks) @ rest) =
     masks @ replicate (NUM_TTL_BANKS - length masks) 0"
proof -
  have "drop (4 * i) (concat (map (le_bytes 4) masks) @ rest) =
      concat (map (le_bytes 4) (drop i masks)) @ rest" if "i < length masks" for i
    using that
  proof (induction masks arbitrary: i)
    case (Cons m ms)
    then show ?case by (cases i) simp_all
  qed simp
  then have "of_le (take 4 (drop (4 * i) (concat (map (le_bytes 4) masks) @ rest))) = masks ! i"
    if "i < length masks" for i
    using that by (simp add: Cons_nth_drop_Suc [symmetric])
  then have "map (\<lambda>i. of_le (take 4 (drop (4 * i) (concat (map (le_bytes 4) masks) @ rest)))) [0 ..< length masks] =
      map (\<lambda>i. masks ! i) [0 ..< length masks]"
    by (intro map_cong [OF refl]) simp
  then show ?thesis
    by (simp add: masks_of_def map_nth)
qed

lemma length_concat_le: "length (concat (map (le_bytes n) ws)) = n * length ws"
  by (induction ws) auto

text \<open>The file of the startup sequence is read back, unless its number of banks is refused.\<close>

lemma parse_startup_file:
  assumes "length masks < 2 ^ 32"
  shows "parse_startup (startup_file len_ns masks code) =
     (if masks \<noteq> [] \<and> length masks \<le> NUM_TTL_BANKS
      then Some (3, \<lparr>sh_len_ns = len_ns, sh_banks = of_nat (length masks),
             sh_masks = masks @ replicate (NUM_TTL_BANKS - length masks) 0, sh_code = code\<rparr>)
      else None)"
proof -
  define n where "n = (of_nat (length masks) :: u32)"
  have un: "unat n = length masks"
    using assms by (simp add: n_def unat_of_nat)
  then have z: "n = 0 \<longleftrightarrow> masks = []" and g: "of_nat NUM_TTL_BANKS < n \<longleftrightarrow> NUM_TTL_BANKS < length masks"
    by (auto simp: word_unat_eq_iff word_less_nat_alt NUM_TTL_BANKS_def)
  have len: "\<not> length (concat (map (le_bytes 4) masks) @ code) < unat n * 4"
    "drop (4 * unat n) (concat (map (le_bytes 4) masks) @ code) = code"
    by (simp_all add: un length_concat_le)
  have "read_ttl_masks 3 (le_bytes 4 n @ concat (map (le_bytes 4) masks) @ code) =
      (if masks \<noteq> [] \<and> length masks \<le> NUM_TTL_BANKS
       then Inr (n, masks @ replicate (NUM_TTL_BANKS - length masks) 0, code) else Inl BankRange)"
    using masks_of_concat [of masks code] len
    by (simp add: read_ttl_masks_def Let_def z g un not_less)
  moreover have "startup_file len_ns masks code =
      le_bytes 4 (3 :: u32) @ le_bytes 8 len_ns @ le_bytes 4 n @ concat (map (le_bytes 4) masks) @ code"
    by (simp add: startup_file_def n_def)
  ultimately show ?thesis
    unfolding n_def [symmetric] by (simp add: parse_startup_def valid_ver_def Let_def)
qed

section \<open>Properties\<close>


end
