(* ===== verification/Server.thy ===== *)
theory Server
  imports Controller Names_Config Seq_Message
begin

text \<open>
  \<^verbatim>\<open>lib/server.h\<close> and \<^verbatim>\<open>lib/server.cpp\<close>: the requests of the clients. The transport is the interface
  of ZMQ: a request is the address frames and the parts that follow them, \<^verbatim>\<open>recv_more\<close> takes the next
  part or fails, and a reply is appended to \<open>sv_replies\<close>. \<^verbatim>\<open>m_ctrl\<close> is the controller model, with the
  closures and the notification objects that the server passes to it as its callback and
  notification types; after every call of an operation of \<^verbatim>\<open>m_ctrl\<close> the calls it logged are carried
  out. None of them calls \<^verbatim>\<open>m_ctrl\<close>, so running them after the operation is the same as during it.
\<close>

section \<open>State\<close>

type_synonym zaddr = "bytes list"

text \<open>The lambdas: one replies with the clock, two store a DDS value in a shared object.\<close>

datatype scb = CB_clock zaddr | CB_dds nat u8 | CB_ovr nat u8

text \<open>
  The shared objects: \<^verbatim>\<open>struct get_dds\<close> and \<^verbatim>\<open>struct get_override_dds\<close> with its two uses. The
  destructor, run when the last of the \<open>di_refs\<close> pointers is gone, sends the reply.
\<close>

datatype info_kind = ReplyDDS zaddr | ReplyOvr zaddr | ReplyRunSeq zaddr bytes nat

record dds_info =
  di_kind :: info_kind
  di_res :: bytes
  di_refs :: nat

datatype notify = StartupNotify | SeqNotify u64

record SeqStatus =
  ss_id :: u64
  ss_wait :: "(u8 \<times> zaddr) list"
  ss_flushed :: bool

record ('q, 'p) server =
  sv_conf :: Config
  sv_id :: u64
  sv_ctrl :: "('q, scb, nat, 'p) controller"
  sv_running :: bool
  sv_seq_status :: "SeqStatus list"
  sv_name_id :: u64
  sv_ttl_names :: NamesConfig
  sv_dds_names :: NamesConfig
  sv_infos :: "nat \<Rightarrow> dds_info option"
  sv_info_next :: nat
  sv_notifies :: "nat \<Rightarrow> notify option"
  sv_notify_next :: nat
  sv_finished :: bool
  sv_files :: files
  sv_replies :: "(zaddr \<times> bytes) list"

record syntax_error =
  se_msg :: bytes
  se_line :: bytes
  se_lineno :: u32
  se_cols :: "u32 \<times> u32 \<times> u32"

text \<open>
  The parameters: the pulser and the queue of the controller, \<^verbatim>\<open>ZMQ::match\<close>, the command list parser
  and \<^verbatim>\<open>total_time\<close> of nacs-seq, the names format of yaml-cpp, whether \<^verbatim>\<open>char\<close> is signed, and what the
  worker does between two polls of the startup loop.
\<close>

record ('q, 'p) srv_env =
  v_P :: "'p pulser_ops"
  v_Q :: "'q fqueue_ops"
  v_match :: "bytes \<Rightarrow> string \<Rightarrow> bool"
  v_parse :: "bytes \<Rightarrow> syntax_error + u32 list \<times> bytes"
  v_total_time :: "bytes \<Rightarrow> u64"
  v_names :: yaml_names
  v_char_signed :: bool
  v_worker :: "('q, scb, nat, 'p) controller \<Rightarrow> ('q, scb, nat, 'p) controller"

section \<open>Replies and notifications\<close>

definition send_reply :: "zaddr \<Rightarrow> bytes \<Rightarrow> ('q, 'p) server \<Rightarrow> ('q, 'p) server" where
  "send_reply addr msg sv = sv\<lparr>sv_replies := sv_replies sv @ [(addr, msg)]\<rparr>"

definition find_seqstatus :: "u64 \<Rightarrow> SeqStatus list \<Rightarrow> SeqStatus option" where
  "find_seqstatus i sts = find (\<lambda>st. ss_id st = i) sts"

text \<open>The first status with this id is replaced, or erased.\<close>

fun update_status :: "u64 \<Rightarrow> (SeqStatus \<Rightarrow> SeqStatus list) \<Rightarrow> SeqStatus list \<Rightarrow> SeqStatus list" where
  "update_status i f [] = []"
| "update_status i f (st # sts) = (if ss_id st = i then f st @ sts else st # update_status i f sts)"

definition reply_waits :: "(u8 \<times> zaddr) list \<Rightarrow> bytes \<Rightarrow> ('q, 'p) server \<Rightarrow> ('q, 'p) server" where
  "reply_waits ws msg sv = fold (\<lambda>(what, addr). send_reply addr msg) ws sv"

definition notify_flushed :: "u64 \<Rightarrow> ('q, 'p) server \<Rightarrow> ('q, 'p) server result" where
  "notify_flushed i sv =
     (case find_seqstatus i (sv_seq_status sv) of
        None \<Rightarrow> Inl AssertFail
      | Some st \<Rightarrow>
          Inr (reply_waits (filter (\<lambda>(what, addr). what = 0) (ss_wait st)) [0]
            (sv\<lparr>sv_seq_status := update_status i (\<lambda>st. [st\<lparr>ss_flushed := True\<rparr>]) (sv_seq_status sv)\<rparr>)))"

definition finalize :: "u64 \<Rightarrow> bool \<Rightarrow> ('q, 'p) server \<Rightarrow> ('q, 'p) server" where
  "finalize i cancel sv =
     (case find_seqstatus i (sv_seq_status sv) of
        None \<Rightarrow> sv
      | Some st \<Rightarrow>
          reply_waits (filter (\<lambda>(what, addr). \<not> (what = 0 \<and> ss_flushed st)) (ss_wait st)) [of_bool cancel]
            (sv\<lparr>sv_seq_status := update_status i (\<lambda>_. []) (sv_seq_status sv)\<rparr>))"

text \<open>The members of \<^verbatim>\<open>struct Notify\<close>; each first asserts that the id is its own.\<close>

definition with_notify ::
  "nat \<Rightarrow> u64 \<Rightarrow> (u64 \<Rightarrow> ('q, 'p) server \<Rightarrow> ('q, 'p) server result) \<Rightarrow> ('q, 'p) server \<Rightarrow> ('q, 'p) server result" where
  "with_notify n i f sv =
     (case sv_notifies sv n of
        None \<Rightarrow> Inl OutOfRange
      | Some StartupNotify \<Rightarrow> Inr sv
      | Some (SeqNotify own) \<Rightarrow> bindR (assertR (own = i)) (\<lambda>_. f own sv))"

definition notify_set_id :: "nat \<Rightarrow> u64 \<Rightarrow> ('q, 'p) server \<Rightarrow> ('q, 'p) server result" where
  "notify_set_id n i sv =
     (case sv_notifies sv n of
        None \<Rightarrow> Inl OutOfRange
      | Some StartupNotify \<Rightarrow> Inr sv
      | Some (SeqNotify _) \<Rightarrow> Inr (sv\<lparr>sv_notifies := (sv_notifies sv)(n \<mapsto> SeqNotify i)\<rparr>))"

definition notify_free :: "nat \<Rightarrow> ('q, 'p) server \<Rightarrow> ('q, 'p) server result" where
  "notify_free n sv =
     (case sv_notifies sv n of
        None \<Rightarrow> Inl OutOfRange
      | Some k \<Rightarrow>
          let sv1 = sv\<lparr>sv_notifies := (sv_notifies sv)(n := None)\<rparr>
          in Inr (case k of StartupNotify \<Rightarrow> sv1\<lparr>sv_finished := True\<rparr> | SeqNotify own \<Rightarrow> finalize own True sv1))"

section \<open>The shared objects\<close>

text \<open>The loop of the lambda of \<^verbatim>\<open>process_run_seq\<close> that reads the override masks of the banks.\<close>

fun ovr_masks ::
  "('q, 'p) srv_env \<Rightarrow> nat list \<Rightarrow> ('q, scb, nat, 'p) controller
    \<Rightarrow> ((bytes \<times> bytes) \<times> ('q, scb, nat, 'p) controller) result" where
  "ovr_masks V [] c = Inr (([], []), c)"
| "ovr_masks V (bank # banks) c =
     bindR (get_ttl_ovrlo (concurrent_get (v_P V)) (int bank) c) (\<lambda>(lo, c1).
     bindR (get_ttl_ovrhi (concurrent_get (v_P V)) (int bank) c1) (\<lambda>(hi, c2).
     bindR (ovr_masks V banks c2) (\<lambda>((los, his), c3).
     Inr ((le_bytes 4 lo @ los, le_bytes 4 hi @ his), c3))))"

definition destroy_info :: "('q, 'p) srv_env \<Rightarrow> dds_info \<Rightarrow> ('q, 'p) server \<Rightarrow> ('q, 'p) server result" where
  "destroy_info V info sv =
     (case di_kind info of
        ReplyDDS addr \<Rightarrow> Inr (send_reply addr (di_res info) sv)
      | ReplyOvr addr \<Rightarrow> Inr (send_reply addr (di_res info) sv)
      | ReplyRunSeq addr ids banks \<Rightarrow>
          bindR (ovr_masks V [0 ..< banks] (sv_ctrl sv)) (\<lambda>((los, his), c).
          Inr (send_reply addr (ids @ los @ his @ di_res info) (sv\<lparr>sv_ctrl := c\<rparr>))))"

definition drop_info :: "('q, 'p) srv_env \<Rightarrow> nat \<Rightarrow> ('q, 'p) server \<Rightarrow> ('q, 'p) server result" where
  "drop_info V i sv =
     (case sv_infos sv i of
        None \<Rightarrow> Inl OutOfRange
      | Some info \<Rightarrow>
          if di_refs info \<le> 1
          then destroy_info V info (sv\<lparr>sv_infos := (sv_infos sv)(i := None)\<rparr>)
          else Inr (sv\<lparr>sv_infos := (sv_infos sv)(i \<mapsto> info\<lparr>di_refs := di_refs info - 1\<rparr>)\<rparr>))"

definition store_dds :: "nat \<Rightarrow> u8 \<Rightarrow> u32 \<Rightarrow> ('q, 'p) server \<Rightarrow> ('q, 'p) server result" where
  "store_dds i chn v sv =
     (case sv_infos sv i of
        None \<Rightarrow> Inl OutOfRange
      | Some info \<Rightarrow>
          Inr (sv\<lparr>sv_infos := (sv_infos sv)(i \<mapsto> info\<lparr>di_res := push_dds_res chn v (di_res info)\<rparr>)\<rparr>))"

text \<open>A call that an operation of \<^verbatim>\<open>m_ctrl\<close> logged. A closure is destroyed once it was called.\<close>

fun run_logged :: "('q, 'p) srv_env \<Rightarrow> (scb, nat) call \<Rightarrow> ('q, 'p) server \<Rightarrow> ('q, 'p) server result" where
  "run_logged V (Callback (CB_clock addr) v) sv = Inr (send_reply addr [ucast v] sv)"
| "run_logged V (Callback (CB_dds i chn) v) sv = bindR (store_dds i chn v sv) (drop_info V i)"
| "run_logged V (Callback (CB_ovr i chn) v) sv =
     bindR (if v = -1 then Inr sv else store_dds i chn v sv) (drop_info V i)"
| "run_logged V (NotifySetId n i) sv = notify_set_id n i sv"
| "run_logged V (NotifyStart n i) sv = with_notify n i (\<lambda>_. Inr) sv"
| "run_logged V (NotifyFlushed n i) sv = with_notify n i notify_flushed sv"
| "run_logged V (NotifyEnd n i) sv = with_notify n i (\<lambda>own sv'. Inr (finalize own False sv')) sv"
| "run_logged V (NotifyCancel n i) sv = with_notify n i (\<lambda>own sv'. Inr (finalize own True sv')) sv"
| "run_logged V (NotifyFree n) sv = notify_free n sv"

text \<open>An operation of \<^verbatim>\<open>m_ctrl\<close>, one that returns a value and one that does not.\<close>

definition ctrl_get ::
  "('q, 'p) srv_env \<Rightarrow> (('q, scb, nat, 'p) controller \<Rightarrow> ('a \<times> ('q, scb, nat, 'p) controller) result)
    \<Rightarrow> ('q, 'p) server \<Rightarrow> ('a \<times> ('q, 'p) server) result" where
  "ctrl_get V f sv =
     bindR (f (sv_ctrl sv)) (\<lambda>(x, c).
     bindR (foldR (run_logged V) (m_log c) (sv\<lparr>sv_ctrl := c\<lparr>m_log := []\<rparr>\<rparr>)) (\<lambda>sv'. Inr (x, sv')))"

definition ctrl_do ::
  "('q, 'p) srv_env \<Rightarrow> (('q, scb, nat, 'p) controller \<Rightarrow> ('q, scb, nat, 'p) controller result)
    \<Rightarrow> ('q, 'p) server \<Rightarrow> ('q, 'p) server result" where
  "ctrl_do V f sv = bindR (ctrl_get V (\<lambda>c. bindR (f c) (\<lambda>c'. Inr ((), c'))) sv) (\<lambda>(_, sv'). Inr sv')"

text \<open>The values of the DDS channels, each asked for with a closure that shares the object.\<close>

definition ask_dds ::
  "('q, 'p) srv_env \<Rightarrow> nat \<Rightarrow> bool \<Rightarrow> u8 \<Rightarrow> ('q, 'p) server \<Rightarrow> ('q, 'p) server result" where
  "ask_dds V i is_ovr chn sv =
     (case sv_infos sv i of
        None \<Rightarrow> Inl OutOfRange
      | Some info \<Rightarrow>
          let sv1 = sv\<lparr>sv_infos := (sv_infos sv)(i \<mapsto> info\<lparr>di_refs := Suc (di_refs info)\<rparr>)\<rparr>;
              op = dds_ops ! unat (drop_bit 6 chn); c = uint (chn AND 0x3f)
          in if is_ovr
             then ctrl_do V (get_dds_ovr (v_Q V) (concurrent_get (v_P V)) op c (CB_ovr i chn)) sv1
             else ctrl_do V (get_dds (v_Q V) (concurrent_get (v_P V)) op c (CB_dds i chn)) sv1)"

text \<open>All three values of every active channel; \<open>uint8_t((typ << 6) | i)\<close>.\<close>

definition all_dds :: "int list \<Rightarrow> u8 list" where
  "all_dds chns = map (\<lambda>(i, typ). push_bit 6 (of_nat typ) OR word_of_int i) (List.product chns [0 ..< 3])"

definition ask_all ::
  "('q, 'p) srv_env \<Rightarrow> info_kind \<Rightarrow> bool \<Rightarrow> u8 list \<Rightarrow> ('q, 'p) server \<Rightarrow> ('q, 'p) server result" where
  "ask_all V kind is_ovr chns sv =
     (let i = sv_info_next sv;
          sv1 = sv\<lparr>sv_infos := (sv_infos sv)(i \<mapsto> \<lparr>di_kind = kind, di_res = [], di_refs = 1\<rparr>),
                   sv_info_next := Suc i\<rparr>
      in bindR (foldR (ask_dds V i is_ovr) chns sv1) (drop_info V i))"

definition get_override_dds ::
  "('q, 'p) srv_env \<Rightarrow> info_kind \<Rightarrow> ('q, 'p) server \<Rightarrow> ('q, 'p) server result" where
  "get_override_dds V kind sv = ask_all V kind True (all_dds (get_active_dds (sv_ctrl sv))) sv"

section \<open>Requests\<close>

text \<open>
  A handler returns whether the request was valid; \<^verbatim>\<open>goto err\<close> is \<open>False\<close>. \<open>arg\<close> is what the next
  \<^verbatim>\<open>recv_more\<close> gives.
\<close>

type_synonym ('q, 'p) handled = "(bool \<times> ('q, 'p) server) result"

definition accept :: "zaddr \<Rightarrow> bytes \<Rightarrow> ('q, 'p) server \<Rightarrow> ('q, 'p) handled" where
  "accept addr msg sv = Inr (True, send_reply addr msg sv)"

definition reject :: "('q, 'p) server \<Rightarrow> ('q, 'p) handled" where
  "reject sv = Inr (False, sv)"

definition process_set_dds ::
  "('q, 'p) srv_env \<Rightarrow> bytes \<Rightarrow> bool \<Rightarrow> ('q, 'p) server \<Rightarrow> ('q, 'p) handled" where
  "process_set_dds V msg is_ovr sv =
     (if length msg mod 5 \<noteq> 0 then reject sv
      else if \<not> list_all (\<lambda>(chn, val). dds_chn_ok chn \<and> (is_ovr \<or> val \<noteq> -1)) (dds_entries msg) then reject sv
      else
        bindR (foldR (\<lambda>(chn, val).
            let op = dds_ops ! unat (drop_bit 6 chn); c = uint (chn AND 0x3f)
            in ctrl_do V (if is_ovr then set_dds_ovr (v_Q V) (concurrent_set (v_P V)) op c val
                          else set_dds (v_Q V) (concurrent_set (v_P V)) op c val)) (dds_entries msg) sv)
          (\<lambda>sv'. Inr (True, sv')))"

text \<open>\<^verbatim>\<open>override_dds\<close> and \<^verbatim>\<open>set_dds\<close>\<close>

definition req_set_dds ::
  "('q, 'p) srv_env \<Rightarrow> bool \<Rightarrow> zaddr \<Rightarrow> bytes option \<Rightarrow> ('q, 'p) server \<Rightarrow> ('q, 'p) handled" where
  "req_set_dds V is_ovr addr arg sv =
     (case arg of
        None \<Rightarrow> reject sv
      | Some msg \<Rightarrow>
          bindR (process_set_dds V msg is_ovr sv) (\<lambda>(ok, sv').
            if ok then accept addr [0] sv' else reject sv'))"

definition process_run_seq ::
  "('q, 'p) srv_env \<Rightarrow> bool \<Rightarrow> zaddr \<Rightarrow> bytes option \<Rightarrow> bytes option \<Rightarrow> ('q, 'p) server \<Rightarrow> ('q, 'p) handled" where
  "process_run_seq V is_cmd addr part1 part2 sv =
     (case parse_run_seq part1 part2 of
        None \<Rightarrow> reject sv
      | Some (ver, h) \<Rightarrow>
          let n = sv_notify_next sv;
              sv1 = sv\<lparr>sv_notifies := (sv_notifies sv)(n \<mapsto> SeqNotify (-1)), sv_notify_next := Suc n\<rparr>
          in bindR (ctrl_get V (\<lambda>c. Inr (seq_run_code (v_Q V) is_cmd ver (sh_len_ns h) (sh_masks h) (sh_code h) n c)) sv1)
               (\<lambda>(i, sv2).
             let sv3 = sv2\<lparr>sv_seq_status := sv_seq_status sv2 @ [\<lparr>ss_id = i, ss_wait = [], ss_flushed = False\<rparr>]\<rparr>
             in if is_cmd then
                  bindR (ctrl_get V (has_ttl_ovr (v_P V)) sv3) (\<lambda>(ttl_ovr, sv4).
                  accept addr (seq_id_msg (sv_id sv4) i @
                    [of_bool ttl_ovr, of_bool (iface_has_dds_ovr (sv_ctrl sv4))]) sv4)
                else
                  bindR (get_override_dds V (ReplyRunSeq addr (seq_id_msg (sv_id sv3) i) (unat (sh_banks h))) sv3)
                    (\<lambda>sv4. Inr (True, sv4))))"

definition req_wait_seq :: "zaddr \<Rightarrow> bytes option \<Rightarrow> ('q, 'p) server \<Rightarrow> ('q, 'p) handled" where
  "req_wait_seq addr arg sv =
     (case arg of
        None \<Rightarrow> reject sv
      | Some msg \<Rightarrow>
          if length msg \<noteq> 17 then reject sv
          else let i = get_seq_id (sv_id sv) msg 1; what = msg ! 16 - 1
            in if i = 0 then reject sv
               else if what \<noteq> 0 \<and> what \<noteq> 1 then reject sv
               else (case sv_seq_status sv of
                  [] \<Rightarrow> accept addr [0] sv
                | first # _ \<Rightarrow>
                    if ss_id first > i then accept addr [0] sv
                    else (case find_seqstatus i (sv_seq_status sv) of
                       None \<Rightarrow> reject sv
                     | Some st \<Rightarrow>
                         if what = 0 \<and> ss_flushed st then accept addr [0] sv
                         else Inr (True, sv\<lparr>sv_seq_status :=
                           update_status i (\<lambda>st. [st\<lparr>ss_wait := ss_wait st @ [(what, addr)]\<rparr>]) (sv_seq_status sv)\<rparr>))))"

definition req_cancel_seq ::
  "('q, 'p) srv_env \<Rightarrow> zaddr \<Rightarrow> bytes option \<Rightarrow> ('q, 'p) server \<Rightarrow> ('q, 'p) handled" where
  "req_cancel_seq V addr arg sv =
     (let cancel = (\<lambda>i. bindR (ctrl_get V (cancel_seq (v_Q V) i) sv) (\<lambda>(res, sv').
                          accept addr [of_bool (\<not> res)] sv'))
      in case arg of
           None \<Rightarrow> cancel 0
         | Some msg \<Rightarrow> (let i = get_seq_id (sv_id sv) msg 0 in if i \<noteq> 0 then cancel i else reject sv))"

definition req_state_id ::
  "('q, 'p) srv_env \<Rightarrow> zaddr \<Rightarrow> ('q, 'p) server \<Rightarrow> ('q, 'p) handled" where
  "req_state_id V addr sv =
     bindR (ctrl_get V (\<lambda>c. Inr (get_state_id (v_Q V) c)) sv) (\<lambda>(i, sv').
     accept addr (le_bytes 8 i @ le_bytes 8 (sv_id sv')) sv')"

definition req_name_id :: "zaddr \<Rightarrow> ('q, 'p) server \<Rightarrow> ('q, 'p) handled" where
  "req_name_id addr sv = accept addr (le_bytes 8 (sv_name_id sv) @ le_bytes 8 (sv_id sv)) sv"

text \<open>A mask at a position of the message; the bank follows the \<open>n\<close> masks or is 0.\<close>

definition msg_mask :: "bytes \<Rightarrow> nat \<Rightarrow> u32" where
  "msg_mask msg i = of_le (take 4 (drop (4 * i) msg))"

definition msg_bank :: "bytes \<Rightarrow> nat \<Rightarrow> int option" where
  "msg_bank msg n =
     (if length msg = 4 * n then Some 0
      else if length msg = 4 * n + 4 then Some (sint (msg_mask msg n))
      else None)"

definition req_override_ttl ::
  "('q, 'p) srv_env \<Rightarrow> zaddr \<Rightarrow> bytes option \<Rightarrow> ('q, 'p) server \<Rightarrow> ('q, 'p) handled" where
  "req_override_ttl V addr arg sv =
     (case arg of
        None \<Rightarrow> reject sv
      | Some msg \<Rightarrow>
          (case msg_bank msg 3 of
             None \<Rightarrow> reject sv
           | Some bank \<Rightarrow>
               bindR (foldR (\<lambda>i. ctrl_do V (set_ttl_ovr (v_Q V) (concurrent_set (v_P V)) bank (msg_mask msg i) (int i)))
                 [0 ..< 3] sv) (\<lambda>sv1.
               bindR (ctrl_get V (get_ttl_ovrlo (concurrent_get (v_P V)) bank) sv1) (\<lambda>(lo, sv2).
               bindR (ctrl_get V (get_ttl_ovrhi (concurrent_get (v_P V)) bank) sv2) (\<lambda>(hi, sv3).
               accept addr (le_bytes 4 lo @ le_bytes 4 hi) sv3)))))"

definition req_set_ttl ::
  "('q, 'p) srv_env \<Rightarrow> zaddr \<Rightarrow> bytes option \<Rightarrow> ('q, 'p) server \<Rightarrow> ('q, 'p) handled" where
  "req_set_ttl V addr arg sv =
     (case arg of
        None \<Rightarrow> reject sv
      | Some msg \<Rightarrow>
          (case msg_bank msg 2 of
             None \<Rightarrow> reject sv
           | Some bank \<Rightarrow>
               let lo = msg_mask msg 0; hi = msg_mask msg 1
               in bindR (ctrl_do V (set_ttl (v_Q V) (concurrent_set (v_P V)) bank lo False) sv) (\<lambda>sv1.
                  bindR (ctrl_do V (set_ttl (v_Q V) (concurrent_set (v_P V)) bank hi True) sv1) (\<lambda>sv2.
                  bindR (ctrl_get V (get_ttl (concurrent_get (v_P V)) bank) sv2) (\<lambda>(new_mask, sv3).
                  accept addr (le_bytes 4 (new_mask AND NOT lo OR hi)) sv3)))))"

definition req_get_dds ::
  "('q, 'p) srv_env \<Rightarrow> zaddr \<Rightarrow> bytes option \<Rightarrow> ('q, 'p) server \<Rightarrow> ('q, 'p) handled" where
  "req_get_dds V addr arg sv =
     (case arg of
        Some msg \<Rightarrow>
          if \<not> list_all dds_chn_ok msg then reject sv
          else bindR (ask_all V (ReplyDDS addr) False msg sv) (\<lambda>sv'. Inr (True, sv'))
      | None \<Rightarrow>
          bindR (ask_all V (ReplyDDS addr) False (all_dds (get_active_dds (sv_ctrl sv))) sv) (\<lambda>sv'. Inr (True, sv')))"

definition req_get_override_dds ::
  "('q, 'p) srv_env \<Rightarrow> zaddr \<Rightarrow> ('q, 'p) server \<Rightarrow> ('q, 'p) handled" where
  "req_get_override_dds V addr sv = bindR (get_override_dds V (ReplyOvr addr) sv) (\<lambda>sv'. Inr (True, sv'))"

definition req_reset_dds ::
  "('q, 'p) srv_env \<Rightarrow> zaddr \<Rightarrow> bytes option \<Rightarrow> ('q, 'p) server \<Rightarrow> ('q, 'p) handled" where
  "req_reset_dds V addr arg sv =
     (case arg of
        Some [b] \<Rightarrow>
          let chn = (if v_char_signed V then sint b else uint b)
          in if chn \<ge> 22 then reject sv
             else bindR (ctrl_do V (reset_dds (v_Q V) chn) sv) (accept addr [0])
      | _ \<Rightarrow> reject sv)"

definition req_set_clock ::
  "('q, 'p) srv_env \<Rightarrow> zaddr \<Rightarrow> bytes option \<Rightarrow> ('q, 'p) server \<Rightarrow> ('q, 'p) handled" where
  "req_set_clock V addr arg sv =
     (case arg of
        Some [clk] \<Rightarrow> bindR (ctrl_do V (set_clock (v_Q V) (concurrent_set (v_P V)) clk) sv) (accept addr [0])
      | _ \<Rightarrow> reject sv)"

definition req_get_clock ::
  "('q, 'p) srv_env \<Rightarrow> zaddr \<Rightarrow> ('q, 'p) server \<Rightarrow> ('q, 'p) handled" where
  "req_get_clock V addr sv =
     bindR (ctrl_do V (get_clock (v_Q V) (concurrent_get (v_P V)) (CB_clock addr)) sv) (\<lambda>sv'. Inr (True, sv'))"

text \<open>Names. Both lists go through the same function; \<open>upd\<close> is the member that is changed.\<close>

definition process_set_names ::
  "('q, 'p) srv_env \<Rightarrow> bytes \<Rightarrow> (('q, 'p) server \<Rightarrow> NamesConfig)
    \<Rightarrow> (NamesConfig \<Rightarrow> ('q, 'p) server \<Rightarrow> ('q, 'p) server) \<Rightarrow> ('q, 'p) server \<Rightarrow> ('q, 'p) handled" where
  "process_set_names V msg get upd sv =
     (let (has_set, vec) = set_names_loop msg False (nc_names (get sv));
          nc = (get sv)\<lparr>nc_names := vec\<rparr>; sv1 = upd nc sv
      in Inr (has_set,
           if has_set then sv1\<lparr>sv_files := names_save (v_names V) nc (sv_files sv1), sv_name_id := sv_name_id sv1 + 1\<rparr>
           else sv1))"

definition req_set_names ::
  "('q, 'p) srv_env \<Rightarrow> (('q, 'p) server \<Rightarrow> NamesConfig) \<Rightarrow> (NamesConfig \<Rightarrow> ('q, 'p) server \<Rightarrow> ('q, 'p) server)
    \<Rightarrow> zaddr \<Rightarrow> bytes option \<Rightarrow> ('q, 'p) server \<Rightarrow> ('q, 'p) handled" where
  "req_set_names V get upd addr arg sv =
     (case arg of
        None \<Rightarrow> reject sv
      | Some msg \<Rightarrow>
          bindR (process_set_names V msg get upd sv) (\<lambda>(ok, sv').
            if ok then accept addr [0] sv' else reject sv'))"

definition process_get_names :: "NamesConfig \<Rightarrow> zaddr \<Rightarrow> ('q, 'p) server \<Rightarrow> ('q, 'p) handled" where
  "process_get_names nc addr sv = accept addr (names_msg (nc_names nc)) sv"

section \<open>The startup sequence\<close>

definition runtime_file :: "('q, 'p) server \<Rightarrow> string \<Rightarrow> string" where
  "runtime_file sv name = c_runtime_dir (sv_conf sv) @ name"

definition syntax_error_msg :: "syntax_error \<Rightarrow> bytes" where
  "syntax_error_msg err =
     (let (c0, c1, c2) = se_cols err
      in [1] @ se_msg err @ [0] @ se_line err @ [0] @ le_bytes 4 (se_lineno err)
         @ le_bytes 4 c0 @ le_bytes 4 c1 @ le_bytes 4 c2)"

text \<open>A write through a stream that may have failed to open, and \<^verbatim>\<open>rename\<close>.\<close>

definition try_write :: "string \<Rightarrow> bytes \<Rightarrow> files \<Rightarrow> files" where
  "try_write name bs fs = (if f_writable fs name then write_file name bs fs else fs)"

definition rename_file :: "string \<Rightarrow> string \<Rightarrow> files \<Rightarrow> files" where
  "rename_file old new fs = fs\<lparr>f_data := (f_data fs)(new := f_data fs old, old := None)\<rparr>"

definition process_set_startup ::
  "('q, 'p) srv_env \<Rightarrow> zaddr \<Rightarrow> bytes \<Rightarrow> ('q, 'p) server \<Rightarrow> ('q, 'p) server" where
  "process_set_startup V addr msg sv =
     (let text = takeWhile (\<lambda>b. b \<noteq> 0) msg
      in if length text = length msg then send_reply addr [1] sv
         else case v_parse V text of
           Inl err \<Rightarrow> send_reply addr (syntax_error_msg err) sv
         | Inr (masks, code) \<Rightarrow>
             let ttmp = runtime_file sv ''/startup.cmdlist.tmp'';
                 btmp = runtime_file sv ''/startup.cmdbin.tmp'';
                 fs = sv_files sv;
                 fs1 = try_write btmp (startup_file (v_total_time V code * 10) masks code) (try_write ttmp text fs)
             in if \<not> f_writable fs btmp \<or> \<not> f_writable fs ttmp
                then send_reply addr [1] (sv\<lparr>sv_files := fs1\<rparr>)
                else send_reply addr [0] (sv\<lparr>sv_files :=
                       rename_file btmp (runtime_file sv ''/startup.cmdbin'')
                         (rename_file ttmp (runtime_file sv ''/startup.cmdlist'') fs1)\<rparr>))"

definition req_set_startup ::
  "('q, 'p) srv_env \<Rightarrow> zaddr \<Rightarrow> bytes option \<Rightarrow> ('q, 'p) server \<Rightarrow> ('q, 'p) handled" where
  "req_set_startup V addr arg sv =
     (case arg of
        None \<Rightarrow> reject sv
      | Some msg \<Rightarrow> if length msg < 1 then reject sv else Inr (True, process_set_startup V addr msg sv))"

definition req_get_startup :: "zaddr \<Rightarrow> ('q, 'p) server \<Rightarrow> ('q, 'p) handled" where
  "req_get_startup addr sv =
     accept addr ((case f_data (sv_files sv) (runtime_file sv ''/startup.cmdlist'') of
        None \<Rightarrow> [] | Some str \<Rightarrow> str) @ [0]) sv"

text \<open>The wait for the startup sequence; the worker moves between two polls.\<close>

fun startup_loop :: "('q, 'p) srv_env \<Rightarrow> nat \<Rightarrow> ('q, 'p) server \<Rightarrow> ('q, 'p) server result" where
  "startup_loop V 0 sv = Inl OutOfFuel"
| "startup_loop V (Suc fuel) sv =
     (if sv_finished sv then Inr sv
      else bindR (ctrl_do V (run_frontend (v_Q V)) (sv\<lparr>sv_ctrl := v_worker V (sv_ctrl sv)\<rparr>)) (startup_loop V fuel))"

definition run_startup :: "('q, 'p) srv_env \<Rightarrow> nat \<Rightarrow> ('q, 'p) server \<Rightarrow> ('q, 'p) server result" where
  "run_startup V fuel sv =
     (case f_data (sv_files sv) (runtime_file sv ''/startup.cmdbin'') of
        None \<Rightarrow> Inr sv
      | Some str \<Rightarrow>
          (case parse_startup str of
             None \<Rightarrow> Inr sv
           | Some (ver, h) \<Rightarrow>
               let n = sv_notify_next sv;
                   sv1 = sv\<lparr>sv_notifies := (sv_notifies sv)(n \<mapsto> StartupNotify), sv_notify_next := Suc n,
                            sv_finished := False\<rparr>
               in bindR (ctrl_get V (\<lambda>c. Inr (seq_run_code (v_Q V) True ver (sh_len_ns h) (sh_masks h) (sh_code h) n c)) sv1)
                    (\<lambda>(_, sv2). startup_loop V fuel sv2)))"

section \<open>The dispatcher\<close>

abbreviation set_ttl_names :: "NamesConfig \<Rightarrow> ('q, 'p) server \<Rightarrow> ('q, 'p) server" where
  "set_ttl_names nc sv \<equiv> sv\<lparr>sv_ttl_names := nc\<rparr>"

abbreviation set_dds_names :: "NamesConfig \<Rightarrow> ('q, 'p) server \<Rightarrow> ('q, 'p) server" where
  "set_dds_names nc sv \<equiv> sv\<lparr>sv_dds_names := nc\<rparr>"

definition msg_part :: "bytes list \<Rightarrow> nat \<Rightarrow> bytes option" where
  "msg_part parts n = (if n < length parts then Some (parts ! n) else None)"

definition dispatch ::
  "('q, 'p) srv_env \<Rightarrow> zaddr \<Rightarrow> bytes list \<Rightarrow> ('q, 'p) server \<Rightarrow> ('q, 'p) handled" where
  "dispatch V addr parts sv =
     (case msg_part parts 0 of
        None \<Rightarrow> reject sv
      | Some cmd \<Rightarrow>
          let is = v_match V cmd; arg = msg_part parts 1
          in if is ''run_seq'' then process_run_seq V False addr arg (msg_part parts 2) sv
             else if is ''run_cmdlist'' then process_run_seq V True addr arg (msg_part parts 2) sv
             else if is ''wait_seq'' then req_wait_seq addr arg sv
             else if is ''cancel_seq'' then req_cancel_seq V addr arg sv
             else if is ''state_id'' then req_state_id V addr sv
             else if is ''name_id'' then req_name_id addr sv
             else if is ''override_ttl'' then req_override_ttl V addr arg sv
             else if is ''set_ttl'' then req_set_ttl V addr arg sv
             else if is ''override_dds'' then req_set_dds V True addr arg sv
             else if is ''get_override_dds'' then req_get_override_dds V addr sv
             else if is ''set_dds'' then req_set_dds V False addr arg sv
             else if is ''get_dds'' then req_get_dds V addr arg sv
             else if is ''reset_dds'' then req_reset_dds V addr arg sv
             else if is ''set_clock'' then req_set_clock V addr arg sv
             else if is ''get_clock'' then req_get_clock V addr sv
             else if is ''set_ttl_names'' then req_set_names V sv_ttl_names set_ttl_names addr arg sv
             else if is ''get_max_ttl'' then accept addr [word_of_int (c_max_ttl_chn (sv_conf sv))] sv
             else if is ''get_ttl_names'' then process_get_names (sv_ttl_names sv) addr sv
             else if is ''set_dds_names'' then req_set_names V sv_dds_names set_dds_names addr arg sv
             else if is ''get_dds_names'' then process_get_names (sv_dds_names sv) addr sv
             else if is ''get_startup'' then req_get_startup addr sv
             else if is ''set_startup'' then req_set_startup V addr arg sv
             else reject sv)"

definition process_zmq ::
  "('q, 'p) srv_env \<Rightarrow> zaddr \<Rightarrow> bytes list \<Rightarrow> ('q, 'p) server \<Rightarrow> ('q, 'p) server result" where
  "process_zmq V addr parts sv =
     bindR (dispatch V addr parts sv) (\<lambda>(ok, sv'). Inr (if ok then sv' else send_reply addr [1] sv'))"

section \<open>The server\<close>

text \<open>
  The constructor, from the controller that \<^verbatim>\<open>CtrlIFace::create\<close> made. A negative \<^verbatim>\<open>max_ttl_chn + 1\<close>
  becomes a huge size, for which \<^verbatim>\<open>resize\<close> throws.
\<close>

definition fit_names ::
  "('q, 'p) srv_env \<Rightarrow> int \<Rightarrow> NamesConfig \<Rightarrow> files \<Rightarrow> (NamesConfig \<times> files) result" where
  "fit_names V n nc fs =
     (if int (length (nc_names nc)) = n then Inr (nc, fs)
      else if n < 0 then Inl (RuntimeError ''vector::_M_default_append'')
      else let nc' = nc\<lparr>nc_names := names_resize (nat n) (nc_names nc)\<rparr>
        in Inr (nc', names_save (v_names V) nc' fs))"

definition Server_init ::
  "('q, 'p) srv_env \<Rightarrow> nat \<Rightarrow> Config \<Rightarrow> u64 \<Rightarrow> ('q, scb, nat, 'p) controller \<Rightarrow> files \<Rightarrow> ('q, 'p) server result" where
  "Server_init V fuel conf srv c fs =
     bindR (NamesConfig_init (v_names V) fs (c_runtime_dir conf @ ''/ttl.yaml'')) (\<lambda>ttl.
     bindR (NamesConfig_init (v_names V) fs (c_runtime_dir conf @ ''/dds.yaml'')) (\<lambda>dds.
     bindR (fit_names V (c_max_ttl_chn conf + 1) ttl fs) (\<lambda>(ttl', fs1).
     bindR (fit_names V 22 dds fs1) (\<lambda>(dds', fs2).
     let sv = \<lparr>sv_conf = conf, sv_id = srv, sv_ctrl = c, sv_running = False, sv_seq_status = [],
           sv_name_id = 0, sv_ttl_names = ttl', sv_dds_names = dds', sv_infos = (\<lambda>_. None),
           sv_info_next = 0, sv_notifies = (\<lambda>_. None), sv_notify_next = 0, sv_finished = False,
           sv_files = fs2, sv_replies = []\<rparr>
     in bindR (ctrl_do V (ctrl_set_dds_timing1 (v_P V) (c_dds_write_adsu conf) (c_dds_write_wrlow conf)
                 (c_dds_write_adhd conf) (c_dds_write_fuddl conf) (c_dds_write_fudhd conf)) sv)
          (run_startup V fuel)))))"

text \<open>
  One turn of the loop of \<^verbatim>\<open>run\<close>: the poll, during which the worker moves, the callbacks, and a
  request if one has arrived. The poll does not wait when something is ready.
\<close>

definition poll_timeout :: "('q, 'p) srv_env \<Rightarrow> ('q, 'p) server \<Rightarrow> nat" where
  "poll_timeout V sv =
     (let pending = has_pending (v_Q V) (sv_ctrl sv)
      in if snd pending then 0 else if fst pending then 10 else 1000)"

definition run_turn ::
  "('q, 'p) srv_env \<Rightarrow> (zaddr \<times> bytes list) option \<Rightarrow> ('q, 'p) server \<Rightarrow> ('q, 'p) server result" where
  "run_turn V msg sv =
     bindR (ctrl_do V (run_frontend (v_Q V)) (sv\<lparr>sv_ctrl := v_worker V (sv_ctrl sv)\<rparr>)) (\<lambda>sv1.
       case msg of None \<Rightarrow> Inr sv1 | Some (addr, parts) \<Rightarrow> process_zmq V addr parts sv1)"

definition stop :: "('q, 'p) server \<Rightarrow> ('q, 'p) server" where
  "stop sv = sv\<lparr>sv_running := False\<rparr>"

text \<open>
  The turns of the loop: whether SIGINT arrives during the turn, upon which the signal thread of
  \<^verbatim>\<open>main.cpp\<close> calls \<open>stop\<close>, and the request.
\<close>

type_synonym turn = "bool \<times> (zaddr \<times> bytes list) option"

fun run_loop ::
  "('q, 'p) srv_env \<Rightarrow> turn list \<Rightarrow> ('q, 'p) server \<Rightarrow> ('q, 'p) server result" where
  "run_loop V [] sv = Inr sv"
| "run_loop V ((sigint, msg) # turns) sv =
     (if sv_running sv then bindR (run_turn V msg (if sigint then stop sv else sv)) (run_loop V turns) else Inr sv)"

definition server_run ::
  "('q, 'p) srv_env \<Rightarrow> turn list \<Rightarrow> ('q, 'p) server \<Rightarrow> ('q, 'p) server result" where
  "server_run V turns sv = run_loop V turns (sv\<lparr>sv_running := True\<rparr>)"

text \<open>\<^verbatim>\<open>main\<close>; \<open>argv\<close> are the arguments of the program, its name first.\<close>

definition server_main ::
  "('d, 'n) yaml_conf \<Rightarrow> ('q, 'p) srv_env \<Rightarrow> nat \<Rightarrow> string list \<Rightarrow> u64 \<Rightarrow> (Config \<Rightarrow> ('q, scb, nat, 'p) controller)
    \<Rightarrow> files \<Rightarrow> turn list \<Rightarrow> ('q, 'p) server result" where
  "server_main Y V fuel argv srv create fs turns =
     bindR (loadYAML Y (if length argv \<ge> 2 then argv ! 1 else ''/etc/molecube.yml'')) (\<lambda>conf.
     bindR (Server_init V fuel conf srv (create conf) fs) (server_run V turns))"

end
