(* ===== verification/Server_Instance.thy ===== *)
theory Server_Instance
  imports Server Controller_Instances
begin

text \<open>
  A concrete server on the software pulser, with the list queues, to which the properties of the
  server are applied: the channel 1 exists, and its amplitude is overridden.
\<close>

definition ascii :: "string \<Rightarrow> bytes" where
  "ascii s = map of_char s"

lemma of_char_u8_inject: "(of_char c :: u8) = of_char d \<longleftrightarrow> c = d"
proof -
  have "(of_char x :: nat) < 2 ^ 8" for x
    using nat_of_char_less_256 [of x] by simp
  then have "unat (of_nat (of_char x :: nat) :: u8) = of_char x" for x
    by (simp add: unsigned_of_nat take_bit_nat_eq_self_iff)
  then show ?thesis
    unfolding of_nat_of_char [symmetric, where 'a = u8] by (metis of_char_eq_iff)
qed

lemma ascii_inject [simp]: "ascii s = ascii t \<longleftrightarrow> s = t"
  unfolding ascii_def by (intro inj_map_eq_map injI) (simp add: of_char_u8_inject)

text \<open>The command list \<open>A\<close> is one that uses two banks, any other is an error.\<close>

definition small_env :: "(addr list \<times> addr list, dummy_pulser) srv_env" where
  "small_env = \<lparr>v_P = dummy_ops unit_times, v_Q = list_fqueue, v_match = (\<lambda>msg cmd. msg = ascii cmd),
     v_parse = (\<lambda>str. if str = [65] then Inr ([5, 6], [1, 2, 3])
       else Inl \<lparr>se_msg = [], se_line = str, se_lineno = 1, se_cols = (0, 0, 0)\<rparr>),
     v_total_time = (\<lambda>code. of_nat (length code)),
     v_names = \<lparr>yn_emit = concat, yn_load = (\<lambda>_. BadFile)\<rparr>, v_char_signed = True, v_worker = (\<lambda>c. c)\<rparr>"

lemma small_env_simps [simp]:
  "v_P small_env = dummy_ops unit_times" "v_Q small_env = list_fqueue" "v_worker small_env = (\<lambda>c. c)"
  "v_match small_env msg cmd = (msg = ascii cmd)" "v_char_signed small_env"
  "v_parse small_env [65] = Inr ([5, 6], [1, 2, 3])" "v_total_time small_env code = of_nat (length code)"
  by (simp_all add: small_env_def)

definition small_ctrl :: "(addr list \<times> addr list, scb, nat, dummy_pulser) controller" where
  "small_ctrl = (controller_fields ([], []) ([], []) (DummyPulser 0 (\<lambda>_. 1)) (\<lambda>_. 200000000) (\<lambda>_. 0)
       (replicate NUM_TTL_BANKS 0))
     \<lparr>m_dds_exist := (replicate NDDS False)[1 := True],
      m_cmd_cache := [push_bit 27 2 OR push_bit 26 1 OR 1 \<mapsto> \<lparr>ce_t = 5, ce_val = 0x234, ce_cbs = []\<rparr>]\<rparr>"

definition small_server :: "(addr list \<times> addr list, dummy_pulser) server" where
  "small_server = \<lparr>sv_conf = Config_init\<lparr>c_dummy := True\<rparr>, sv_id = 77, sv_ctrl = small_ctrl, sv_running = True,
     sv_seq_status = [], sv_name_id = 0, sv_ttl_names = \<lparr>nc_fname = ''/t'', nc_names = replicate 32 []\<rparr>,
     sv_dds_names = \<lparr>nc_fname = ''/d'', nc_names = replicate 22 []\<rparr>, sv_infos = (\<lambda>_. None),
     sv_info_next = 0, sv_notifies = (\<lambda>_. None), sv_notify_next = 0, sv_finished = False,
     sv_files = \<lparr>f_data = (\<lambda>_. None), f_writable = (\<lambda>_. True)\<rparr>, sv_replies = []\<rparr>"

lemma small_server_simps [simp]:
  "sv_ctrl small_server = small_ctrl" "sv_replies small_server = []" "sv_id small_server = 77"
  "sv_seq_status small_server = []" "sv_notifies small_server = (\<lambda>_. None)" "sv_infos small_server = (\<lambda>_. None)"
  "f_writable (sv_files small_server) f" "f_data (sv_files small_server) f = None"
  by (simp_all add: small_server_def)

lemma small_ctrl_simps [simp]:
  "m_log small_ctrl = []" "m_times small_ctrl i = 200000000" "m_seq_cnt small_ctrl = 0"
  "m_p small_ctrl = DummyPulser 0 (\<lambda>_. 1)"
  by (simp_all add: small_ctrl_def controller_fields_def)

end
