(* ===== verification/Server_Requests.thy ===== *)
theory Server_Requests
  imports Server_Instance Frontend
begin

text \<open>
  What the requests of \<^verbatim>\<open>lib/server.cpp\<close> guarantee to the clients: a refused request changes nothing,
  everyone who waits for a sequence is answered once, the overrides that are listed are the ones in
  force, and a startup sequence that is saved is the one that is loaded.
\<close>

section \<open>Refused requests\<close>

lemma accept_eq [simp]: "accept addr msg sv = Inr (ok, sv') \<longleftrightarrow> ok \<and> sv' = send_reply addr msg sv"
  by (auto simp: accept_def)

lemma reject_eq [simp]: "reject sv = Inr (ok, sv') \<longleftrightarrow> \<not> ok \<and> sv' = sv"
  by (auto simp: reject_def)

lemma process_set_names_reject:
  assumes "process_set_names V msg get upd sv = Inr (False, sv')"
    and "upd (get sv) sv = sv"
  shows "sv' = sv"
proof -
  obtain h vec where s: "set_names_loop msg False (nc_names (get sv)) = (h, vec)"
    by fastforce
  then have "\<not> h" and sv': "sv' = upd ((get sv)\<lparr>nc_names := vec\<rparr>) sv"
    using assms(1) by (auto simp: process_set_names_def Let_def split: if_splits)
  then have "vec = nc_names (get sv)"
    using set_names_loop_inv [of msg False "nc_names (get sv)"] s by simp
  with sv' assms(2) show ?thesis
    by simp
qed

lemma req_set_names_reject:
  assumes "req_set_names V get upd addr arg sv = Inr (False, sv')"
    and "upd (get sv) sv = sv"
  shows "sv' = sv"
  using assms process_set_names_reject [where get = get and upd = upd, OF _ assms(2)]
  by (auto simp: req_set_names_def split: option.splits if_splits)

lemma process_set_dds_reject: "process_set_dds V msg ovr sv = Inr (False, sv') \<Longrightarrow> sv' = sv"
  by (auto simp: process_set_dds_def split: if_splits)

lemmas request_defs = req_set_dds_def req_wait_seq_def req_cancel_seq_def
  req_state_id_def req_name_id_def req_override_ttl_def req_set_ttl_def req_get_dds_def
  req_get_override_dds_def req_reset_dds_def req_set_clock_def req_get_clock_def req_set_startup_def
  req_get_startup_def process_get_names_def

lemma process_run_seq_reject: "process_run_seq V is_cmd addr p1 p2 sv = Inr (False, sv') \<Longrightarrow> sv' = sv"
  by (auto simp: process_run_seq_def Let_def split: option.splits prod.splits if_splits)

lemma requests_reject:
  "req_set_dds V ovr addr arg sv = Inr (False, sv') \<Longrightarrow> sv' = sv"
  "req_wait_seq addr arg sv = Inr (False, sv') \<Longrightarrow> sv' = sv"
  "req_cancel_seq V addr arg sv = Inr (False, sv') \<Longrightarrow> sv' = sv"
  "req_state_id V addr sv = Inr (False, sv') \<Longrightarrow> sv' = sv"
  "req_name_id addr sv = Inr (False, sv') \<Longrightarrow> sv' = sv"
  "req_override_ttl V addr arg sv = Inr (False, sv') \<Longrightarrow> sv' = sv"
  "req_set_ttl V addr arg sv = Inr (False, sv') \<Longrightarrow> sv' = sv"
  "req_get_dds V addr arg sv = Inr (False, sv') \<Longrightarrow> sv' = sv"
  "req_get_override_dds V addr sv = Inr (False, sv') \<Longrightarrow> sv' = sv"
  "req_reset_dds V addr arg sv = Inr (False, sv') \<Longrightarrow> sv' = sv"
  "req_set_clock V addr arg sv = Inr (False, sv') \<Longrightarrow> sv' = sv"
  "req_get_clock V addr sv = Inr (False, sv') \<Longrightarrow> sv' = sv"
  "req_set_startup V addr arg sv = Inr (False, sv') \<Longrightarrow> sv' = sv"
  "req_get_startup addr sv = Inr (False, sv') \<Longrightarrow> sv' = sv"
  "process_get_names nc addr sv = Inr (False, sv') \<Longrightarrow> sv' = sv"
  by (auto simp: request_defs Let_def dest: process_set_dds_reject
      split: option.splits list.splits if_splits)

lemma dispatch_reject:
  assumes "dispatch V addr parts sv = Inr (False, sv')"
  shows "sv' = sv"
proof -
  have n: "req_set_names V sv_ttl_names set_ttl_names addr arg sv = Inr (False, sv') \<Longrightarrow> sv' = sv"
    "req_set_names V sv_dds_names set_dds_names addr arg sv = Inr (False, sv') \<Longrightarrow> sv' = sv" for arg
    by (erule req_set_names_reject, simp)+
  show ?thesis
    using assms unfolding dispatch_def
    by (auto simp: Let_def split: option.splits if_splits
        dest: n requests_reject process_run_seq_reject)
qed

section \<open>Waiting for a sequence\<close>

lemma reply_waits_eq:
  "reply_waits ws msg sv = sv\<lparr>sv_replies := sv_replies sv @ map (\<lambda>(what, addr). (addr, msg)) ws\<rparr>"
  by (induction ws arbitrary: sv) (auto simp: reply_waits_def send_reply_def)

lemma find_seqstatus_id: "find_seqstatus i sts = Some st \<Longrightarrow> ss_id st = i"
  by (induction sts) (auto simp: find_seqstatus_def split: if_splits)

lemma find_none: "\<forall>st \<in> set sts. ss_id st \<noteq> i \<Longrightarrow> find_seqstatus i sts = None"
  by (induction sts) (auto simp: find_seqstatus_def)

lemma update_status_find:
  "find_seqstatus i sts = Some st \<Longrightarrow> ss_id (f st) = i \<Longrightarrow>
   find_seqstatus i (update_status i (\<lambda>st. [f st]) sts) = Some (f st)"
  by (induction sts) (auto simp: find_seqstatus_def split: if_splits)

lemma update_status_ids:
  "(\<And>st. ss_id (f st) = ss_id st) \<Longrightarrow> map ss_id (update_status i (\<lambda>st. [f st]) sts) = map ss_id sts"
  by (induction sts) auto

lemma update_status_erase:
  assumes "distinct (map ss_id sts)"
  shows "update_status i (\<lambda>_. []) sts = filter (\<lambda>st. ss_id st \<noteq> i) sts"
  using assms
proof (induction sts)
  case (Cons st sts)
  have "filter (\<lambda>s. ss_id s \<noteq> i) sts = sts" if "ss_id st = i"
    using Cons.prems that by (intro filter_True) (auto simp: image_iff)
  then show ?case
    using Cons by auto
qed simp

lemma update_status_others:
  "(\<And>st. ss_id (f st) = ss_id st) \<Longrightarrow>
   filter (\<lambda>st. ss_id st \<noteq> i) (update_status i (\<lambda>st. [f st]) sts) = filter (\<lambda>st. ss_id st \<noteq> i) sts"
  by (induction sts) auto

lemma finalize_found:
  assumes "find_seqstatus i (sv_seq_status sv) = Some st" and "distinct (map ss_id (sv_seq_status sv))"
  shows "finalize i cancel sv = sv\<lparr>sv_seq_status := filter (\<lambda>st. ss_id st \<noteq> i) (sv_seq_status sv),
     sv_replies := sv_replies sv @ map (\<lambda>(what, addr). (addr, [of_bool cancel]))
       (filter (\<lambda>(what, addr). \<not> (what = 0 \<and> ss_flushed st)) (ss_wait st))\<rparr>"
  using assms by (simp add: finalize_def reply_waits_eq update_status_erase)

lemma finalize_none: "find_seqstatus i (sv_seq_status sv) = None \<Longrightarrow> finalize i cancel sv = sv"
  by (simp add: finalize_def)

text \<open>The life of a notification object after its sequence was scheduled.\<close>

definition waiting_for :: "nat \<Rightarrow> u64 \<Rightarrow> (u8 \<times> zaddr) list \<Rightarrow> ('q, 'p) server \<Rightarrow> bool" where
  "waiting_for n i ws sv \<longleftrightarrow> sv_notifies sv n = Some (SeqNotify i) \<and>
     find_seqstatus i (sv_seq_status sv) = Some \<lparr>ss_id = i, ss_wait = ws, ss_flushed = False\<rparr> \<and>
     distinct (map ss_id (sv_seq_status sv))"

lemma notify_free_after:
  assumes "sv_notifies sv n = Some (SeqNotify i)" and "\<forall>st \<in> set (sv_seq_status sv). ss_id st \<noteq> i"
  shows "run_logged V (NotifyFree n) sv = Inr (sv\<lparr>sv_notifies := (sv_notifies sv)(n := None)\<rparr>)"
  using assms by (simp add: notify_free_def finalize_none find_none Let_def)

lemma finished_answers:
  assumes "waiting_for n i ws sv"
  shows "foldR (run_logged V) [NotifyStart n i, NotifyFlushed n i, NotifyEnd n i, NotifyFree n] sv =
     Inr (sv\<lparr>sv_notifies := (sv_notifies sv)(n := None),
             sv_seq_status := filter (\<lambda>st. ss_id st \<noteq> i) (sv_seq_status sv),
             sv_replies := sv_replies sv @ map (\<lambda>(what, addr). (addr, [0]))
               (filter (\<lambda>(what, addr). what = 0) ws @ filter (\<lambda>(what, addr). what \<noteq> 0) ws)\<rparr>)"
proof -
  let ?f = "\<lambda>st. st\<lparr>ss_flushed := True\<rparr>"
  let ?sts = "update_status i (\<lambda>st. [?f st]) (sv_seq_status sv)"
  let ?st = "\<lparr>ss_id = i, ss_wait = ws, ss_flushed = False\<rparr>"
  have w: "sv_notifies sv n = Some (SeqNotify i)" "find_seqstatus i (sv_seq_status sv) = Some ?st"
    "distinct (map ss_id (sv_seq_status sv))"
    using assms by (simp_all add: waiting_for_def)
  have f: "find_seqstatus i ?sts = Some (?f ?st)" "distinct (map ss_id ?sts)"
    "filter (\<lambda>st. ss_id st \<noteq> i) ?sts = filter (\<lambda>st. ss_id st \<noteq> i) (sv_seq_status sv)"
    using update_status_find [OF w(2), of ?f] update_status_ids [of ?f i] update_status_others [of ?f i] w(3)
    by simp_all
  have "notify_flushed i sv = Inr (sv\<lparr>sv_seq_status := ?sts, sv_replies := sv_replies sv @
      map (\<lambda>(what, addr). (addr, [0])) (filter (\<lambda>(what, addr). what = 0) ws)\<rparr>)"
    using w(2) by (simp add: notify_flushed_def reply_waits_eq)
  moreover have "filter (\<lambda>(what, addr). \<not> (what = 0 \<and> True)) ws = filter (\<lambda>(what, addr). what \<noteq> 0) ws"
    by simp
  ultimately show ?thesis
    using w(1) f
    by (simp add: with_notify_def finalize_found notify_free_def finalize_none find_none Let_def)
qed

lemma cancelled_answers:
  assumes "waiting_for n i ws sv" and "pre = [] \<or> pre = [NotifyCancel n i]"
  shows "foldR (run_logged V) (pre @ [NotifyFree n]) sv =
     Inr (sv\<lparr>sv_notifies := (sv_notifies sv)(n := None),
             sv_seq_status := filter (\<lambda>st. ss_id st \<noteq> i) (sv_seq_status sv),
             sv_replies := sv_replies sv @ map (\<lambda>(what, addr). (addr, [1])) ws\<rparr>)"
  using assms
  by (auto simp: waiting_for_def with_notify_def finalize_found notify_free_def finalize_none find_none Let_def)

section \<open>Listing the overrides\<close>

text \<open>The time is past the first tenth of a second, and entries that were never set are off.\<close>

definition ovr_cache_ok :: "('q, 'cb, 'nt, 'z) iface \<Rightarrow> bool" where
  "ovr_cache_ok c \<longleftrightarrow> (\<forall>j. m_times c j > 100000000) \<and>
     (\<forall>k e. m_cmd_cache c k = Some e \<and> ce_t e = 0 \<and> bit k 26 \<longrightarrow> ce_val e = -1)"

lemma ovr_cache_ok_cong:
  "m_times c' = m_times c \<Longrightarrow> m_cmd_cache c' = m_cmd_cache c \<Longrightarrow> ovr_cache_ok c' = ovr_cache_ok c"
  by (simp only: ovr_cache_ok_def)

abbreviation chn_op :: "u8 \<Rightarrow> ReqOP" where
  "chn_op chn \<equiv> dds_ops ! unat (drop_bit 6 chn)"

abbreviation chn_num :: "u8 \<Rightarrow> u32" where
  "chn_num chn \<equiv> ucast (chn AND 0x3f)"

definition ovr_item :: "'cb cmd_cache \<Rightarrow> u8 \<Rightarrow> bytes" where
  "ovr_item cache chn =
     (let v = cached_ovr cache (chn_op chn) (chn_num chn) in if v = -1 then [] else chn # le_bytes 4 v)"

lemma chn_op_dds: "dds_chn_ok chn \<Longrightarrow> is_dds_op (chn_op chn)"
proof -
  assume "dds_chn_ok chn"
  then have "unat (drop_bit 6 chn) < 3"
    by (simp add: dds_chn_ok_def word_less_nat_alt)
  then show ?thesis
    by (auto simp: dds_ops_def is_dds_op_def nth_Cons' less_Suc_eq numeral_3_eq_3)
qed

lemma chn_num_small: "dds_chn_ok chn \<Longrightarrow> chn_num chn < 2 ^ 26"
proof -
  assume "dds_chn_ok chn"
  have "unat (chn AND 0x3f) < 2 ^ LENGTH(8)"
    by (rule unsigned_less)
  moreover from this have "unat (chn_num chn) = unat (chn AND 0x3f)"
    by (simp add: unsigned_ucast_eq take_bit_nat_eq_self_iff)
  ultimately show ?thesis
    by (simp add: word_less_nat_alt)
qed

lemma get_ovr_reads:
  assumes "is_dds_op op" and "a < 2 ^ 26" and "ovr_cache_ok c"
  shows "\<exists>c'. send_get_cmd Q (concurrent_get P) op a True cb c = Inr c' \<and>
     m_log c' = m_log c @ [Callback cb (cached_ovr (m_cmd_cache c) op a)] \<and> ovr_cache_ok c' \<and>
     cached_ovr (m_cmd_cache c') = cached_ovr (m_cmd_cache c) \<and> m_dds_exist c' = m_dds_exist c"
proof -
  define k where "k = (push_bit 27 (op_num op) OR push_bit 26 (of_bool True) OR a :: u32)"
  have key: "cache_key op a True = Inr k"
    using assms(1) by (simp add: k_def)
  have bit: "bit k 26"
    using cache_key_bit [OF key assms(2)] by simp
  define e where "e = cache_entry (m_cmd_cache c) k"
  define e' where "e' = (if ce_t e = 0 then e\<lparr>ce_val := -1\<rparr> else e)"
  have t: "\<not> m_times c 0 - 0 \<le> 100000000"
    using assms(3) by (simp add: ovr_cache_ok_def not_le)
  have val: "ce_val e' = cached_ovr (m_cmd_cache c) op a"
    using assms(3) bit by (auto simp: e'_def e_def cache_entry_def cached_ovr_def key ovr_cache_ok_def split: option.splits)
  have get: "\<exists>e2. cache_get (m_times c 0) op a True cb (m_cmd_cache c) =
      Inr (True, (m_cmd_cache c)(k \<mapsto> e2), [(cb, ce_val e')]) \<and> ce_val e2 = ce_val e' \<and> (ce_t e2 = 0 \<longrightarrow> ce_val e2 = -1)"
    using t by (auto simp: cache_get_def key Let_def e'_def e_def)
  then obtain e2 where e2: "cache_get (m_times c 0) op a True cb (m_cmd_cache c) =
      Inr (True, (m_cmd_cache c)(k \<mapsto> e2), [(cb, ce_val e')])" "ce_val e2 = ce_val e'" "ce_t e2 = 0 \<longrightarrow> ce_val e2 = -1"
    by blast
  have same: "cached_ovr ((m_cmd_cache c)(k \<mapsto> e2)) op' a' = cached_ovr (m_cmd_cache c) op' a'" for op' a'
  proof (cases "cache_key op' a' True")
    case (Inr k')
    have "ce_val e2 = cached_ovr (m_cmd_cache c) op' a'" if "k' = k"
      using val e2(2) Inr that unfolding cached_ovr_def key by simp
    then show ?thesis
      using Inr by (auto simp: cached_ovr_def)
  qed (simp add: cached_ovr_def)
  let ?c = "c\<lparr>m_observed := True, m_times := \<lambda>i. m_times c (Suc i), m_cmd_cache := (m_cmd_cache c)(k \<mapsto> e2),
      m_log := m_log c @ [Callback cb (ce_val e')]\<rparr>"
  have op: "op \<noteq> TTL" "op \<noteq> Clock"
    using assms(1) by (auto simp: is_dds_op_def)
  have "send_get_cmd Q (concurrent_get P) op a True cb c = Inr ?c"
    using op e2(1) by (simp add: send_get_cmd_def concurrent_get_def set_observed_def getTime_def log_calls_def Let_def)
  moreover have "ovr_cache_ok ?c"
    using assms(3) e2(3) by (auto simp: ovr_cache_ok_def)
  ultimately show ?thesis
    using same val by (auto simp: fun_eq_iff)
qed

lemma ask_ovr:
  assumes "sv_infos sv i = Some info" and "di_refs info \<ge> 1" and "dds_chn_ok chn"
    and "ovr_cache_ok (sv_ctrl sv)" and "m_log (sv_ctrl sv) = []"
  shows "\<exists>c'. ask_dds V i True chn sv = Inr (sv\<lparr>sv_ctrl := c', sv_infos := (sv_infos sv)
       (i \<mapsto> info\<lparr>di_res := di_res info @ ovr_item (m_cmd_cache (sv_ctrl sv)) chn\<rparr>)\<rparr>) \<and>
     ovr_cache_ok c' \<and> m_log c' = [] \<and> cached_ovr (m_cmd_cache c') = cached_ovr (m_cmd_cache (sv_ctrl sv)) \<and>
     m_dds_exist c' = m_dds_exist (sv_ctrl sv)"
proof -
  let ?v = "cached_ovr (m_cmd_cache (sv_ctrl sv)) (chn_op chn) (chn_num chn)"
  obtain c' where c': "send_get_cmd (v_Q V) (concurrent_get (v_P V)) (chn_op chn) (chn_num chn) True (CB_ovr i chn) (sv_ctrl sv) = Inr c'"
    "m_log c' = [Callback (CB_ovr i chn) ?v]" "ovr_cache_ok c'"
    "cached_ovr (m_cmd_cache c') = cached_ovr (m_cmd_cache (sv_ctrl sv))" "m_dds_exist c' = m_dds_exist (sv_ctrl sv)"
    using get_ovr_reads [OF chn_op_dds [OF assms(3)] chn_num_small [OF assms(3)] assms(4)] assms(5) by force
  have n: "word_of_int (uint (chn AND 0x3f)) = chn_num chn"
    by simp
  show ?thesis
    using assms(1,2) c' chn_op_dds [OF assms(3)]
    by (intro exI [of _ "c'\<lparr>m_log := []\<rparr>"])
       (auto simp: ask_dds_def ctrl_do_def ctrl_get_def get_dds_ovr_def n store_dds_def drop_info_def ovr_item_def
         push_dds_res_def ovr_cache_ok_def Let_def)
qed

lemma ask_ovr_all:
  assumes "sv_infos sv i = Some info" and "di_refs info \<ge> 1" and "\<forall>chn \<in> set chns. dds_chn_ok chn"
    and "ovr_cache_ok (sv_ctrl sv)" and "m_log (sv_ctrl sv) = []"
  shows "\<exists>c'. foldR (ask_dds V i True) chns sv = Inr (sv\<lparr>sv_ctrl := c', sv_infos := (sv_infos sv)
       (i \<mapsto> info\<lparr>di_res := di_res info @ concat (map (ovr_item (m_cmd_cache (sv_ctrl sv))) chns)\<rparr>)\<rparr>) \<and>
     cached_ovr (m_cmd_cache c') = cached_ovr (m_cmd_cache (sv_ctrl sv))"
  using assms
proof (induction chns arbitrary: sv info)
  case Nil
  then show ?case
    by (intro exI [of _ "sv_ctrl sv"]) (simp add: fun_upd_idem)
next
  case (Cons chn chns)
  let ?info = "info\<lparr>di_res := di_res info @ ovr_item (m_cmd_cache (sv_ctrl sv)) chn\<rparr>"
  obtain c1 where c1: "ask_dds V i True chn sv = Inr (sv\<lparr>sv_ctrl := c1, sv_infos := (sv_infos sv)(i \<mapsto> ?info)\<rparr>)"
    "ovr_cache_ok c1" "m_log c1 = []" "cached_ovr (m_cmd_cache c1) = cached_ovr (m_cmd_cache (sv_ctrl sv))"
    using ask_ovr [OF Cons.prems(1,2) _ Cons.prems(4,5)] Cons.prems(3) by (metis list.set_intros(1))
  have item: "ovr_item (m_cmd_cache c1) = ovr_item (m_cmd_cache (sv_ctrl sv))"
    using c1(4) by (simp add: ovr_item_def fun_eq_iff)
  let ?sv1 = "sv\<lparr>sv_ctrl := c1, sv_infos := (sv_infos sv)(i \<mapsto> ?info)\<rparr>"
  have "sv_infos ?sv1 i = Some ?info" "1 \<le> di_refs ?info" "\<forall>chn \<in> set chns. dds_chn_ok chn"
    "ovr_cache_ok (sv_ctrl ?sv1)" "m_log (sv_ctrl ?sv1) = []"
    using Cons.prems c1 by simp_all
  from Cons.IH [OF this] obtain c' where
    "foldR (ask_dds V i True) chns ?sv1 = Inr (?sv1\<lparr>sv_ctrl := c', sv_infos := (sv_infos ?sv1)
       (i \<mapsto> ?info\<lparr>di_res := di_res ?info @ concat (map (ovr_item (m_cmd_cache (sv_ctrl ?sv1))) chns)\<rparr>)\<rparr>)"
    "cached_ovr (m_cmd_cache c') = cached_ovr (m_cmd_cache (sv_ctrl ?sv1))"
    by blast
  then show ?case
    using c1(1,4) by (intro exI [of _ c']) (simp add: item del: fun_upd_apply)
qed

lemma all_dds_ok:
  assumes "set chns \<subseteq> int ` {0 ..< 22}" and "chn \<in> set (all_dds chns)"
  shows "dds_chn_ok chn"
proof -
  have "list_all dds_chn_ok (all_dds (map int [0 ..< 22]))"
    by code_simp
  moreover have "chn \<in> set (all_dds (map int [0 ..< 22]))"
    using assms by (fastforce simp: all_dds_def)
  ultimately show ?thesis
    by (simp add: list_all_iff)
qed

lemma active_dds_ok: "chn \<in> set (all_dds (get_active_dds c)) \<Longrightarrow> dds_chn_ok chn"
  by (rule all_dds_ok) (auto simp: get_active_dds_def NDDS_def)

text \<open>What the closures collect; the object is destroyed once all of them were called.\<close>

lemma get_override_dds_collects:
  fixes sv :: "('q, 'p) server"
  assumes "ovr_cache_ok (sv_ctrl sv)" and "m_log (sv_ctrl sv) = []"
  shows "\<exists>c'. get_override_dds V kind sv = destroy_info V \<lparr>di_kind = kind, di_res =
         concat (map (ovr_item (m_cmd_cache (sv_ctrl sv))) (all_dds (get_active_dds (sv_ctrl sv)))), di_refs = 1\<rparr>
       (sv\<lparr>sv_info_next := Suc (sv_info_next sv), sv_ctrl := c', sv_infos := (sv_infos sv)(sv_info_next sv := None)\<rparr>)
     \<and> cached_ovr (m_cmd_cache c') = cached_ovr (m_cmd_cache (sv_ctrl sv))"
proof -
  let ?i = "sv_info_next sv" and ?chns = "all_dds (get_active_dds (sv_ctrl sv))"
  let ?info = "\<lparr>di_kind = kind, di_res = [], di_refs = 1\<rparr>"
  let ?sv1 = "sv\<lparr>sv_infos := (sv_infos sv)(?i \<mapsto> ?info), sv_info_next := Suc ?i\<rparr>"
  have "sv_infos ?sv1 ?i = Some ?info" "1 \<le> di_refs ?info" "\<forall>chn \<in> set ?chns. dds_chn_ok chn"
    "ovr_cache_ok (sv_ctrl ?sv1)" "m_log (sv_ctrl ?sv1) = []"
    using assms by (simp_all add: active_dds_ok)
  from ask_ovr_all [OF this, of V] obtain c' where
    "foldR (ask_dds V ?i True) ?chns ?sv1 = Inr (?sv1\<lparr>sv_ctrl := c', sv_infos := (sv_infos ?sv1)(?i \<mapsto>
       ?info\<lparr>di_res := di_res ?info @ concat (map (ovr_item (m_cmd_cache (sv_ctrl ?sv1))) ?chns)\<rparr>)\<rparr>)"
    "cached_ovr (m_cmd_cache c') = cached_ovr (m_cmd_cache (sv_ctrl sv))"
    by auto
  then show ?thesis
    by (intro exI [of _ c']) (simp add: get_override_dds_def ask_all_def drop_info_def Let_def)
qed

lemma dds_entries_ovr:
  "dds_entries (concat (map (ovr_item cache) chns)) =
   concat (map (\<lambda>chn. let v = cached_ovr cache (chn_op chn) (chn_num chn) in if v = -1 then [] else [(chn, v)]) chns)"
  by (induction chns) (simp_all add: ovr_item_def Let_def)

section \<open>The startup files\<close>

lemma takeWhile_text: "0 \<notin> set str \<Longrightarrow> takeWhile (\<lambda>b. b \<noteq> 0) (str @ 0 # rest) = str"
  by (induction str) auto

abbreviation startup_names :: "('q, 'p) server \<Rightarrow> string set" where
  "startup_names sv \<equiv> runtime_file sv ` {''/startup.cmdlist'', ''/startup.cmdbin'', ''/startup.cmdlist.tmp'', ''/startup.cmdbin.tmp''}"

lemma set_startup_files:
  assumes "0 \<notin> set str" and "v_parse V str = Inr (masks, code)"
    and "f_writable (sv_files sv) (runtime_file sv ''/startup.cmdlist.tmp'')"
    and "f_writable (sv_files sv) (runtime_file sv ''/startup.cmdbin.tmp'')"
  shows "\<exists>fs. process_set_startup V addr (str @ 0 # rest) sv =
       sv\<lparr>sv_files := fs, sv_replies := sv_replies sv @ [(addr, [0])]\<rparr> \<and>
     f_data fs (runtime_file sv ''/startup.cmdlist'') = Some str \<and>
     f_data fs (runtime_file sv ''/startup.cmdbin'') = Some (startup_file (v_total_time V code * 10) masks code) \<and>
     (\<forall>f. f \<notin> startup_names sv \<longrightarrow> f_data fs f = f_data (sv_files sv) f)"
  using assms
  apply (simp add: process_set_startup_def takeWhile_text Let_def try_write_def write_file_def
      rename_file_def runtime_file_def send_reply_def)
  apply (rule exI, rule conjI, rule refl)
  apply simp
  done

section \<open>Banks out of range\<close>

lemma bank_assert_fails:
  assumes "8 \<le> bank" and "bank < 2 ^ 30"
  shows "get_ttl (concurrent_get P) bank c = Inl AssertFail"
proof -
  have "uint (drop_bit 2 (push_bit 2 (word_of_int bank :: u32))) = bank"
    using assms by (simp add: unsigned_drop_bit_eq unsigned_push_bit_eq take_bit_push_bit uint_word_of_int_eq take_bit_take_bit drop_bit_push_bit take_bit_int_eq_self_iff)
  then show ?thesis
    using assms by (simp add: get_ttl_def send_ttl_get_cmd_def concurrent_get_def ttl_operand_def NUM_TTL_BANKS_def Let_def)
qed

lemma set_ttl_quiet:
  "\<exists>c'. set_ttl Q (concurrent_set P) bank msk val c = Inr c' \<and> m_log c' = m_log c"
  by (auto simp: set_ttl_def send_ttl_set_cmd_def concurrent_set_def send_cmd_def set_dirty_def Let_def)

lemma ctrl_do_quiet:
  assumes "f (sv_ctrl sv) = Inr c" and "m_log c = []"
  shows "ctrl_do V f sv = Inr (sv\<lparr>sv_ctrl := c\<rparr>)"
  using assms by (simp add: ctrl_do_def ctrl_get_def)

section \<open>Scheduling a sequence\<close>

lemma take_seq_id: "take 16 (seq_id_msg srv i @ rest) = seq_id_msg srv i"
  by (simp add: seq_id_msg_def)

lemma get_seq_id_msg: "get_seq_id srv (seq_id_msg srv i @ [b]) (Suc 0) = i"
  by (simp add: get_seq_id_def seq_id_msg_def)

lemma seq_id_msg_16 [simp]: "length (seq_id_msg srv i) = 16"
  by (simp add: seq_id_msg_def)

lemma wait_seq_accepts:
  assumes "sv_seq_status sv = sts @ [\<lparr>ss_id = i, ss_wait = [], ss_flushed = False\<rparr>]" and "i \<noteq> 0"
    and "take 16 msg = seq_id_msg (sv_id sv) i" and "what \<in> {1, 2}"
  shows "\<exists>sv'. req_wait_seq addr (Some (take 16 msg @ [what])) sv = Inr (True, sv')"
proof -
  have "find_seqstatus i (sts @ [\<lparr>ss_id = i, ss_wait = [], ss_flushed = False\<rparr>]) \<noteq> None"
    by (auto simp: find_seqstatus_def find_None_iff)
  then obtain st where "find_seqstatus i (sts @ [\<lparr>ss_id = i, ss_wait = [], ss_flushed = False\<rparr>]) = Some st"
    by blast
  then show ?thesis
    using assms by (auto simp: req_wait_seq_def get_seq_id_msg nth_append Let_def accept_def split: list.split)
qed

lemma ttl_ovr_loop_log: "ttl_ovr_loop P bs c = Inr (x, c') \<Longrightarrow> m_log c' = m_log c"
proof (induction bs arbitrary: c)
  case (Cons b bs)
  from Cons.prems obtain lo c1 where c1: "p_get (p_ttl_lomask P b) c = Inr (lo, c1)"
    "(if lo \<noteq> 0 then Inr (True, c1) else bindR (p_get (p_ttl_himask P b) c1)
       (\<lambda>(hi, c2). if hi \<noteq> 0 then Inr (True, c2) else ttl_ovr_loop P bs c2)) = Inr (x, c')"
    by auto
  have l1: "m_log c1 = m_log c"
    using c1(1) by (auto simp: p_get_def)
  show ?case
  proof (cases "lo = 0")
    case False
    then show ?thesis
      using c1(2) l1 by simp
  next
    case True
    then obtain hi c2 where "p_get (p_ttl_himask P b) c1 = Inr (hi, c2)"
      "(if hi \<noteq> 0 then Inr (True, c2) else ttl_ovr_loop P bs c2) = Inr (x, c')"
      using c1(2) by auto
    then show ?thesis
      using Cons.IH [of c2] l1 by (auto simp: p_get_def split: if_splits)
  qed
qed simp

lemma schedule_runs:
  assumes "m_log (sv_ctrl sv) = []" and "sv_notifies sv n = Some (SeqNotify j)"
  shows "\<exists>c. ctrl_get V (\<lambda>c. Inr (seq_run_code (v_Q V) is_cmd ver len masks code n c)) sv =
       Inr (m_seq_cnt (sv_ctrl sv) + 1, sv\<lparr>sv_ctrl := c,
         sv_notifies := (sv_notifies sv)(n \<mapsto> SeqNotify (m_seq_cnt (sv_ctrl sv) + 1))\<rparr>) \<and>
     m_log c = [] \<and> m_cmd_cache c = m_cmd_cache (sv_ctrl sv) \<and> m_times c = m_times (sv_ctrl sv)"
  using assms
  by (auto simp: ctrl_get_def seq_run_code_def set_dirty_def log_calls_def notify_set_id_def Let_def)

section \<open>Properties\<close>

text \<open>
  C31: a request that is refused changes nothing: whatever the message, when it is not valid the only
  effect is the reply 1, and no channel, name, file or sequence is touched.
\<close>

theorem refused_request_changes_nothing:
  assumes "dispatch V addr parts sv = Inr (False, sv')"
  shows "process_zmq V addr parts sv = Inr (sv\<lparr>sv_replies := sv_replies sv @ [(addr, [1])]\<rparr>)"
  using dispatch_reject [OF assms] assms by (simp add: process_zmq_def send_reply_def)

theorem refused_request_changes_nothing_witness:
  "process_zmq small_env [[1]] [ascii ''wait_seq'', [0, 1]] small_server =
     Inr (small_server\<lparr>sv_replies := [([[1]], [1])]\<rparr>)"
proof -
  have "dispatch small_env [[1]] [ascii ''wait_seq'', [0, 1]] small_server = Inr (False, small_server)"
    by (simp add: dispatch_def msg_part_def Let_def req_wait_seq_def)
  from refused_request_changes_nothing [OF this] show ?thesis
    by simp
qed










text \<open>
  C34: a client can wait for the sequence it has just scheduled. The reply to \<^verbatim>\<open>run_seq\<close> and to
  \<^verbatim>\<open>run_cmdlist\<close> begins with an id that the same server accepts in a \<^verbatim>\<open>wait_seq\<close> request.
\<close>

theorem scheduled_sequence_can_be_waited_for:
  assumes "process_run_seq V is_cmd addr part1 part2 sv = Inr (True, sv')"
    and "ovr_cache_ok (sv_ctrl sv)" and "m_log (sv_ctrl sv) = []" and "m_seq_cnt (sv_ctrl sv) \<noteq> -1"
  shows "\<exists>msg. sv_replies sv' = sv_replies sv @ [(addr, msg)] \<and>
     (\<forall>what \<in> {1, 2}. \<exists>sv''. req_wait_seq addr' (Some (take 16 msg @ [what])) sv' = Inr (True, sv''))"
proof -
  obtain ver h where h: "parse_run_seq part1 part2 = Some (ver, h)"
    using assms(1) by (auto simp: process_run_seq_def split: option.splits)
  let ?n = "sv_notify_next sv" and ?i = "m_seq_cnt (sv_ctrl sv) + 1"
  let ?sv1 = "sv\<lparr>sv_notifies := (sv_notifies sv)(?n \<mapsto> SeqNotify (-1)), sv_notify_next := Suc ?n\<rparr>"
  obtain c where c: "ctrl_get V (\<lambda>c. Inr (seq_run_code (v_Q V) is_cmd ver (sh_len_ns h) (sh_masks h) (sh_code h) ?n c)) ?sv1 =
       Inr (?i, ?sv1\<lparr>sv_ctrl := c, sv_notifies := (sv_notifies ?sv1)(?n \<mapsto> SeqNotify ?i)\<rparr>)"
     "m_log c = []" "m_cmd_cache c = m_cmd_cache (sv_ctrl sv)" "m_times c = m_times (sv_ctrl sv)"
    using schedule_runs [of ?sv1 ?n "-1" V is_cmd ver "sh_len_ns h" "sh_masks h" "sh_code h"] assms(3) by auto
  let ?sv3 = "?sv1\<lparr>sv_ctrl := c, sv_notifies := (sv_notifies ?sv1)(?n \<mapsto> SeqNotify ?i),
      sv_seq_status := sv_seq_status sv @ [\<lparr>ss_id = ?i, ss_wait = [], ss_flushed = False\<rparr>]\<rparr>"
  have "\<exists>msg. sv_replies sv' = sv_replies sv @ [(addr, seq_id_msg (sv_id sv) ?i @ msg)] \<and>
      sv_seq_status sv' = sv_seq_status sv @ [\<lparr>ss_id = ?i, ss_wait = [], ss_flushed = False\<rparr>] \<and> sv_id sv' = sv_id sv"
  proof (cases is_cmd)
    case True
    then show ?thesis
      using assms(1) c h
      by (auto simp: process_run_seq_def ctrl_get_def has_ttl_ovr_def send_reply_def Let_def dest!: ttl_ovr_loop_log)
  next
    case False
    have "ovr_cache_ok (sv_ctrl ?sv3)" "m_log (sv_ctrl ?sv3) = []"
      using assms(2) c ovr_cache_ok_cong [OF c(4,3)] by simp_all
    from get_override_dds_collects [OF this, of V "ReplyRunSeq addr (seq_id_msg (sv_id sv) ?i) (unat (sh_banks h))"]
    show ?thesis
      using assms(1) c h False
      by (auto simp: process_run_seq_def destroy_info_def send_reply_def Let_def dest!: sym [where s = "Inr sv'"])
  qed
  then obtain msg where msg: "sv_replies sv' = sv_replies sv @ [(addr, seq_id_msg (sv_id sv) ?i @ msg)]"
    "sv_seq_status sv' = sv_seq_status sv @ [\<lparr>ss_id = ?i, ss_wait = [], ss_flushed = False\<rparr>]" "sv_id sv' = sv_id sv"
    by blast
  moreover have "?i \<noteq> 0"
    using assms(4) by (simp add: eq_neg_iff_add_eq_0)
  ultimately show ?thesis
    using wait_seq_accepts [OF msg(2)] take_seq_id [of "sv_id sv" ?i msg] by metis
qed

theorem scheduled_sequence_can_be_waited_for_witness:
  "\<exists>sv' msg. process_run_seq small_env False [[1]] (Some [3, 0, 0, 0])
       (Some ([10, 0, 0, 0, 0, 0, 0, 0] @ [1, 0, 0, 0] @ [0xff, 0, 0, 0] @ [7, 7])) small_server = Inr (True, sv') \<and>
     sv_replies sv' = [([[1]], msg)] \<and>
     (\<exists>sv''. req_wait_seq [[2]] (Some (take 16 msg @ [2])) sv' = Inr (True, sv''))"
proof -
  have "ovr_cache_ok small_ctrl"
    by (simp add: ovr_cache_ok_def) (simp add: small_ctrl_def)
  moreover have "case process_run_seq small_env False [[1]] (Some [3, 0, 0, 0])
       (Some ([10, 0, 0, 0, 0, 0, 0, 0] @ [1, 0, 0, 0] @ [0xff, 0, 0, 0] @ [7, 7])) small_server of
       Inl _ \<Rightarrow> False | Inr (ok, _) \<Rightarrow> ok"
    by code_simp
  then obtain sv' where "process_run_seq small_env False [[1]] (Some [3, 0, 0, 0])
       (Some ([10, 0, 0, 0, 0, 0, 0, 0] @ [1, 0, 0, 0] @ [0xff, 0, 0, 0] @ [7, 7])) small_server = Inr (True, sv')"
    by (auto split: sum.splits prod.splits)
  ultimately show ?thesis
    using scheduled_sequence_can_be_waited_for [of small_env False "[[1]]" _ _ small_server _ "[[2]]"] by fastforce
qed

end
