(* ===== verification/Frontend_Safety.thy ===== *)
theory Frontend_Safety
  imports Frontend Controller_Safety Seq_Message
begin

text \<open>
  The frontend's side of the contract between the two threads: every operation of \<^verbatim>\<open>CtrlIFace\<close> returns,
  queues only requests that the worker can handle, and hands every callback over exactly once, to
  the cache or to its caller.
\<close>

section \<open>What the frontend needs of a pulser\<close>

locale frontend_port =
  fixes P :: "'p pulser_ops" and inv :: "'p \<Rightarrow> bool"
  assumes get_lo: "inv p \<Longrightarrow> bank_ok b \<Longrightarrow> \<exists>v p'. p_ttl_lomask P b p = Inr (v, p') \<and> inv p'"
    and get_hi: "inv p \<Longrightarrow> bank_ok b \<Longrightarrow> \<exists>v p'. p_ttl_himask P b p = Inr (v, p') \<and> inv p'"
    and set_lo: "inv p \<Longrightarrow> bank_ok b \<Longrightarrow> \<exists>p'. p_set_ttl_lomask P v b p = Inr p' \<and> inv p'"
    and set_hi: "inv p \<Longrightarrow> bank_ok b \<Longrightarrow> \<exists>p'. p_set_ttl_himask P v b p = Inr p' \<and> inv p'"
    and get_ttl_out: "inv p \<Longrightarrow> bank_ok b \<Longrightarrow> \<exists>v p'. p_cur_ttl P b p = Inr (v, p') \<and> inv p'"
    and get_clock_out: "inv p \<Longrightarrow> \<exists>v p'. p_cur_clock P p = Inr (v, p') \<and> inv p'"

sublocale pulser_iface \<subseteq> front: frontend_port P inv
  by unfold_locales (use lomask himask set_lomask set_himask cur_ttl cur_clock in blast)+

section \<open>Callbacks\<close>

text \<open>Everyone who waits for an answer, over all keys.\<close>

definition pending :: "'cb cmd_cache \<Rightarrow> 'cb multiset" where
  "pending c = (\<Sum>k \<in> UNIV. mset (waiting c k))"

lemma pending_upd:
  "pending (c(k \<mapsto> e)) + mset (waiting c k) = pending c + mset (ce_cbs e)"
proof -
  let ?S = "\<lambda>c :: 'a cmd_cache. \<Sum>j \<in> UNIV - {k}. mset (waiting c j)"
  have s: "pending c = mset (waiting c k) + ?S c" for c :: "'a cmd_cache"
    unfolding pending_def by (rule sum.remove) simp_all
  have "?S (c(k \<mapsto> e)) = ?S c"
    by (rule sum.cong) simp_all
  then show ?thesis
    by (simp add: s [of c] s [of "c(k \<mapsto> e)"])
qed

lemma pending_extend:
  assumes "ce_cbs e = waiting c k @ xs"
  shows "pending (c(k \<mapsto> e)) = pending c + mset xs"
proof -
  have "pending (c(k \<mapsto> e)) + mset (waiting c k) = (pending c + mset xs) + mset (waiting c k)"
    using pending_upd [of c k e] by (simp add: assms ac_simps)
  then show ?thesis
    by simp
qed

lemma pending_update_entry:
  assumes "update_entry t v k c = (c', calls)"
  shows "pending c' + mset (map fst calls) = pending c"
proof -
  have "map fst calls = waiting c k" "c' = c(k \<mapsto> \<lparr>ce_t = t, ce_val = v, ce_cbs = []\<rparr>)"
    using assms by (auto simp: update_entry_def waiting_entry comp_def)
  then show ?thesis
    using pending_upd [of c k "\<lparr>ce_t = t, ce_val = v, ce_cbs = []\<rparr>"] by simp
qed

lemma sum_swap:
  assumes "a1 + x = a + n1" and "a2 + y = a1 + n2"
  shows "a2 + (x + y) = a + (n1 + n2 :: 'a multiset)"
proof -
  have "a2 + (x + y) = a2 + y + x"
    by (simp add: ac_simps)
  also have "\<dots> = a1 + x + n2"
    by (simp add: assms(2) ac_simps)
  finally show ?thesis
    by (simp add: assms(1) ac_simps)
qed

lemma pending_cache_set:
  assumes "cache_set t op a ovr v c = Inr (c', calls)"
  shows "pending c' + mset (map fst calls) = pending c"
proof -
  obtain k c1 calls1 where c1: "update_entry t v k c = (c1, calls1)" "cache_key op a ovr = Inr k"
    using assms by (cases "cache_key op a ovr") (auto simp: cache_set_def update_entry_def)
  note p1 = pending_update_entry [OF c1(1)]
  show ?thesis
  proof (cases "c' = c1 \<and> calls = calls1")
    case True
    then show ?thesis
      using p1 by simp
  next
    case False
    then obtain k2 c2 calls2 where c2: "update_entry t v k2 c1 = (c2, calls2)" "c' = c2" "calls = calls1 @ calls2"
      using assms c1 by (auto simp: cache_set_def Let_def split: if_splits option.splits prod.splits)
    then show ?thesis
      using sum_swap [of "pending c1" _ "pending c" "{#}" "pending c2" _ "{#}"] p1 pending_update_entry [OF c2(1)] by simp
  qed
qed

lemma pending_cache_get:
  assumes "cache_get t op a ovr cb c = Inr (hit, c', calls)"
  shows "pending c' + mset (map fst calls) = add_mset cb (pending c)"
proof -
  obtain k where k: "cache_key op a ovr = Inr k"
    using assms by (cases "cache_key op a ovr") (auto simp: cache_get_def)
  define e where "e = cache_entry c k"
  consider "c' = c(k \<mapsto> e)" "calls = [(cb, ce_val e)]"
    | v where "c' = c(k \<mapsto> e\<lparr>ce_val := v\<rparr>)" "calls = [(cb, v)]"
    | "c' = c(k \<mapsto> e\<lparr>ce_cbs := ce_cbs e @ [cb]\<rparr>)" "calls = []"
    using assms k by (auto simp: cache_get_def Let_def e_def split: if_splits)
  then show ?thesis
    by cases (simp_all add: e_def pending_extend [where xs = "[]"] pending_extend [where xs = "[cb]"] waiting_entry)
qed

section \<open>What an operation may do\<close>

text \<open>The queues of both sides; \<open>cur\<close> is the running sequence.\<close>

definition both_ok ::
  "('p \<Rightarrow> bool) \<Rightarrow> ('q \<Rightarrow> addr list) \<Rightarrow> ('q \<Rightarrow> addr list) \<Rightarrow> addr option \<Rightarrow> ('q, 'cb, 'nt, 'p) controller \<Rightarrow> bool" where
  "both_ok I fin pend cur c \<longleftrightarrow> ctrl_ok I pend cur c \<and>
     distinct (fin (m_cmd_queue c) @ pend (m_cmd_queue c)) \<and>
     (\<forall>a \<in> set (fin (m_cmd_queue c) @ pend (m_cmd_queue c)).
        a < m_cmd_next c \<and> (\<exists>cmd. m_cmd_store c a = Some cmd \<and> answer_ok cmd))"

definition same_seqs_part :: "('q, 'cb, 'nt, 'p) controller \<Rightarrow> ('q, 'cb, 'nt, 'p) controller \<Rightarrow> bool" where
  "same_seqs_part c c' \<longleftrightarrow> m_seq_queue c' = m_seq_queue c \<and> m_seq_store c' = m_seq_store c \<and>
     m_seq_next c' = m_seq_next c \<and> m_seq_cnt c' = m_seq_cnt c \<and> m_dds_exist c' = m_dds_exist c"

text \<open>An operation that is given the callbacks \<open>new\<close> and calls some of those that it has.\<close>

definition op_post ::
  "('p \<Rightarrow> bool) \<Rightarrow> ('q \<Rightarrow> addr list) \<Rightarrow> ('q \<Rightarrow> addr list) \<Rightarrow> 'cb multiset
    \<Rightarrow> ('q, 'cb, 'nt, 'p) controller \<Rightarrow> ('q, 'cb, 'nt, 'p) controller \<Rightarrow> bool" where
  "op_post I fin pend new c c' \<longleftrightarrow> same_seqs_part c c' \<and>
     (\<forall>cur. both_ok I fin pend cur c \<longrightarrow> both_ok I fin pend cur c') \<and>
     (\<exists>calls. m_log c' = m_log c @ map (\<lambda>(cb, v). Callback cb v) calls \<and>
        pending (m_cmd_cache c') + mset (map fst calls) = pending (m_cmd_cache c) + new)"

lemma op_post_trans:
  assumes "op_post I fin pend n1 c c1" and "op_post I fin pend n2 c1 c2"
  shows "op_post I fin pend (n1 + n2) c c2"
proof -
  obtain x where x: "m_log c1 = m_log c @ map (\<lambda>(cb, v). Callback cb v) x"
    "pending (m_cmd_cache c1) + mset (map fst x) = pending (m_cmd_cache c) + n1"
    using assms(1) by (auto simp: op_post_def)
  obtain y where y: "m_log c2 = m_log c1 @ map (\<lambda>(cb, v). Callback cb v) y"
    "pending (m_cmd_cache c2) + mset (map fst y) = pending (m_cmd_cache c1) + n2"
    using assms(2) by (auto simp: op_post_def)
  have "pending (m_cmd_cache c2) + mset (map fst (x @ y)) = pending (m_cmd_cache c) + (n1 + n2)"
    using sum_swap [OF x(2) y(2)] by simp
  then show ?thesis
    using assms x(1) y(1) unfolding op_post_def same_seqs_part_def
    by (intro conjI allI impI exI [of _ "x @ y"]) auto
qed

lemma op_post_refl [simp]: "op_post I fin pend {#} c c"
  by (auto simp: op_post_def same_seqs_part_def intro: exI [of _ "[]"])

section \<open>The operations\<close>

lemma both_ok_upd [simp]:
  "both_ok I fin pend cur (c\<lparr>m_dirty := b\<rparr>) = both_ok I fin pend cur c"
  "both_ok I fin pend cur (c\<lparr>m_observed := b\<rparr>) = both_ok I fin pend cur c"
  "both_ok I fin pend cur (c\<lparr>m_times := ts\<rparr>) = both_ok I fin pend cur c"
  "both_ok I fin pend cur (c\<lparr>m_cmd_cache := cache\<rparr>) = both_ok I fin pend cur c"
  "both_ok I fin pend cur (c\<lparr>m_log := l\<rparr>) = both_ok I fin pend cur c"
  "both_ok I fin pend cur (c\<lparr>m_bkend_evt := n\<rparr>) = both_ok I fin pend cur c"
  "both_ok I fin pend cur (c\<lparr>m_had_seq := b\<rparr>) = both_ok I fin pend cur c"
  "both_ok I fin pend cur (c\<lparr>m_state_cnt := u\<rparr>) = both_ok I fin pend cur c"
  by (simp_all add: both_ok_def ctrl_ok_def ctrl_shape_def queues_ok_def)

lemma both_ok_p: "both_ok I fin pend cur c \<Longrightarrow> I p \<Longrightarrow> both_ok I fin pend cur (c\<lparr>m_p := p\<rparr>)"
  by (simp add: both_ok_def ctrl_ok_def ctrl_shape_def queues_ok_def)

lemma both_ok_inv: "both_ok I fin pend cur c \<Longrightarrow> I (m_p c)"
  by (simp add: both_ok_def ctrl_ok_def)

lemma op_post_same:
  assumes "same_seqs_part c c'" and "m_log c' = m_log c" and "m_cmd_cache c' = m_cmd_cache c"
    and "\<And>cur. both_ok I fin pend cur c \<Longrightarrow> both_ok I fin pend cur c'"
  shows "op_post I fin pend {#} c c'"
  using assms by (auto simp: op_post_def intro!: exI [of _ "[]"])

lemma op_post_ok: "op_post I fin pend new c c' \<Longrightarrow> both_ok I fin pend cur c \<Longrightarrow> both_ok I fin pend cur c'"
  by (simp add: op_post_def)

lemma op_post_zero: "op_post I fin pend {#} c c1 \<Longrightarrow> op_post I fin pend n c1 c2 \<Longrightarrow> op_post I fin pend n c c2"
  using op_post_trans [of I fin pend "{#}" c c1 n c2] by simp

lemma op_post_then:
  assumes "op_post I fin pend {#} c c1" and "totR m (op_post I fin pend n c1)"
  shows "totR m (op_post I fin pend n c)"
  by (rule totR_weaken [OF assms(2)]) (rule op_post_zero [OF assms(1)])

lemma set_dirty_post: "op_post I fin pend {#} c (set_dirty c)"
  by (rule op_post_same) (auto simp: set_dirty_def same_seqs_part_def)

lemma set_observed_post: "op_post I fin pend {#} c (set_observed c)"
  by (rule op_post_same) (auto simp: set_observed_def same_seqs_part_def)

lemma head_opt_snoc: "head_opt xs = Some a \<Longrightarrow> head_opt (xs @ [b]) = Some a"
  by (cases xs) auto

lemma send_cmd_post:
  assumes laws: "fqueue_laws Q fin pend" and cmd: "valid_req cmd" "answer_ok cmd"
  shows "op_post I fin pend {#} c (send_cmd Q cmd c)"
proof (rule op_post_same)
  fix cur
  assume ok: "both_ok I fin pend cur c"
  then have new: "m_cmd_next c \<notin> set (fin (m_cmd_queue c) @ pend (m_cmd_queue c))"
    unfolding both_ok_def by fastforce
  have "queues_ok pend cur (send_cmd Q cmd c)"
    using ok new cmd(1) unfolding both_ok_def ctrl_ok_def queues_ok_def
    by (auto simp: send_cmd_def fqueue_lawsD [OF laws] head_opt_snoc)
  moreover have "\<forall>a \<in> set (fin (m_cmd_queue (send_cmd Q cmd c)) @ pend (m_cmd_queue (send_cmd Q cmd c))).
      a < m_cmd_next (send_cmd Q cmd c) \<and> (\<exists>cmd'. m_cmd_store (send_cmd Q cmd c) a = Some cmd' \<and> answer_ok cmd')"
    using ok new cmd(2) unfolding both_ok_def
    by (auto simp: send_cmd_def fqueue_lawsD [OF laws] less_SucI)
  moreover have "distinct (fin (m_cmd_queue (send_cmd Q cmd c)) @ pend (m_cmd_queue (send_cmd Q cmd c)))"
    using ok new by (simp add: both_ok_def send_cmd_def fqueue_lawsD [OF laws])
  ultimately show "both_ok I fin pend cur (send_cmd Q cmd c)"
    using ok by (simp add: both_ok_def ctrl_ok_def ctrl_shape_def send_cmd_def)
qed (simp_all add: send_cmd_def same_seqs_part_def)

lemma cmd_cache_set_post:
  assumes "cache_key op a ovr = Inr k"
  shows "totR (cmd_cache_set op a ovr v c) (op_post I fin pend {#} c)"
proof -
  obtain cache calls where s: "cache_set (m_times c 0) op a ovr v (m_cmd_cache c) = Inr (cache, calls)"
    using cache_set_total [of op ovr "m_times c 0" a v "m_cmd_cache c"] assms by (auto simp: cache_key_eq)
  show ?thesis
    using pending_cache_set [OF s] s
    by (auto simp: cmd_cache_set_def getTime_def log_calls_def op_post_def same_seqs_part_def Let_def)
qed

lemma cache_get_post:
  assumes "cache_key op a ovr = Inr k"
  shows "\<exists>hit cache calls. cache_get t op a ovr cb (m_cmd_cache c) = Inr (hit, cache, calls) \<and>
     op_post I fin pend {#cb#} c (log_calls (map (\<lambda>(c, v). Callback c v) calls) (c\<lparr>m_times := ts, m_cmd_cache := cache\<rparr>))"
proof -
  obtain hit cache calls where g: "cache_get t op a ovr cb (m_cmd_cache c) = Inr (hit, cache, calls)"
    by (cases "cache_get t op a ovr cb (m_cmd_cache c)")
      (auto simp: assms cache_get_def Let_def split: if_splits)
  show ?thesis
    using pending_cache_get [OF g] g
    by (auto simp: log_calls_def op_post_def same_seqs_part_def)
qed

text \<open>The DDS channels and the clock.\<close>

lemma chn_word:
  assumes "0 \<le> chn" and "chn < 22"
  shows "(word_of_int chn :: u32) < 2 ^ 26" and "unat (word_of_int chn AND operand_mask :: u32) < NDDS"
proof -
  have "unat (word_of_int chn :: u32) = nat chn"
  proof -
    have "(word_of_int chn :: u32) = of_nat (nat chn)"
      using assms(1) by simp
    then show ?thesis
      using assms by (simp add: unat_of_nat)
  qed
  then show "(word_of_int chn :: u32) < 2 ^ 26"
    using assms by (simp add: word_less_nat_alt)
  then show "unat (word_of_int chn AND operand_mask :: u32) < NDDS"
    using \<open>unat (word_of_int chn) = nat chn\<close> assms by (simp add: operand_mask_small NDDS_def)
qed

lemma dds_key: "is_dds_op op \<Longrightarrow> \<exists>k. cache_key op a ovr = Inr k"
  by simp

lemma dds_not_ttl: "is_dds_op op \<Longrightarrow> op \<noteq> TTL" "is_dds_op op \<Longrightarrow> op \<noteq> Clock"
  by (auto simp: is_dds_op_def)

lemma valid_dds_req:
  assumes "is_dds_op op" and "0 \<le> chn" and "chn < 22" and "ovr \<longrightarrow> \<not> res"
  shows "valid_req \<lparr>rc_opcode = op, rc_has_res = res, rc_is_override = ovr,
       rc_operand = word_of_int chn AND operand_mask, rc_val = v\<rparr>"
    and "answer_ok \<lparr>rc_opcode = op, rc_has_res = res, rc_is_override = ovr,
       rc_operand = word_of_int chn AND operand_mask, rc_val = v\<rparr>"
  using assms chn_word(2) [OF assms(2,3)] dds_key [OF assms(1)]
  by (auto simp: valid_req_def is_dds_op_def answer_ok_def)

lemma set_dds_post:
  assumes laws: "fqueue_laws Q fin pend" and op: "is_dds_op op" and chn: "0 \<le> chn" "chn < 22"
  shows "totR (set_dds Q (concurrent_set P) op chn v c) (op_post I fin pend {#} c)"
    and "totR (set_dds_ovr Q (concurrent_set P) op chn v c) (op_post I fin pend {#} c)"
proof -
  have *: "totR (send_set_cmd Q (concurrent_set P) op (word_of_int chn) ovr v c) (op_post I fin pend {#} c)" for ovr
  proof -
    let ?cmd = "\<lparr>rc_opcode = op, rc_has_res = False, rc_is_override = ovr,
       rc_operand = word_of_int chn AND operand_mask, rc_val = v\<rparr>"
    obtain k where k: "cache_key op (word_of_int chn) ovr = Inr k"
      using dds_key [OF op] by blast
    have "op_post I fin pend {#} c (send_cmd Q ?cmd (set_dirty c))"
      by (rule op_post_zero [OF set_dirty_post send_cmd_post [OF laws]]) (use valid_dds_req [OF op chn] in simp_all)
    note this [THEN op_post_then, OF cmd_cache_set_post [OF k]]
    then show ?thesis
      using dds_not_ttl [OF op] by (simp add: send_set_cmd_def concurrent_set_def)
  qed
  show "totR (set_dds Q (concurrent_set P) op chn v c) (op_post I fin pend {#} c)"
    "totR (set_dds_ovr Q (concurrent_set P) op chn v c) (op_post I fin pend {#} c)"
    using * op by (simp_all add: set_dds_def set_dds_ovr_def)
qed

lemma get_dds_post:
  assumes laws: "fqueue_laws Q fin pend" and op: "is_dds_op op" and chn: "0 \<le> chn" "chn < 22"
  shows "totR (get_dds Q (concurrent_get P) op chn cb c) (op_post I fin pend {#cb#} c)"
    and "totR (get_dds_ovr Q (concurrent_get P) op chn cb c) (op_post I fin pend {#cb#} c)"
proof -
  have *: "totR (send_get_cmd Q (concurrent_get P) op (word_of_int chn) ovr cb c) (op_post I fin pend {#cb#} c)" for ovr
  proof -
    let ?c1 = "set_observed c" and ?cmd = "\<lparr>rc_opcode = op, rc_has_res = True, rc_is_override = ovr,
       rc_operand = word_of_int chn AND operand_mask, rc_val = 0\<rparr>"
    let ?ts = "\<lambda>i. m_times ?c1 (Suc i)"
    obtain k where k: "cache_key op (word_of_int chn) ovr = Inr k"
      using dds_key [OF op] by blast
    obtain hit cache calls where g: "cache_get (m_times ?c1 0) op (word_of_int chn) ovr cb (m_cmd_cache ?c1) = Inr (hit, cache, calls)"
      and post: "op_post I fin pend {#cb#} ?c1
        (log_calls (map (\<lambda>(c, v). Callback c v) calls) (?c1\<lparr>m_times := ?ts, m_cmd_cache := cache\<rparr>))"
      using cache_get_post [OF k, of "m_times ?c1 0" cb ?c1 I fin pend ?ts] by blast
    have "\<not> hit \<Longrightarrow> \<not> ovr"
      using g k by (auto simp: cache_get_def Let_def split: if_splits)
    then have sent: "\<not> hit \<Longrightarrow> op_post I fin pend {#} c2 (send_cmd Q ?cmd c2)" for c2
      using send_cmd_post [OF laws] valid_dds_req [OF op chn, of ovr True 0] by simp
    have c2: "op_post I fin pend {#cb#} c
        (log_calls (map (\<lambda>(c, v). Callback c v) calls) (?c1\<lparr>m_times := ?ts, m_cmd_cache := cache\<rparr>))"
      by (rule op_post_zero [OF set_observed_post post])
    show ?thesis
      using dds_not_ttl [OF op] g c2 op_post_trans [OF c2 sent]
      by (cases hit) (simp_all add: send_get_cmd_def concurrent_get_def getTime_def Let_def)
  qed
  show "totR (get_dds Q (concurrent_get P) op chn cb c) (op_post I fin pend {#cb#} c)"
    "totR (get_dds_ovr Q (concurrent_get P) op chn cb c) (op_post I fin pend {#cb#} c)"
    using * op by (simp_all add: get_dds_def get_dds_ovr_def)
qed

lemma reset_dds_post:
  assumes laws: "fqueue_laws Q fin pend" and chn: "0 \<le> chn" "chn < 22"
  shows "totR (reset_dds Q chn c) (op_post I fin pend {#} c)"
proof -
  let ?cmd = "\<lparr>rc_opcode = DDSReset, rc_has_res = False, rc_is_override = False,
     rc_operand = word_of_int chn AND operand_mask, rc_val = 0\<rparr>"
  have "valid_req ?cmd" "answer_ok ?cmd"
    using chn_word(2) [OF chn] by (simp_all add: valid_req_def answer_ok_def)
  then have s: "op_post I fin pend {#} c (send_cmd Q ?cmd (set_dirty c))"
    by (intro op_post_zero [OF set_dirty_post send_cmd_post [OF laws]])
  have k: "\<exists>k. cache_key op (word_of_int chn) True = Inr k" if "op \<in> {DDSFreq, DDSAmp, DDSPhase}" for op
    using that dds_key [of op] by (auto simp: is_dds_op_def)
  have set: "totR (cmd_cache_set op (word_of_int chn) True (-1) c') (op_post I fin pend {#} c')"
    if "op \<in> {DDSFreq, DDSAmp, DDSPhase}" for op c'
    using k [OF that] cmd_cache_set_post by blast
  show ?thesis
    unfolding reset_dds_def Let_def
    by (rule op_post_then [OF s], rule totR_bind [OF set], simp, rule op_post_then, assumption,
        rule totR_bind [OF set], simp, rule op_post_then, assumption, rule set, simp)
qed

lemma set_clock_post:
  assumes laws: "fqueue_laws Q fin pend"
  shows "totR (set_clock Q (concurrent_set P) v c) (op_post I fin pend {#} c)"
proof -
  let ?cmd = "\<lparr>rc_opcode = Clock, rc_has_res = False, rc_is_override = False,
     rc_operand = 0 AND operand_mask, rc_val = ucast v\<rparr>"
  have k: "cache_key Clock 0 False = Inr (push_bit 27 (op_num Clock))"
    by (simp add: cache_key_eq)
  have "op_post I fin pend {#} c (send_cmd Q ?cmd (set_dirty c))"
    by (rule op_post_zero [OF set_dirty_post send_cmd_post [OF laws]])
      (simp_all add: valid_req_def answer_ok_def)
  from this [THEN op_post_then, OF cmd_cache_set_post [OF k, of "ucast v"]] show ?thesis
    by (simp add: set_clock_def send_set_cmd_def concurrent_set_def)
qed

text \<open>The operations that talk to the pulser themselves.\<close>

lemma ttl_req_ok:
  assumes "bank_ok b" and "typ = 0 \<or> typ = 1"
  shows "valid_req \<lparr>rc_opcode = TTL, rc_has_res = False, rc_is_override = False,
       rc_operand = ttl_operand typ b AND operand_mask, rc_val = v\<rparr>"
    and "answer_ok \<lparr>rc_opcode = TTL, rc_has_res = False, rc_is_override = False,
       rc_operand = ttl_operand typ b AND operand_mask, rc_val = v\<rparr>"
  using assms(1) by (cases rule: bank_cases;
      use assms(2) in \<open>auto simp: valid_req_def answer_ok_def ttl_operand_def operand_mask_def NUM_TTL_BANKS_def\<close>)+

lemma op_post_p:
  assumes "I p"
  shows "op_post I fin pend {#} c (c\<lparr>m_p := p\<rparr>)"
  by (rule op_post_same) (use assms in \<open>simp_all add: same_seqs_part_def both_ok_p\<close>)

definition port_step ::
  "('p \<Rightarrow> bool) \<Rightarrow> ('q \<Rightarrow> addr list) \<Rightarrow> ('q \<Rightarrow> addr list) \<Rightarrow> ('q, 'cb, 'nt, 'p) controller
    \<Rightarrow> ('q, 'cb, 'nt, 'p) controller \<Rightarrow> bool" where
  "port_step I fin pend c0 c \<longleftrightarrow> op_post I fin pend {#} c0 c \<and> I (m_p c)"

lemma port_step_p: "port_step I fin pend c0 c \<Longrightarrow> I p \<Longrightarrow> port_step I fin pend c0 (c\<lparr>m_p := p\<rparr>)"
  unfolding port_step_def by (elim conjE, intro conjI, erule op_post_zero, erule op_post_p) simp

lemma port_step_start:
  assumes "I (m_p c)"
  shows "port_step I fin pend c (set_observed c)" "port_step I fin pend c (set_dirty c)"
  using assms set_observed_post [of I fin pend c] set_dirty_post [of I fin pend c]
  by (simp_all add: port_step_def) (simp_all add: set_observed_def set_dirty_def)

context frontend_port
begin

lemma port_steps:
  assumes "port_step inv fin pend c0 c" and "bank_ok b"
  shows "totR (p_get (p_ttl_lomask P b) c) (\<lambda>(v, c'). port_step inv fin pend c0 c')"
    and "totR (p_get (p_ttl_himask P b) c) (\<lambda>(v, c'). port_step inv fin pend c0 c')"
    and "totR (p_get (p_cur_ttl P b) c) (\<lambda>(v, c'). port_step inv fin pend c0 c')"
    and "totR (p_do (p_set_ttl_lomask P v b) c) (\<lambda>c'. port_step inv fin pend c0 c')"
    and "totR (p_do (p_set_ttl_himask P v b) c) (\<lambda>c'. port_step inv fin pend c0 c')"
  using assms get_lo [of "m_p c" b] get_hi [of "m_p c" b] get_ttl_out [of "m_p c" b]
    set_lo [of "m_p c" b v] set_hi [of "m_p c" b v] port_step_p [OF assms(1)]
  by (auto simp: p_get_def p_do_def port_step_def)

lemma set_ttl_post:
  assumes laws: "fqueue_laws Q fin pend" and b: "bank_ok b"
  shows "totR (set_ttl Q (concurrent_set P) b msk v c) (op_post inv fin pend {#} c)"
proof -
  let ?cmd = "\<lparr>rc_opcode = TTL, rc_has_res = False, rc_is_override = False,
     rc_operand = ttl_operand (of_bool v) b AND operand_mask, rc_val = msk\<rparr>"
  have "op_post inv fin pend {#} c (send_cmd Q ?cmd (set_dirty c))"
    by (rule op_post_zero [OF set_dirty_post send_cmd_post [OF laws]]) (use ttl_req_ok [OF b] in auto)
  then show ?thesis
    by (simp add: set_ttl_def send_ttl_set_cmd_def concurrent_set_def)
qed

lemma override_post:
  assumes c: "port_step inv fin pend c0 c" and b: "bank_ok b"
    and f: "a AND 3 = typ" "uint (drop_bit 2 a) = b" "typ = 0 \<or> typ = 1 \<or> typ = 2"
  shows "totR (concurrent_set P TTL a True v c) (\<lambda>(h, c'). h \<and> port_step inv fin pend c0 c')"
  unfolding concurrent_set_masks [OF f b]
  by (rule totR_bind [OF port_steps(1) [OF c b]], clarsimp,
      rule totR_bind [OF port_steps(2) [OF _ b]], assumption, clarsimp,
      rule totR_bind [OF port_steps(4) [OF _ b]], assumption,
      rule totR_bind [OF port_steps(5) [OF _ b]], assumption, simp)

lemma set_ttl_ovr_post:
  assumes b: "bank_ok b" and inv: "inv (m_p c)" and v: "v = 0 \<or> v = 1 \<or> v = 2"
  shows "totR (set_ttl_ovr Q (concurrent_set P) b msk v c) (op_post inv fin pend {#} c)"
proof -
  have t: "word_of_int v = (0 :: u32) \<or> word_of_int v = (1 :: u32) \<or> word_of_int v = (2 :: u32)"
    using v by auto
  then have "word_of_int v = (0 :: u32) \<or> word_of_int v = (1 :: u32) \<or> word_of_int v = (2 :: u32) \<or> word_of_int v = (3 :: u32)"
    by (elim disjE) simp_all
  note f = ttl_operand_fields [OF b this]
  have "totR (send_ttl_set_cmd Q (concurrent_set P) (ttl_operand (word_of_int v) b) True msk c) (op_post inv fin pend {#} c)"
    unfolding send_ttl_set_cmd_def
  proof (rule totR_bind)
    show "totR (concurrent_set P TTL (ttl_operand (word_of_int v) b) True msk (set_dirty c))
        (\<lambda>(h, c'). h \<and> port_step inv fin pend c c')"
      by (rule override_post [OF port_step_start(2) [where I = inv, OF inv] b f t])
  qed (auto simp: port_step_def)
  then show ?thesis
    by (simp add: set_ttl_ovr_def)
qed

lemma get_ttl_post:
  assumes b: "bank_ok b" and inv: "inv (m_p c)"
  shows "totR (get_ttl (concurrent_get P) b c) (\<lambda>(v, c'). op_post inv fin pend {#} c c')"
    and "totR (get_ttl_ovrlo (concurrent_get P) b c) (\<lambda>(v, c'). op_post inv fin pend {#} c c')"
    and "totR (get_ttl_ovrhi (concurrent_get P) b c) (\<lambda>(v, c'). op_post inv fin pend {#} c c')"
proof -
  note f = ttl_operand_fields [OF b, of 0] ttl_operand_fields [OF b, of 1]
  have r: "0 \<le> b \<and> b < int NUM_TTL_BANKS"
    using b by (simp add: bank_ok_def)
  note o = port_steps [OF _ b]
  let ?c = "set_observed c" and ?got = "\<lambda>(got, c'). got \<noteq> None \<and> port_step inv fin pend c c'"
  note c = port_step_start(1) [where fin = fin and pend = pend and I = inv, OF inv]
  have lo: "totR (concurrent_get P TTL (ttl_operand 0 b) True ?c) ?got"
    using f r by (simp add: concurrent_get_def) (rule totR_bind [OF o(1) [OF c]], auto)
  have hi: "totR (concurrent_get P TTL (ttl_operand 1 b) True ?c) ?got"
    using f r by (simp add: concurrent_get_def) (rule totR_bind [OF o(2) [OF c]], auto)
  have out: "totR (concurrent_get P TTL (ttl_operand 0 b) False ?c) ?got"
    using f r by (simp add: concurrent_get_def)
      (rule totR_bind [OF o(3) [OF c]], clarsimp, rule totR_bind [OF o(2)], assumption, clarsimp,
       rule totR_bind [OF o(1)], assumption, auto)
  have step: "totR (send_ttl_get_cmd (concurrent_get P) a ovr c) (\<lambda>(v, c'). op_post inv fin pend {#} c c')"
    if "totR (concurrent_get P TTL a ovr ?c) ?got" for a ovr
    unfolding send_ttl_get_cmd_def by (rule totR_bind [OF that]) (auto simp: port_step_def)
  show "totR (get_ttl (concurrent_get P) b c) (\<lambda>(v, c'). op_post inv fin pend {#} c c')"
    "totR (get_ttl_ovrlo (concurrent_get P) b c) (\<lambda>(v, c'). op_post inv fin pend {#} c c')"
    "totR (get_ttl_ovrhi (concurrent_get P) b c) (\<lambda>(v, c'). op_post inv fin pend {#} c c')"
    using step [OF out] step [OF lo] step [OF hi]
    by (simp_all add: get_ttl_def get_ttl_ovrlo_def get_ttl_ovrhi_def)
qed

lemma get_clock_post:
  assumes inv: "inv (m_p c)"
  shows "totR (get_clock Q (concurrent_get P) cb c) (op_post inv fin pend {#cb#} c)"
proof -
  let ?c = "set_observed c"
  obtain v p' where p': "p_cur_clock P (m_p ?c) = Inr (v, p')" "inv p'"
    using get_clock_out [of "m_p ?c"] inv by (auto simp: set_observed_def)
  have k: "cache_key Clock 0 False = Inr (push_bit 27 (op_num Clock))"
    by (simp add: cache_key_eq)
  have a: "op_post inv fin pend {#} c (?c\<lparr>m_p := p'\<rparr>)"
    by (rule op_post_zero [OF set_observed_post op_post_p [of inv, OF p'(2)]])
  have call: "op_post inv fin pend {#cb#} c1 (log_calls [Callback cb (ucast v)] c1)" for c1
    by (auto simp: op_post_def same_seqs_part_def log_calls_def intro!: exI [of _ "[(cb, ucast v)]"])
  have "totR (bindR (cmd_cache_set Clock 0 False (ucast v) (?c\<lparr>m_p := p'\<rparr>)) (\<lambda>s2.
      Inr (log_calls [Callback cb (ucast v)] s2))) (op_post inv fin pend {#cb#} c)"
    by (rule totR_bind [OF op_post_then [OF a cmd_cache_set_post [OF k]]]) (auto intro: op_post_zero call)
  then show ?thesis
    using p'(1) by (simp add: get_clock_def send_get_cmd_def concurrent_get_def p_get_def)
qed

lemma has_ttl_ovr_post:
  assumes inv: "inv (m_p c)"
  shows "totR (has_ttl_ovr P c) (\<lambda>(b, c'). op_post inv fin pend {#} c c')"
proof -
  have loop: "totR (ttl_ovr_loop P bs c1) (\<lambda>(b, c'). port_step inv fin pend c c')"
    if "\<forall>b \<in> set bs. bank_ok b" and "port_step inv fin pend c c1" for bs c1
    using that
  proof (induction bs arbitrary: c1)
    case (Cons b bs)
    then have b: "bank_ok b"
      by simp
    show ?case
      unfolding ttl_ovr_loop.simps
      by (rule totR_bind [OF port_steps(1) [OF Cons.prems(2) b]], clarsimp,
          rule totR_bind [OF port_steps(2) [OF _ b]], assumption)
        (use Cons.IH Cons.prems(1) in auto)
  qed simp
  have "\<forall>b \<in> set (map int [0 ..< NUM_TTL_BANKS]). bank_ok b"
    by (auto simp: bank_ok_def)
  moreover have "port_step inv fin pend c c"
    using inv by (simp add: port_step_def)
  ultimately show ?thesis
    unfolding has_ttl_ovr_def by (intro totR_weaken [OF loop]) (auto simp: port_step_def)
qed

end

section \<open>Sequences\<close>

text \<open>
  What the notification object of a sequence has been told: the object, the id, and the state that
  was announced last.
\<close>

type_synonym 'nt noted = "'nt \<times> u64 \<times> ReqSeqState"

definition noted :: "'nt ReqSeq \<Rightarrow> 'nt noted" where
  "noted x = (rs_notify x, rs_id x, rs_processed_state x)"

definition seq_items :: "('q \<Rightarrow> addr list) \<Rightarrow> ('q \<Rightarrow> addr list) \<Rightarrow> ('q, 'cb, 'nt, 'p) controller \<Rightarrow> addr list" where
  "seq_items fin pend c = fin (m_seq_queue c) @ pend (m_seq_queue c)"

definition told_of :: "('q \<Rightarrow> addr list) \<Rightarrow> ('q \<Rightarrow> addr list) \<Rightarrow> ('q, 'cb, 'nt, 'p) controller \<Rightarrow> 'nt noted list" where
  "told_of fin pend c = map (\<lambda>a. noted (the (m_seq_store c a))) (seq_items fin pend c)"

definition seqs_ok :: "('q \<Rightarrow> addr list) \<Rightarrow> ('q \<Rightarrow> addr list) \<Rightarrow> ('q, 'cb, 'nt, 'p) controller \<Rightarrow> bool" where
  "seqs_ok fin pend c \<longleftrightarrow> distinct (seq_items fin pend c) \<and>
     (\<forall>a \<in> set (seq_items fin pend c). a < m_seq_next c \<and>
        (\<exists>x. m_seq_store c a = Some x \<and> progress (rs_processed_state x) (rs_state x)))"

text \<open>The states that the worker has given to the sequences it has not finished.\<close>

definition states_of :: "('q \<Rightarrow> addr list) \<Rightarrow> ('q, 'cb, 'nt, 'p) controller \<Rightarrow> ReqSeqState list" where
  "states_of pend c = map (\<lambda>a. rs_state (the (m_seq_store c a))) (pend (m_seq_queue c))"

lemma same_seqs_part_told:
  assumes "same_seqs_part c c'"
  shows "seqs_ok fin pend c' = seqs_ok fin pend c" and "told_of fin pend c' = told_of fin pend c"
    and "states_of pend c' = states_of pend c"
  using assms by (simp_all add: same_seqs_part_def seqs_ok_def seq_items_def told_of_def states_of_def)

lemma set_dirty_simps [simp]:
  "m_seq_queue (set_dirty c) = m_seq_queue c" "m_seq_store (set_dirty c) = m_seq_store c"
  "m_seq_next (set_dirty c) = m_seq_next c" "m_seq_cnt (set_dirty c) = m_seq_cnt c"
  "m_cmd_queue (set_dirty c) = m_cmd_queue c" "m_cmd_store (set_dirty c) = m_cmd_store c"
  "m_cmd_next (set_dirty c) = m_cmd_next c" "m_cmd_cache (set_dirty c) = m_cmd_cache c"
  "m_log (set_dirty c) = m_log c" "m_times (set_dirty c) = m_times c"
  by (simp_all add: set_dirty_def)

lemma set_dirty_simps_ctrl [simp]:
  "m_p (set_dirty c) = m_p c" "m_dds_ovr (set_dirty c) = m_dds_ovr c" "m_ttl (set_dirty c) = m_ttl c"
  "m_dds_phase (set_dirty c) = m_dds_phase c" "m_dds_pending_reset (set_dirty c) = m_dds_pending_reset c"
  "m_dds_exist (set_dirty c) = m_dds_exist c" "m_cmd_waiting (set_dirty c) = m_cmd_waiting c"
  by (simp_all add: set_dirty_def)

lemma seq_run_code_ok:
  assumes laws: "fqueue_laws Q fin pend" and "seqs_ok fin pend c"
    and v: "length masks = NUM_TTL_BANKS" "valid_ver ver"
    and r: "seq_run_code Q is_cmd ver len masks code n c = (i, c')"
  shows "i = m_seq_cnt c + 1" "seqs_ok fin pend c'" "told_of fin pend c' = told_of fin pend c @ [(n, i, SeqInit)]"
    "both_ok I fin pend cur c \<Longrightarrow> both_ok I fin pend cur c'"
    "m_log c' = m_log c @ [NotifySetId n i]" "m_cmd_cache c' = m_cmd_cache c" "m_seq_cnt c' = i"
    "m_dds_exist c' = m_dds_exist c" "states_of pend c' = states_of pend c @ [SeqInit]"
proof -
  have new: "m_seq_next c \<notin> set (fin (m_seq_queue c))" "m_seq_next c \<notin> set (pend (m_seq_queue c))"
    using assms(2) unfolding seqs_ok_def seq_items_def by fastforce+
  note d = seq_run_code_def log_calls_def Let_def fqueue_lawsD [OF laws]
  show "i = m_seq_cnt c + 1" "m_log c' = m_log c @ [NotifySetId n i]" "m_cmd_cache c' = m_cmd_cache c"
    "m_seq_cnt c' = i" "m_dds_exist c' = m_dds_exist c"
    using r by (auto simp: d)
  show "seqs_ok fin pend c'"
    using r assms(2) new by (auto simp: d seqs_ok_def seq_items_def progress_def less_SucI)
  have "map (\<lambda>a. noted (the (((m_seq_store c)(m_seq_next c \<mapsto> x)) a))) q = map (\<lambda>a. noted (the (m_seq_store c a))) q"
    if "m_seq_next c \<notin> set q" for q x
    using that by (intro map_cong [OF refl]) auto
  then show "told_of fin pend c' = told_of fin pend c @ [(n, i, SeqInit)]"
    using r new by (auto simp: d told_of_def seq_items_def noted_def)
  have "map (\<lambda>a. rs_state (the (((m_seq_store c)(m_seq_next c \<mapsto> x)) a))) q = map (\<lambda>a. rs_state (the (m_seq_store c a))) q"
    if "m_seq_next c \<notin> set q" for q x
    using that by (intro map_cong [OF refl]) auto
  then show "states_of pend c' = states_of pend c @ [SeqInit]"
    using r new by (auto simp: d states_of_def)
  show "both_ok I fin pend cur c'" if ok: "both_ok I fin pend cur c"
  proof -
    have "queues_ok pend cur c'"
      using ok r new v
      by (auto simp: both_ok_def ctrl_ok_def queues_ok_def d head_opt_snoc valid_seq_def valid_ver_def)
    then show ?thesis
      using ok r by (auto simp: both_ok_def ctrl_ok_def ctrl_shape_def d)
  qed
qed

lemma cancel_seq_ok:
  assumes laws: "fqueue_laws Q fin pend" and ok: "seqs_ok fin pend c"
  shows "totR (cancel_seq Q sid c) (\<lambda>(b, c'). seqs_ok fin pend c' \<and> told_of fin pend c' = told_of fin pend c \<and>
     (\<forall>cur. both_ok I fin pend cur c \<longrightarrow> both_ok I fin pend cur c') \<and> m_log c' = m_log c \<and>
     m_cmd_cache c' = m_cmd_cache c \<and> m_seq_cnt c' = m_seq_cnt c \<and> m_dds_exist c' = m_dds_exist c \<and>
     states_of pend c' = states_of pend c)"
proof -
  let ?q = "fin (m_seq_queue c) @ pend (m_seq_queue c)"
  let ?st = "\<lambda>a. if a \<in> set ?q \<and> cancels sid (the (m_seq_store c a))
      then Some ((the (m_seq_store c a))\<lparr>rs_cancel := True\<rparr>) else m_seq_store c a"
  have alloc: "\<forall>a \<in> set ?q. a < m_seq_next c \<and> (\<exists>x. m_seq_store c a = Some x \<and>
      progress (rs_processed_state x) (rs_state x))"
    using ok by (simp add: seqs_ok_def seq_items_def)
  then have "cancel_seq Q sid c = Inr (\<exists>a \<in> set ?q. cancels sid (the (m_seq_store c a)), c\<lparr>m_seq_store := ?st\<rparr>)"
    using cancel_loop_spec [of ?q "m_seq_store c" sid False]
    unfolding cancel_seq_def fqueue_lawsD(11) [OF laws] by fastforce
  moreover have "seqs_ok fin pend (c\<lparr>m_seq_store := ?st\<rparr>)"
  proof -
    have "progress (rs_processed_state (the (m_seq_store c a))) (rs_state (the (m_seq_store c a)))" if "a \<in> set ?q" for a
      using alloc that by fastforce
    then show ?thesis
      using ok by (simp add: seqs_ok_def seq_items_def)
  qed
  moreover have "told_of fin pend (c\<lparr>m_seq_store := ?st\<rparr>) = told_of fin pend c"
    by (auto simp: told_of_def seq_items_def noted_def)
  moreover have "states_of pend (c\<lparr>m_seq_store := ?st\<rparr>) = states_of pend c"
    by (auto simp: states_of_def)
  moreover have "both_ok I fin pend cur (c\<lparr>m_seq_store := ?st\<rparr>)" if "both_ok I fin pend cur c" for cur
    using that by (auto simp: both_ok_def ctrl_ok_def ctrl_shape_def queues_ok_def valid_seq_def)
  ultimately show ?thesis
    by simp
qed

section \<open>Collecting\<close>

text \<open>What the frontend never writes in \<^verbatim>\<open>run_frontend\<close>.\<close>

definition fe_frame :: "('q, 'cb, 'nt, 'p) controller \<Rightarrow> ('q, 'cb, 'nt, 'p) controller \<Rightarrow> bool" where
  "fe_frame c c' \<longleftrightarrow> m_p c' = m_p c \<and> m_dds_ovr c' = m_dds_ovr c \<and> m_ttl c' = m_ttl c \<and>
     m_dds_phase c' = m_dds_phase c \<and> m_dds_pending_reset c' = m_dds_pending_reset c \<and>
     m_dds_exist c' = m_dds_exist c \<and> m_cmd_waiting c' = m_cmd_waiting c \<and> m_cmd_next c' = m_cmd_next c \<and>
     m_seq_next c' = m_seq_next c \<and> m_seq_cnt c' = m_seq_cnt c"

lemma fe_frame_trans: "fe_frame a b \<Longrightarrow> fe_frame b c \<Longrightarrow> fe_frame a c"
  by (simp add: fe_frame_def)

lemma fe_frame_upd [simp]:
  "fe_frame c (c\<lparr>m_seq_queue := q\<rparr>)" "fe_frame c (c\<lparr>m_cmd_queue := q\<rparr>)" "fe_frame c (c\<lparr>m_bkend_evt := n\<rparr>)"
  "fe_frame (c\<lparr>m_seq_queue := q\<rparr>) c' = fe_frame c c'" "fe_frame (c\<lparr>m_cmd_queue := q\<rparr>) c' = fe_frame c c'"
  "fe_frame (c\<lparr>m_bkend_evt := n\<rparr>) c' = fe_frame c c'" "fe_frame (c\<lparr>m_cmd_store := st\<rparr>) c' = fe_frame c c'"
  "fe_frame c c"
  by (simp_all add: fe_frame_def)

lemma run_callbacks_frame: "run_callbacks a c = Inr c' \<Longrightarrow> fe_frame c c'"
  by (auto simp: run_callbacks_def fe_frame_def log_calls_def split: option.splits)

lemma free_seq_frame: "free_seq a c = Inr c' \<Longrightarrow> fe_frame c c'"
  by (auto simp: free_seq_def fe_frame_def log_calls_def split: option.splits)

lemma cmd_cache_set_frame: "cmd_cache_set op a ovr v c = Inr c' \<Longrightarrow> fe_frame c c'"
  by (auto simp: cmd_cache_set_def fe_frame_def getTime_def log_calls_def Let_def)

lemma frontend_seqs_frame:
  "frontend_seqs Q fuel cur c = Inr (cur', c') \<Longrightarrow> fe_frame c c'"
proof (induction fuel arbitrary: cur c)
  case (Suc fuel)
  obtain got q where "fq_pop Q (m_seq_queue c) = (got, q)"
    by fastforce
  with Suc.prems show ?case
    by (cases got) (auto simp: Let_def dest!: run_callbacks_frame free_seq_frame Suc.IH intro: fe_frame_trans)
qed simp

text \<open>The callbacks that the answers of the worker trigger.\<close>

lemma frontend_cmds_calls:
  "frontend_cmds Q fuel c = Inr c' \<Longrightarrow> fe_frame c c' \<and>
   (\<exists>calls. m_log c' = m_log c @ map (\<lambda>(cb, v). Callback cb v) calls \<and>
      pending (m_cmd_cache c') + mset (map fst calls) = pending (m_cmd_cache c))"
proof (induction fuel arbitrary: c)
  case (Suc fuel)
  obtain got q where pop: "fq_pop Q (m_cmd_queue c) = (got, q)"
    by fastforce
  show ?case
  proof (cases got)
    case None
    then show ?thesis
      using Suc.prems pop by (auto intro: exI [of _ "[]"])
  next
    case (Some a)
    obtain cmd where "m_cmd_store c a = Some cmd"
      using Suc.prems pop Some by (cases "m_cmd_store c a") (auto simp: Let_def)
    then obtain s2 where cmd: "(if rc_has_res cmd
        then cmd_cache_set (rc_opcode cmd) (rc_operand cmd) (rc_is_override cmd) (rc_val cmd) (c\<lparr>m_cmd_queue := q\<rparr>)
        else Inr (c\<lparr>m_cmd_queue := q\<rparr>)) = Inr s2"
      and rest: "frontend_cmds Q fuel (s2\<lparr>m_cmd_store := (m_cmd_store s2)(a := None)\<rparr>) = Inr c'"
      using Suc.prems pop Some by (simp add: Let_def) blast
    have s2: "fe_frame c s2 \<and> (\<exists>calls. m_log s2 = m_log c @ map (\<lambda>(cb, v). Callback cb v) calls \<and>
        pending (m_cmd_cache s2) + mset (map fst calls) = pending (m_cmd_cache c))"
    proof (cases "rc_has_res cmd")
      case False
      then show ?thesis
        using cmd by (auto intro: exI [of _ "[]"])
    next
      case True
      then have set: "cmd_cache_set (rc_opcode cmd) (rc_operand cmd) (rc_is_override cmd) (rc_val cmd) (c\<lparr>m_cmd_queue := q\<rparr>) = Inr s2"
        using cmd by simp
      then obtain cache calls where "cache_set (m_times c 0) (rc_opcode cmd) (rc_operand cmd) (rc_is_override cmd)
          (rc_val cmd) (m_cmd_cache c) = Inr (cache, calls)"
        by (auto simp: cmd_cache_set_def getTime_def Let_def)
      with pending_cache_set [OF this] cmd_cache_set_frame [OF set] set show ?thesis
        by (auto simp: cmd_cache_set_def getTime_def log_calls_def Let_def intro!: exI [of _ calls])
    qed
    then obtain x where x: "m_log s2 = m_log c @ map (\<lambda>(cb, v). Callback cb v) x"
      "pending (m_cmd_cache s2) + mset (map fst x) = pending (m_cmd_cache c)"
      by blast
    obtain y where y: "m_log c' = m_log s2 @ map (\<lambda>(cb, v). Callback cb v) y"
      "pending (m_cmd_cache c') + mset (map fst y) = pending (m_cmd_cache s2)" "fe_frame s2 c'"
      using Suc.IH [OF rest] by auto
    have "pending (m_cmd_cache c') + mset (map fst (x @ y)) = pending (m_cmd_cache c)"
      using sum_swap [of "pending (m_cmd_cache s2)" _ "pending (m_cmd_cache c)" "{#}" "pending (m_cmd_cache c')" _ "{#}"]
        x(2) y(2) by simp
    then show ?thesis
      using x(1) y(1,3) s2 by (intro conjI exI [of _ "x @ y"]) (auto intro: fe_frame_trans)
  qed
qed simp

definition announced :: "'nt ReqSeq \<Rightarrow> 'nt ReqSeq" where
  "announced x = x\<lparr>rs_processed_state := rs_state x\<rparr>"

lemma announced_progress [simp]: "progress (rs_processed_state (announced x)) (rs_state (announced x))"
  by (simp add: announced_def progress_def)

lemma valid_seq_announced [simp]: "valid_seq (announced x) = valid_seq x"
  by (simp add: valid_seq_def announced_def)

text \<open>
  One call of \<^verbatim>\<open>run_frontend\<close>: the finished sequences get their last notifications and are freed, the
  oldest of the others gets the ones that are due, then the callbacks are called.
\<close>

definition collected ::
  "('q \<Rightarrow> addr list) \<Rightarrow> ('q \<Rightarrow> addr list) \<Rightarrow> ('q, 'cb, 'nt, 'p) controller \<Rightarrow> ('q, 'cb, 'nt, 'p) controller \<Rightarrow> bool" where
  "collected fin pend c c' \<longleftrightarrow>
     (let seq = (\<lambda>a. the (m_seq_store c a)); f = fin (m_seq_queue c); p = pend (m_seq_queue c)
      in told_of fin pend c' = (case p of [] \<Rightarrow> [] | a # as \<Rightarrow> noted (announced (seq a)) # map (\<lambda>a. noted (seq a)) as) \<and>
         (\<exists>calls. m_log c' = m_log c @ concat (map (\<lambda>a. farewell (seq a)) f) @
              (case p of [] \<Rightarrow> [] | a # as \<Rightarrow> seq_notifications (seq a)) @ map (\<lambda>(cb, v). Callback cb v) calls \<and>
            pending (m_cmd_cache c') + mset (map fst calls) = pending (m_cmd_cache c)))"

lemma run_frontend_post:
  fixes c :: "('q, 'cb, 'nt, 'p) controller"
  assumes laws: "fqueue_laws Q fin pend" and ok: "seqs_ok fin pend c" "both_ok I fin pend cur0 c"
  shows "totR (run_frontend Q c) (\<lambda>c'. collected fin pend c c' \<and> seqs_ok fin pend c' \<and> fe_frame c c' \<and>
     states_of pend c' = states_of pend c \<and>
     (\<forall>cur. both_ok I fin pend cur c \<longrightarrow> both_ok I fin pend cur c'))"
proof -
  let ?c = "c\<lparr>m_bkend_evt := 0\<rparr>" and ?f = "fin (m_seq_queue c)" and ?p = "pend (m_seq_queue c)"
  let ?seq = "\<lambda>a. the (m_seq_store c a)" and ?cur = "fq_peek_filter Q (m_seq_queue c)"
  have q: "distinct (?f @ ?p)" "\<forall>a \<in> set (?f @ ?p). a < m_seq_next c \<and> m_seq_store c a = Some (?seq a) \<and>
      progress (rs_processed_state (?seq a)) (rs_state (?seq a))"
    using ok(1) unfolding seqs_ok_def seq_items_def by fastforce+
  have cur: "?cur = head_opt ?p" "?cur \<notin> Some ` set ?f"
    using q(1) by (auto simp: fqueue_lawsD [OF laws] head_opt_eq_Some)
  let ?n = "Suc (length (fq_items Q (m_seq_queue c)))"
  have pre: "distinct (fin (m_seq_queue ?c))" "\<forall>a \<in> set (fin (m_seq_queue ?c)). m_seq_store ?c a \<noteq> None"
    "length (fin (m_seq_queue ?c)) < ?n"
    using q by (auto simp: fqueue_lawsD [OF laws])
  obtain c1 where c1: "frontend_seqs Q ?n ?cur ?c = Inr (?cur, c1)"
    "fin (m_seq_queue c1) = []" "pend (m_seq_queue c1) = ?p"
    "\<forall>a. m_seq_store c1 a = (if a \<in> set ?f then None else m_seq_store c a)"
    "m_log c1 = m_log c @ concat (map (\<lambda>a. farewell (?seq a)) ?f)"
    "m_cmd_queue c1 = m_cmd_queue c" "m_cmd_store c1 = m_cmd_store c" "m_cmd_cache c1 = m_cmd_cache c"
    using frontend_seqs_total [OF laws pre, of ?cur] cur(2) by (auto simp del: frontend_seqs.simps)
  have f1: "fe_frame c c1"
    using frontend_seqs_frame [OF c1(1)] by simp
  define st where "st = (case ?p of [] \<Rightarrow> m_seq_store c1 | a # as \<Rightarrow> (m_seq_store c1)(a \<mapsto> announced (?seq a)))"
  define ns :: "('cb, 'nt) call list" where "ns = (case ?p of [] \<Rightarrow> [] | a # as \<Rightarrow> seq_notifications (?seq a))"
  define c2 where "c2 = log_calls ns (c1\<lparr>m_seq_store := st\<rparr>)"
  have run: "(case ?cur of None \<Rightarrow> Inr c1 | Some a \<Rightarrow> run_callbacks a c1) = Inr c2"
  proof (cases ?p)
    case Nil
    then show ?thesis
      by (simp add: cur(1) c2_def st_def ns_def log_calls_def)
  next
    case (Cons a as)
    then have "m_seq_store c1 a = Some (?seq a)"
      using q c1(4) by auto
    then show ?thesis
      by (simp add: cur(1) Cons c2_def st_def ns_def run_callbacks_def announced_def)
  qed
  have c2: "m_seq_queue c2 = m_seq_queue c1" "m_seq_store c2 = st" "m_cmd_queue c2 = m_cmd_queue c"
    "m_cmd_store c2 = m_cmd_store c" "m_cmd_cache c2 = m_cmd_cache c" "fe_frame c c2"
    "m_log c2 = m_log c @ concat (map (\<lambda>a. farewell (?seq a)) ?f) @ ns"
    using c1 f1 by (simp_all add: c2_def log_calls_def fe_frame_def)
  let ?m = "Suc (length (fq_items Q (m_cmd_queue c2)))" and ?cf = "fin (m_cmd_queue c)"
  have cmds: "distinct (?cf @ pend (m_cmd_queue c))"
    "\<forall>a \<in> set (?cf @ pend (m_cmd_queue c)). a < m_cmd_next c \<and> (\<exists>cmd. m_cmd_store c a = Some cmd \<and> answer_ok cmd)"
    using ok(2) by (simp_all add: both_ok_def)
  have prec: "distinct (fin (m_cmd_queue c2))" "length (fin (m_cmd_queue c2)) < ?m"
    "\<forall>a \<in> set (fin (m_cmd_queue c2)). \<exists>cmd. m_cmd_store c2 a = Some cmd \<and> answer_ok cmd"
    using cmds by (auto simp: fqueue_lawsD [OF laws] c2)
  obtain c' where c': "frontend_cmds Q ?m c2 = Inr c'" "fin (m_cmd_queue c') = []"
    "pend (m_cmd_queue c') = pend (m_cmd_queue c)"
    "\<forall>a. m_cmd_store c' a = (if a \<in> set ?cf then None else m_cmd_store c a)"
    "m_seq_queue c' = m_seq_queue c1" "m_seq_store c' = st"
    using frontend_cmds_total [OF laws prec(1,3,2)] by (auto simp: c2 simp del: frontend_cmds.simps)
  have res: "run_frontend Q c = Inr c'"
    unfolding run_frontend_def Let_def
    using c1(1) run c'(1) by (simp del: frontend_seqs.simps frontend_cmds.simps)
  obtain calls where calls: "m_log c' = m_log c2 @ map (\<lambda>(cb, v). Callback cb v) calls"
    "pending (m_cmd_cache c') + mset (map fst calls) = pending (m_cmd_cache c)" and f2: "fe_frame c c'"
    using frontend_cmds_calls [OF c'(1)] c2 fe_frame_trans by auto
  have sq: "fin (m_seq_queue c') = []" "pend (m_seq_queue c') = ?p"
    using c1 c'(5) by simp_all
  have st: "st a = (if Some a = head_opt ?p then Some (announced (?seq a)) else m_seq_store c a)" if "a \<in> set ?p" for a
    using that q(1) c1(4) by (cases ?p) (auto simp: st_def)
  have told: "told_of fin pend c' = (case ?p of [] \<Rightarrow> [] | a # as \<Rightarrow> noted (announced (?seq a)) # map (\<lambda>a. noted (?seq a)) as)"
  proof (cases ?p)
    case (Cons a as)
    then have "map (\<lambda>b. noted (the (st b))) as = map (\<lambda>b. noted (?seq b)) as"
      using st q(1) by (intro map_cong [OF refl]) auto
    then show ?thesis
      using Cons st by (simp add: told_of_def seq_items_def sq c'(6))
  qed (simp add: told_of_def seq_items_def sq)
  have "states_of pend c' = states_of pend c"
    unfolding states_of_def sq c'(6) by (intro map_cong [OF refl]) (simp add: st announced_def)
  moreover have "collected fin pend c c'"
    unfolding collected_def Let_def using told calls c2(7) by (auto simp: ns_def)
  moreover have "seqs_ok fin pend c'"
    using q st f2 unfolding seqs_ok_def seq_items_def
    by (auto simp: sq c'(6) fe_frame_def)
  moreover have "both_ok I fin pend cur c'" if b: "both_ok I fin pend cur c" for cur
  proof -
    have "\<exists>x. st a = Some x \<and> valid_seq x" if "a \<in> set ?p" for a
      using st [OF that] b that by (auto simp: both_ok_def ctrl_ok_def queues_ok_def)
    moreover have "m_cmd_store c' a = m_cmd_store c a" if "a \<in> set (pend (m_cmd_queue c))" for a
      using that cmds(1) c'(4) by auto
    ultimately have "queues_ok pend cur c'"
      using b f2 by (auto simp: both_ok_def ctrl_ok_def queues_ok_def fe_frame_def c'(3,6) sq)
    then show ?thesis
      using b f2 cmds c'(2-4) by (auto simp: both_ok_def ctrl_ok_def ctrl_shape_def fe_frame_def)
  qed
  ultimately show ?thesis
    using res f2 by simp
qed

end
