(* ===== verification/Server_Safety.thy ===== *)
theory Server_Safety
  imports Server_Requests Frontend_Safety
begin

text \<open>
  The server never fails: no assertion of \<^verbatim>\<open>lib/server.cpp\<close> or \<^verbatim>\<open>lib/ctrl_iface.cpp\<close>, no shared object or
  notification object that is used after it is gone, for any requests and any progress of the worker.
  And whatever it queues is what the worker can handle.
\<close>

section \<open>Notification objects\<close>

definition told_ok :: "('q, 'p) server \<Rightarrow> nat noted \<Rightarrow> bool" where
  "told_ok sv = (\<lambda>(n, i, p). n < sv_notify_next sv \<and>
     (sv_notifies sv n = Some StartupNotify \<and> i \<notin> ss_id ` set (sv_seq_status sv) \<or>
      sv_notifies sv n = Some (SeqNotify i) \<and> (\<not> over p \<longrightarrow> i \<in> ss_id ` set (sv_seq_status sv))))"

definition notified_ok :: "nat noted list \<Rightarrow> ('q, 'p) server \<Rightarrow> bool" where
  "notified_ok L sv \<longleftrightarrow> distinct (map fst L) \<and> distinct (map (fst \<circ> snd) L) \<and>
     (\<forall>x \<in> set L. told_ok sv x) \<and> distinct (map ss_id (sv_seq_status sv)) \<and>
     ss_id ` set (sv_seq_status sv) \<subseteq> (fst \<circ> snd) ` set L"

lemma told_ok_cong:
  assumes "sv_notifies sv' (fst x) = sv_notifies sv (fst x)" and "sv_notify_next sv' = sv_notify_next sv"
    and "fst (snd x) \<in> ss_id ` set (sv_seq_status sv') \<longleftrightarrow> fst (snd x) \<in> ss_id ` set (sv_seq_status sv)"
  shows "told_ok sv' x = told_ok sv x"
  using assms by (cases x) (simp add: told_ok_def)

text \<open>A change that only concerns the first of the sequences.\<close>

lemma notified_others:
  assumes ok: "notified_ok ((n, i, p) # L) sv"
    and n: "\<forall>m. m \<noteq> n \<longrightarrow> sv_notifies sv' m = sv_notifies sv m" "sv_notify_next sv' = sv_notify_next sv"
    and st: "ss_id ` set (sv_seq_status sv') - {i} = ss_id ` set (sv_seq_status sv) - {i}"
  shows "\<forall>x \<in> set L. told_ok sv' x"
proof
  fix x
  assume x: "x \<in> set L"
  then have "fst x \<noteq> n" "fst (snd x) \<noteq> i"
    using ok by (auto simp: notified_ok_def)
  moreover from this have "fst (snd x) \<in> ss_id ` set (sv_seq_status sv') \<longleftrightarrow> fst (snd x) \<in> ss_id ` set (sv_seq_status sv)"
    using st by blast
  ultimately have "told_ok sv' x = told_ok sv x"
    using n by (intro told_ok_cong) auto
  then show "told_ok sv' x"
    using ok x by (simp add: notified_ok_def)
qed

text \<open>What notifications leave alone.\<close>

definition keeps :: "('q, 'p) server \<Rightarrow> ('q, 'p) server \<Rightarrow> bool" where
  "keeps sv sv' \<longleftrightarrow> sv_ctrl sv' = sv_ctrl sv \<and> sv_infos sv' = sv_infos sv \<and>
     sv_info_next sv' = sv_info_next sv \<and> sv_notify_next sv' = sv_notify_next sv"

lemma keeps_trans: "keeps a b \<Longrightarrow> keeps b c \<Longrightarrow> keeps a c"
  by (simp add: keeps_def)

lemma keeps_refl [simp]: "keeps a a"
  by (simp add: keeps_def)

lemma notified_perm:
  assumes "mset L = mset L'"
  shows "notified_ok L sv = notified_ok L' sv"
proof -
  have "distinct (map fst L) = distinct (map fst L')"
    by (rule mset_eq_imp_distinct_iff) (simp add: assms)
  moreover have "distinct (map (fst \<circ> snd) L) = distinct (map (fst \<circ> snd) L')"
    by (rule mset_eq_imp_distinct_iff) (simp add: assms)
  ultimately show ?thesis
    using mset_eq_setD [OF assms] by (simp add: notified_ok_def)
qed

lemma notified_over:
  "notified_ok ((n, i, p) # L) sv \<Longrightarrow> (over p \<longrightarrow> over p') \<Longrightarrow> notified_ok ((n, i, p') # L) sv"
  by (auto simp: notified_ok_def told_ok_def)

lemma find_seqstatus_iff: "find_seqstatus i sts \<noteq> None \<longleftrightarrow> i \<in> ss_id ` set sts"
  by (auto simp: find_seqstatus_def find_None_iff)

lemma notified_statuses:
  assumes "map ss_id (sv_seq_status sv') = map ss_id (sv_seq_status sv)" and "sv_notifies sv' = sv_notifies sv"
    and "sv_notify_next sv' = sv_notify_next sv"
  shows "notified_ok L sv' = notified_ok L sv"
proof -
  have "ss_id ` set (sv_seq_status sv') = ss_id ` set (sv_seq_status sv)"
    using assms(1) by (metis set_map)
  moreover from this have "told_ok sv' x = told_ok sv x" for x
    using assms by (intro told_ok_cong) auto
  ultimately show ?thesis
    using assms by (simp add: notified_ok_def)
qed

lemma reply_waits_simps [simp]:
  "sv_ctrl (reply_waits ws msg sv) = sv_ctrl sv" "sv_infos (reply_waits ws msg sv) = sv_infos sv"
  "sv_info_next (reply_waits ws msg sv) = sv_info_next sv" "sv_notifies (reply_waits ws msg sv) = sv_notifies sv"
  "sv_notify_next (reply_waits ws msg sv) = sv_notify_next sv" "sv_seq_status (reply_waits ws msg sv) = sv_seq_status sv"
  by (simp_all add: reply_waits_eq)

text \<open>After \<^verbatim>\<open>finalize\<close> nothing waits for this sequence, and nothing else has changed.\<close>

lemma finalize_fields:
  assumes "distinct (map ss_id (sv_seq_status sv))"
  shows "sv_seq_status (finalize i b sv) = filter (\<lambda>st. ss_id st \<noteq> i) (sv_seq_status sv)"
    "sv_notifies (finalize i b sv) = sv_notifies sv" "keeps sv (finalize i b sv)"
proof -
  have "filter (\<lambda>st. ss_id st \<noteq> i) (sv_seq_status sv) = sv_seq_status sv" if "find_seqstatus i (sv_seq_status sv) = None"
    using that find_seqstatus_iff [of i "sv_seq_status sv"] by (intro filter_True) auto
  then show "sv_seq_status (finalize i b sv) = filter (\<lambda>st. ss_id st \<noteq> i) (sv_seq_status sv)"
    "sv_notifies (finalize i b sv) = sv_notifies sv" "keeps sv (finalize i b sv)"
    by (auto simp: finalize_def keeps_def update_status_erase [OF assms] split: option.split)
qed

lemma finalize_others:
  assumes ok: "notified_ok ((n, i, p) # L) sv0" and sv: "\<forall>m. m \<noteq> n \<longrightarrow> sv_notifies sv m = sv_notifies sv0 m"
    "sv_notify_next sv = sv_notify_next sv0" "sv_seq_status sv = sv_seq_status sv0"
  shows "notified_ok L (finalize i b sv)" "i \<notin> ss_id ` set (sv_seq_status (finalize i b sv))"
proof -
  have d: "distinct (map ss_id (sv_seq_status sv))"
    using ok sv(3) by (simp add: notified_ok_def)
  note f = finalize_fields [OF d, of i b]
  have ids: "ss_id ` set (sv_seq_status (finalize i b sv)) = ss_id ` set (sv_seq_status sv0) - {i}"
    by (auto simp: f(1) sv(3))
  then show "i \<notin> ss_id ` set (sv_seq_status (finalize i b sv))"
    by simp
  have "\<forall>x \<in> set L. told_ok (finalize i b sv) x"
    by (rule notified_others [OF ok]) (use f sv ids in \<open>auto simp: keeps_def\<close>)
  then show "notified_ok L (finalize i b sv)"
    using ok d ids by (auto simp: notified_ok_def f(1) distinct_map_filter)
qed

lemma finalize_notified:
  assumes ok: "notified_ok ((n, i, p) # L) sv" and "sv_notifies sv n = Some (SeqNotify i)" and "over p'"
  shows "notified_ok ((n, i, p') # L) (finalize i b sv)"
proof -
  have d: "distinct (map ss_id (sv_seq_status sv))"
    using ok by (simp add: notified_ok_def)
  have "told_ok (finalize i b sv) (n, i, p')"
    using assms finalize_fields [OF d, of i b] by (auto simp: notified_ok_def told_ok_def keeps_def)
  then show ?thesis
    using ok finalize_others [OF ok, of sv b] by (auto simp: notified_ok_def)
qed

lemma run_started:
  assumes "notified_ok ((n, i, p) # L) sv"
  shows "run_logged V (NotifyStart n i) sv = Inr sv"
  using assms by (auto simp: notified_ok_def told_ok_def with_notify_def)

lemma run_flushed:
  assumes ok: "notified_ok ((n, i, p) # L) sv" and "\<not> over p"
  shows "totR (run_logged V (NotifyFlushed n i) sv) (\<lambda>sv'. notified_ok ((n, i, p) # L) sv' \<and> keeps sv sv')"
proof (cases "sv_notifies sv n = Some StartupNotify")
  case True
  then show ?thesis
    using ok by (simp add: with_notify_def)
next
  case False
  then have n: "sv_notifies sv n = Some (SeqNotify i)" "i \<in> ss_id ` set (sv_seq_status sv)"
    using assms by (auto simp: notified_ok_def told_ok_def)
  then obtain st where "find_seqstatus i (sv_seq_status sv) = Some st"
    using find_seqstatus_iff by blast
  then obtain sv' where sv': "notify_flushed i sv = Inr sv'"
    "sv_seq_status sv' = update_status i (\<lambda>st. [st\<lparr>ss_flushed := True\<rparr>]) (sv_seq_status sv)"
    "sv_notifies sv' = sv_notifies sv" "keeps sv sv'"
    by (simp add: notify_flushed_def keeps_def)
  then have "notified_ok ((n, i, p) # L) sv'"
    using ok notified_statuses [of sv' sv] update_status_ids [of "\<lambda>st. st\<lparr>ss_flushed := True\<rparr>" i]
    by (simp add: keeps_def)
  then show ?thesis
    using n(1) sv'(1,4) by (simp add: with_notify_def)
qed

lemma run_ended:
  assumes ok: "notified_ok ((n, i, p) # L) sv" and c: "c = NotifyEnd n i \<or> c = NotifyCancel n i" and p': "over p'"
  shows "totR (run_logged V c sv) (\<lambda>sv'. notified_ok ((n, i, p') # L) sv' \<and> keeps sv sv')"
proof (cases "sv_notifies sv n = Some StartupNotify")
  case True
  then show ?thesis
    using c notified_over [OF ok] p' by (auto simp: with_notify_def)
next
  case False
  then have n: "sv_notifies sv n = Some (SeqNotify i)" and d: "distinct (map ss_id (sv_seq_status sv))"
    using ok by (auto simp: notified_ok_def told_ok_def)
  show ?thesis
    using c n finalize_notified [OF ok n p'] finalize_fields(3) [OF d] by (auto simp: with_notify_def)
qed

lemma run_freed:
  assumes ok: "notified_ok ((n, i, p) # L) sv"
  shows "totR (run_logged V (NotifyFree n) sv) (\<lambda>sv'. notified_ok L sv' \<and> keeps sv sv')"
proof (cases "sv_notifies sv n = Some StartupNotify")
  case True
  let ?sv = "sv\<lparr>sv_notifies := (sv_notifies sv)(n := None), sv_finished := True\<rparr>"
  have "\<forall>x \<in> set L. told_ok ?sv x"
    by (rule notified_others [OF ok]) simp_all
  moreover have "i \<notin> ss_id ` set (sv_seq_status sv)"
    using ok True by (auto simp: notified_ok_def told_ok_def)
  ultimately have "notified_ok L ?sv"
    using ok by (auto simp: notified_ok_def)
  then show ?thesis
    using True by (simp add: notify_free_def keeps_def)
next
  case False
  let ?sv = "sv\<lparr>sv_notifies := (sv_notifies sv)(n := None)\<rparr>"
  have n: "sv_notifies sv n = Some (SeqNotify i)" and d: "distinct (map ss_id (sv_seq_status ?sv))"
    using ok False by (auto simp: notified_ok_def told_ok_def)
  have "notified_ok L (finalize i True ?sv)"
    by (rule finalize_others(1) [OF ok]) simp_all
  moreover have "keeps sv (finalize i True ?sv)"
    using finalize_fields(3) [OF d, of i True] by (simp add: keeps_def)
  ultimately show ?thesis
    using n by (simp add: notify_free_def Let_def)
qed

text \<open>All that is due to one sequence.\<close>

lemma run_notifications:
  assumes ok: "notified_ok (noted x # L) sv" and pr: "progress (rs_processed_state x) (rs_state x)"
  shows "totR (foldR (run_logged V) (seq_notifications x) sv) (\<lambda>sv'. notified_ok (noted (announced x) # L) sv' \<and> keeps sv sv')"
proof -
  let ?n = "rs_notify x" and ?i = "rs_id x" and ?p = "rs_processed_state x" and ?st = "rs_state x"
  let ?ns = "seq_notifications x :: (scb, nat) call list"
  note ok' = ok [unfolded noted_def]
  have any: "\<not> over ?p \<Longrightarrow> notified_ok ((?n, ?i, p) # L) sv' = notified_ok ((?n, ?i, ?p) # L) sv'" if "\<not> over p" for p and sv' :: "('a, 'b) server"
    using notified_over [of ?n ?i _ L sv'] that by blast
  have start: "foldR (run_logged V) (NotifyStart ?n ?i # cs) sv = foldR (run_logged V) cs sv" for cs
    using run_started [OF ok'] by (simp del: run_logged.simps)
  have flush: "totR (foldR (run_logged V) [NotifyFlushed ?n ?i] sv) (\<lambda>sv'. notified_ok ((?n, ?i, ?p) # L) sv' \<and> keeps sv sv')"
    if "\<not> over ?p"
    using run_flushed [OF ok' that, of V] by (auto simp: totR_def simp del: run_logged.simps)
  have ends: "totR (foldR (run_logged V) [c] sv) (\<lambda>sv'. notified_ok ((?n, ?i, p') # L) sv' \<and> keeps sv sv')"
    if "c = NotifyEnd ?n ?i \<or> c = NotifyCancel ?n ?i" "over p'" for c p'
    using run_ended [OF ok' that, of V] by (auto simp: totR_def simp del: run_logged.simps)
  have flush_end: "totR (foldR (run_logged V) [NotifyFlushed ?n ?i, NotifyEnd ?n ?i] sv)
      (\<lambda>sv'. notified_ok ((?n, ?i, SeqEnd) # L) sv' \<and> keeps sv sv')"
    if "\<not> over ?p"
    unfolding foldR.simps
  proof (rule totR_bind [OF run_flushed [OF ok' that]], goal_cases)
    case (1 sv1)
    then show ?case
      using run_ended [of ?n ?i ?p L sv1 "NotifyEnd ?n ?i" SeqEnd V]
      by (auto simp: totR_def over_def simp del: run_logged.simps intro: keeps_trans)
  qed
  note s = seq_notifications_def seq_state_less Let_def noted_def announced_def
  consider "?p = ?st" | "?p = SeqInit" "?st = SeqStart" | "?p \<in> {SeqInit, SeqStart}" "?st = SeqFlushed"
    | "?p \<in> {SeqInit, SeqStart}" "?st = SeqEnd" | "?p = SeqFlushed" "?st = SeqEnd" | "?p = SeqInit" "?st = SeqCancel"
    using pr by (cases ?p; cases ?st) (simp_all add: progress_def seq_state_less)
  then show ?thesis
  proof cases
    case 1
    then have "?ns = []"
      by (cases ?st) (simp_all add: s)
    then show ?thesis
      using 1 ok by (simp add: noted_def announced_def)
  next
    case 2
    then have "?ns = [NotifyStart ?n ?i]"
      by (simp add: s)
    then show ?thesis
      using 2 start [of "[]"] any [of SeqStart sv] ok' by (simp add: noted_def announced_def over_def)
  next
    case 3
    then have "?ns = (if ?p = SeqInit then [NotifyStart ?n ?i] else []) @ [NotifyFlushed ?n ?i]"
      by (auto simp: s)
    moreover have "\<not> over ?p"
      using 3 by (auto simp: over_def)
    ultimately show ?thesis
      using 3 start flush any [of SeqFlushed] by (auto simp: noted_def announced_def over_def totR_def simp del: foldR.simps)
  next
    case 4
    then have "?ns = (if ?p = SeqInit then [NotifyStart ?n ?i] else []) @ [NotifyFlushed ?n ?i, NotifyEnd ?n ?i]"
      by (auto simp: s)
    moreover have "\<not> over ?p"
      using 4 by (auto simp: over_def)
    ultimately show ?thesis
      using 4 start flush_end by (auto simp: noted_def announced_def simp del: foldR.simps)
  next
    case 5
    then have "?ns = [NotifyEnd ?n ?i]"
      by (simp add: s)
    then show ?thesis
      using 5 ends [of "NotifyEnd ?n ?i" SeqEnd] by (simp add: noted_def announced_def over_def del: foldR.simps)
  next
    case 6
    then have "?ns = [NotifyCancel ?n ?i]"
      by (simp add: s)
    then show ?thesis
      using 6 ends [of "NotifyCancel ?n ?i" SeqCancel] by (simp add: noted_def announced_def over_def del: foldR.simps)
  qed
qed

lemma foldR_append_totR:
  assumes "totR (foldR f xs s) R" and "\<And>s'. R s' \<Longrightarrow> totR (foldR f ys s') Q"
  shows "totR (foldR f (xs @ ys) s) Q"
  unfolding foldR_append by (rule totR_bind [OF assms(1)]) (rule assms(2))

lemma run_farewells:
  assumes "notified_ok (map noted xs @ L) sv" and "\<forall>x \<in> set xs. progress (rs_processed_state x) (rs_state x)"
  shows "totR (foldR (run_logged V) (concat (map farewell xs)) sv) (\<lambda>sv'. notified_ok L sv' \<and> keeps sv sv')"
  using assms
proof (induction xs arbitrary: sv)
  case (Cons x xs)
  let ?L = "map noted xs @ L"
  have one: "totR (foldR (run_logged V) (farewell x) sv) (\<lambda>sv'. notified_ok ?L sv' \<and> keeps sv sv')"
    unfolding farewell_def
  proof (rule foldR_append_totR [OF run_notifications [of x ?L sv V]], goal_cases)
    case (3 s)
    then show ?case
      using run_freed [of "rs_notify x" "rs_id x" "rs_state x" ?L s V]
      by (auto simp: totR_def noted_def announced_def simp del: run_logged.simps intro: keeps_trans)
  qed (use Cons.prems in simp_all)
  have "totR (foldR (run_logged V) (farewell x @ concat (map farewell xs)) sv) (\<lambda>sv'. notified_ok L sv' \<and> keeps sv sv')"
  proof (rule foldR_append_totR [OF one], goal_cases)
    case (1 s)
    then show ?case
      using Cons.IH [of s] Cons.prems(2) by (auto simp: totR_def intro: keeps_trans)
  qed
  then show ?case
    by simp
qed simp

section \<open>The shared objects\<close>

text \<open>The closures that hold a pointer to the object \<open>i\<close>; each object counts them.\<close>

fun refers :: "nat \<Rightarrow> scb \<Rightarrow> bool" where
  "refers i (CB_clock addr) = False"
| "refers i (CB_dds j chn) = (i = j)"
| "refers i (CB_ovr j chn) = (i = j)"

definition pointers :: "nat \<Rightarrow> scb multiset \<Rightarrow> nat" where
  "pointers i M = size (filter_mset (refers i) M)"

lemma pointers_simps [simp]:
  "pointers i {#} = 0" "pointers i (M + N) = pointers i M + pointers i N"
  "pointers i (add_mset cb M) = (if refers i cb then Suc (pointers i M) else pointers i M)"
  by (simp_all add: pointers_def)

fun kind_ok :: "info_kind \<Rightarrow> bool" where
  "kind_ok (ReplyRunSeq addr ids banks) \<longleftrightarrow> banks \<le> NUM_TTL_BANKS"
| "kind_ok _ = True"

definition info_ok :: "nat \<Rightarrow> dds_info option \<Rightarrow> bool" where
  "info_ok k info = (case info of None \<Rightarrow> k = 0 | Some x \<Rightarrow> 0 < k \<and> di_refs x = k \<and> kind_ok (di_kind x))"

definition refs_ok :: "scb multiset \<Rightarrow> ('q, 'p) server \<Rightarrow> bool" where
  "refs_ok M sv \<longleftrightarrow> (\<forall>i. info_ok (pointers i M) (sv_infos sv i)) \<and> (\<forall>i \<ge> sv_info_next sv. sv_infos sv i = None)"

text \<open>A step that only reads from the pulser.\<close>

definition ctrl_same :: "('p \<Rightarrow> bool) \<Rightarrow> ('q, 'cb, 'nt, 'p) controller \<Rightarrow> ('q, 'cb, 'nt, 'p) controller \<Rightarrow> bool" where
  "ctrl_same I c c' \<longleftrightarrow> (\<exists>b p. c' = c\<lparr>m_observed := b, m_p := p\<rparr> \<and> I p)"

lemma ctrl_same_refl: "I (m_p c) \<Longrightarrow> ctrl_same I c c"
  unfolding ctrl_same_def by (intro exI [of _ "m_observed c"] exI [of _ "m_p c"]) simp

lemma ctrl_same_trans: "ctrl_same I a b \<Longrightarrow> ctrl_same I b c \<Longrightarrow> ctrl_same I a c"
  unfolding ctrl_same_def by (elim exE conjE) (intro exI conjI, simp_all)

lemma ctrl_same_fields:
  assumes "ctrl_same I c c'"
  shows "I (m_p c')" "m_log c' = m_log c" "m_cmd_cache c' = m_cmd_cache c" "same_seqs_part c c'"
    "both_ok I fin pend cur c \<Longrightarrow> both_ok I fin pend cur c'"
  using assms by (auto simp: ctrl_same_def same_seqs_part_def both_ok_p)

text \<open>What calling the callbacks leaves alone.\<close>

definition cb_keeps :: "('p \<Rightarrow> bool) \<Rightarrow> ('q, 'p) server \<Rightarrow> ('q, 'p) server \<Rightarrow> bool" where
  "cb_keeps I sv sv' \<longleftrightarrow> sv_notifies sv' = sv_notifies sv \<and> sv_notify_next sv' = sv_notify_next sv \<and>
     sv_seq_status sv' = sv_seq_status sv \<and> sv_info_next sv' = sv_info_next sv \<and>
     ctrl_same I (sv_ctrl sv) (sv_ctrl sv')"

lemma cb_keeps_trans: "cb_keeps I a b \<Longrightarrow> cb_keeps I b c \<Longrightarrow> cb_keeps I a c"
  by (auto simp: cb_keeps_def intro: ctrl_same_trans)

context frontend_port
begin

lemma get_ovr_same:
  assumes b: "bank_ok b" and inv: "inv (m_p c)"
  shows "totR (get_ttl_ovrlo (concurrent_get P) b c) (\<lambda>(v, c'). ctrl_same inv c c')"
    and "totR (get_ttl_ovrhi (concurrent_get P) b c) (\<lambda>(v, c'). ctrl_same inv c c')"
proof -
  note f = ttl_operand_fields [OF b, of 0] ttl_operand_fields [OF b, of 1]
  have r: "0 \<le> b \<and> b < int NUM_TTL_BANKS"
    using b by (simp add: bank_ok_def)
  obtain v p where "p_ttl_lomask P b (m_p c) = Inr (v, p)" "inv p"
    using get_lo [OF inv b] by blast
  then show "totR (get_ttl_ovrlo (concurrent_get P) b c) (\<lambda>(v, c'). ctrl_same inv c c')"
    using f r by (auto simp: get_ttl_ovrlo_def send_ttl_get_cmd_def concurrent_get_def p_get_def set_observed_def ctrl_same_def)
  obtain v p where "p_ttl_himask P b (m_p c) = Inr (v, p)" "inv p"
    using get_hi [OF inv b] by blast
  then show "totR (get_ttl_ovrhi (concurrent_get P) b c) (\<lambda>(v, c'). ctrl_same inv c c')"
    using f r by (auto simp: get_ttl_ovrhi_def send_ttl_get_cmd_def concurrent_get_def p_get_def set_observed_def ctrl_same_def)
qed

lemma ovr_masks_same:
  assumes "v_P V = P" and "\<forall>b \<in> set banks. b < NUM_TTL_BANKS" and "inv (m_p c)"
  shows "totR (ovr_masks V banks c) (\<lambda>(x, c'). ctrl_same inv c c')"
  using assms(2,3)
proof (induction banks arbitrary: c)
  case Nil
  then show ?case
    by (simp add: ctrl_same_refl)
next
  case (Cons b banks)
  then have b: "bank_ok (int b)"
    by (simp add: bank_ok_def)
  show ?case
    unfolding ovr_masks.simps assms(1)
  proof (rule totR_bind [OF get_ovr_same(1) [OF b Cons.prems(2)]], clarsimp, goal_cases)
    case (1 lo c1)
    show ?case
    proof (rule totR_bind [OF get_ovr_same(2) [OF b ctrl_same_fields(1) [OF 1(2)]]], clarsimp, goal_cases)
      case (1 hi c2)
      note c2 = ctrl_same_trans [OF \<open>ctrl_same inv c c1\<close> 1(2)]
      have "totR (ovr_masks V banks c2) (\<lambda>(x, c'). ctrl_same inv c2 c')"
        by (rule Cons.IH) (use Cons.prems(1) ctrl_same_fields(1) [OF c2] in simp_all)
      then show ?case
        by (rule totR_bind) (auto intro: ctrl_same_trans [OF c2])
    qed
  qed
qed

lemma drop_info_ok:
  assumes V: "v_P V = P" and ok: "refs_ok (add_mset cb M) sv" and cb: "refers i cb" and inv: "inv (m_p (sv_ctrl sv))"
  shows "totR (drop_info V i sv) (\<lambda>sv'. refs_ok M sv' \<and> cb_keeps inv sv sv')"
proof -
  have all: "info_ok (pointers j (add_mset cb M)) (sv_infos sv j)" for j
    using ok by (simp add: refs_ok_def)
  obtain info where info: "sv_infos sv i = Some info" "di_refs info = Suc (pointers i M)" "kind_ok (di_kind info)"
    using all [of i] cb by (auto simp: info_ok_def split: option.splits)
  have others: "refers j cb \<longleftrightarrow> j = i" for j
    using cb by (cases cb) auto
  have rest: "info_ok (pointers j M) (sv_infos sv j)" if "j \<noteq> i" for j
    using all [of j] that others by simp
  show ?thesis
  proof (cases "pointers i M = 0")
    case True
    let ?sv = "sv\<lparr>sv_infos := (sv_infos sv)(i := None)\<rparr>"
    have r: "refs_ok M (send_reply addr msg (?sv\<lparr>sv_ctrl := c\<rparr>))" "refs_ok M (send_reply addr msg ?sv)" for addr msg c
      using rest True ok by (auto simp: refs_ok_def send_reply_def info_ok_def)
    have "totR (destroy_info V info ?sv) (\<lambda>sv'. refs_ok M sv' \<and> cb_keeps inv sv sv')"
    proof (cases "di_kind info")
      case (ReplyRunSeq addr ids banks)
      have "totR (ovr_masks V [0 ..< banks] (sv_ctrl ?sv)) (\<lambda>(x, c'). ctrl_same inv (sv_ctrl sv) c')"
        using ovr_masks_same [OF V, of "[0 ..< banks]" "sv_ctrl sv"] ReplyRunSeq info(3) inv by auto
      then show ?thesis
        unfolding destroy_info_def ReplyRunSeq info_kind.case
        by (rule totR_bind) (use r in \<open>auto simp: cb_keeps_def send_reply_def\<close>)
    qed (use r ctrl_same_refl [of inv, OF inv] in \<open>auto simp: destroy_info_def cb_keeps_def send_reply_def\<close>)
    then show ?thesis
      using info True by (simp add: drop_info_def)
  next
    case False
    let ?sv = "sv\<lparr>sv_infos := (sv_infos sv)(i \<mapsto> info\<lparr>di_refs := di_refs info - 1\<rparr>)\<rparr>"
    have "refs_ok M ?sv"
      using rest False info ok by (auto simp: refs_ok_def info_ok_def)
    then show ?thesis
      using info False ctrl_same_refl [of inv, OF inv] by (auto simp: drop_info_def cb_keeps_def)
  qed
qed

lemma run_callback_ok:
  assumes V: "v_P V = P" and ok: "refs_ok (add_mset cb M) sv" and inv: "inv (m_p (sv_ctrl sv))"
  shows "totR (run_logged V (Callback cb v) sv) (\<lambda>sv'. refs_ok M sv' \<and> cb_keeps inv sv sv')"
proof -
  have drop: "totR (bindR (store_dds i chn v sv) (drop_info V i)) (\<lambda>sv'. refs_ok M sv' \<and> cb_keeps inv sv sv')"
    "totR (drop_info V i sv) (\<lambda>sv'. refs_ok M sv' \<and> cb_keeps inv sv sv')"
    if cb: "refers i cb" for i chn
  proof -
    obtain info where info: "sv_infos sv i = Some info"
      using ok cb by (fastforce simp: refs_ok_def info_ok_def split: option.splits)
    let ?sv = "sv\<lparr>sv_infos := (sv_infos sv)(i \<mapsto> info\<lparr>di_res := push_dds_res chn v (di_res info)\<rparr>)\<rparr>"
    have "refs_ok (add_mset cb M) ?sv"
      using ok info cb unfolding refs_ok_def by (auto simp: info_ok_def split: option.splits)
    from drop_info_ok [OF V this cb] inv
    show "totR (bindR (store_dds i chn v sv) (drop_info V i)) (\<lambda>sv'. refs_ok M sv' \<and> cb_keeps inv sv sv')"
      by (simp add: store_dds_def info cb_keeps_def)
    show "totR (drop_info V i sv) (\<lambda>sv'. refs_ok M sv' \<and> cb_keeps inv sv sv')"
      by (rule drop_info_ok [OF V ok cb inv])
  qed
  show ?thesis
  proof (cases cb)
    case (CB_clock addr)
    then show ?thesis
      using ok inv by (simp add: refs_ok_def cb_keeps_def send_reply_def ctrl_same_refl)
  qed (use drop in simp_all)
qed

lemma run_callbacks_ok:
  assumes V: "v_P V = P" and "refs_ok (mset (map fst calls) + M) sv" and "inv (m_p (sv_ctrl sv))"
  shows "totR (foldR (run_logged V) (map (\<lambda>(cb, v). Callback cb v) calls) sv) (\<lambda>sv'. refs_ok M sv' \<and> cb_keeps inv sv sv')"
  using assms(2,3)
proof (induction calls arbitrary: sv)
  case Nil
  then show ?case
    by (simp add: cb_keeps_def ctrl_same_refl)
next
  case (Cons x calls)
  obtain cb v where x: "x = (cb, v)"
    by fastforce
  have "refs_ok (add_mset cb (mset (map fst calls) + M)) sv"
    using Cons.prems(1) by (simp add: x)
  from run_callback_ok [OF V this Cons.prems(2), of v] show ?case
    unfolding x list.map prod.case foldR.simps
  proof (rule totR_bind, goal_cases)
    case (1 sv1)
    then have "inv (m_p (sv_ctrl sv1))"
      by (auto simp: cb_keeps_def dest: ctrl_same_fields(1))
    then show ?case
      using Cons.IH [of sv1] 1 by (auto simp: totR_def intro: cb_keeps_trans)
  qed
qed

end

end
