(* ===== verification/Server_Total.thy ===== *)
theory Server_Total
  imports Server_Safety
begin

text \<open>
  Every request is handled to its end: what holds of the server between two requests, that every
  handler keeps it, and with them the whole loop of \<^verbatim>\<open>Server::run\<close>.
\<close>

section \<open>Between two requests\<close>

text \<open>
  The queues and stores are in order for both threads, the notification objects and the list of
  sequences agree with the queue, and each shared object counts exactly the closures that point to it,
  those in the cache and those in \<open>X\<close>. \<open>k\<close> is the last id that was given out.
\<close>

definition states_ok ::
  "('q \<Rightarrow> addr list) \<Rightarrow> ReqSeqState list option \<Rightarrow> ('q, 'cb, 'nt, 'p) controller \<Rightarrow> bool" where
  "states_ok pend st c \<longleftrightarrow>
     (case st of None \<Rightarrow> True | Some xs \<Rightarrow> \<exists>n. states_of pend c = xs @ replicate n SeqInit)"

definition srv_core ::
  "('p \<Rightarrow> bool) \<Rightarrow> ('q \<Rightarrow> addr list) \<Rightarrow> ('q \<Rightarrow> addr list) \<Rightarrow> addr option \<Rightarrow> ReqSeqState list option \<Rightarrow> u64 \<Rightarrow> ('q, 'p) server \<Rightarrow> bool" where
  "srv_core I fin pend cur st k sv \<longleftrightarrow>
     m_log (sv_ctrl sv) = [] \<and> both_ok I fin pend cur (sv_ctrl sv) \<and> seqs_ok fin pend (sv_ctrl sv) \<and>
     states_ok pend st (sv_ctrl sv) \<and>
     notified_ok (told_of fin pend (sv_ctrl sv)) sv \<and>
     (\<forall>x \<in> set (told_of fin pend (sv_ctrl sv)). fst (snd x) \<le> k) \<and> m_seq_cnt (sv_ctrl sv) = k"

definition srv_ok ::
  "('p \<Rightarrow> bool) \<Rightarrow> ('q \<Rightarrow> addr list) \<Rightarrow> ('q \<Rightarrow> addr list) \<Rightarrow> addr option \<Rightarrow> ReqSeqState list option \<Rightarrow> scb multiset \<Rightarrow> u64 \<Rightarrow> ('q, 'p) server \<Rightarrow> bool" where
  "srv_ok I fin pend cur st X k sv \<longleftrightarrow>
     srv_core I fin pend cur st k sv \<and> refs_ok (pending (m_cmd_cache (sv_ctrl sv)) + X) sv"

lemma states_ok_cong: "states_of pend c' = states_of pend c \<Longrightarrow> states_ok pend st c' = states_ok pend st c"
  by (simp add: states_ok_def split: option.split)

lemma states_ok_new:
  assumes "states_ok pend st c" and "states_of pend c' = states_of pend c @ [SeqInit]"
  shows "states_ok pend st c'"
proof (cases st)
  case (Some xs)
  then obtain n where "states_of pend c = xs @ replicate n SeqInit"
    using assms(1) by (auto simp: states_ok_def)
  then have "states_of pend c' = xs @ replicate (Suc n) SeqInit"
    using assms(2) by (simp add: replicate_append_same)
  then show ?thesis
    using Some unfolding states_ok_def by (auto intro!: exI [of _ "Suc n"])
qed (simp add: states_ok_def)

lemma srv_core_cb_keeps:
  assumes "srv_core I fin pend cur st k sv" and cb: "cb_keeps I sv sv'"
  shows "srv_core I fin pend cur st k sv'" "m_cmd_cache (sv_ctrl sv') = m_cmd_cache (sv_ctrl sv)"
proof -
  have same: "ctrl_same I (sv_ctrl sv) (sv_ctrl sv')"
    using cb by (simp add: cb_keeps_def)
  note s = ctrl_same_fields [OF same]
  show "m_cmd_cache (sv_ctrl sv') = m_cmd_cache (sv_ctrl sv)"
    by (rule s(3))
  show "srv_core I fin pend cur st k sv'"
    using assms(1) cb s(1,2,4,5) same_seqs_part_told [OF s(4)] notified_statuses [of sv' sv]
      states_ok_cong [OF same_seqs_part_told(3) [OF s(4)]]
    by (simp add: srv_core_def cb_keeps_def same_seqs_part_def)
qed

lemma cb_keeps_srv:
  assumes "totR m (\<lambda>sv'. refs_ok (pending (m_cmd_cache (sv_ctrl sv)) + X) sv' \<and> cb_keeps I sv sv')"
    and "srv_core I fin pend cur st k sv"
  shows "totR m (srv_ok I fin pend cur st X k)"
  using assms(1) by (rule totR_weaken) (use srv_core_cb_keeps [OF assms(2)] in \<open>auto simp: srv_ok_def\<close>)

lemma told_upd:
  "told_of fin pend (c\<lparr>m_log := l\<rparr>) = told_of fin pend c" "seqs_ok fin pend (c\<lparr>m_log := l\<rparr>) = seqs_ok fin pend c"
  "states_ok pend st (c\<lparr>m_log := l\<rparr>) = states_ok pend st c"
  by (simp_all add: told_of_def seqs_ok_def seq_items_def states_ok_def states_of_def split: option.split)

text \<open>Replies, files and names do not matter.\<close>

lemma srv_ok_cong:
  assumes "sv_ctrl sv' = sv_ctrl sv" and "sv_infos sv' = sv_infos sv" and "sv_info_next sv' = sv_info_next sv"
    and "sv_notifies sv' = sv_notifies sv" and "sv_notify_next sv' = sv_notify_next sv"
    and "map ss_id (sv_seq_status sv') = map ss_id (sv_seq_status sv)"
  shows "srv_ok I fin pend cur st X k sv' = srv_ok I fin pend cur st X k sv"
  using assms notified_statuses [of sv' sv] by (simp add: srv_ok_def srv_core_def refs_ok_def)

lemma srv_ok_upd [simp]:
  "srv_ok I fin pend cur st X k (send_reply addr msg sv) = srv_ok I fin pend cur st X k sv"
  "srv_ok I fin pend cur st X k (sv\<lparr>sv_files := fs\<rparr>) = srv_ok I fin pend cur st X k sv"
  "srv_ok I fin pend cur st X k (sv\<lparr>sv_name_id := u\<rparr>) = srv_ok I fin pend cur st X k sv"
  "srv_ok I fin pend cur st X k (sv\<lparr>sv_ttl_names := nc\<rparr>) = srv_ok I fin pend cur st X k sv"
  "srv_ok I fin pend cur st X k (sv\<lparr>sv_dds_names := nc\<rparr>) = srv_ok I fin pend cur st X k sv"
  "srv_ok I fin pend cur st X k (sv\<lparr>sv_running := b\<rparr>) = srv_ok I fin pend cur st X k sv"
  "srv_ok I fin pend cur st X k (sv\<lparr>sv_finished := b\<rparr>) = srv_ok I fin pend cur st X k sv"
  by (rule srv_ok_cong; simp add: send_reply_def)+

lemma srv_okD:
  assumes "srv_ok I fin pend cur st X k sv"
  shows "m_log (sv_ctrl sv) = []" "both_ok I fin pend cur (sv_ctrl sv)" "seqs_ok fin pend (sv_ctrl sv)"
    "notified_ok (told_of fin pend (sv_ctrl sv)) sv" "\<forall>x \<in> set (told_of fin pend (sv_ctrl sv)). fst (snd x) \<le> k"
    "m_seq_cnt (sv_ctrl sv) = k" "refs_ok (pending (m_cmd_cache (sv_ctrl sv)) + X) sv" "I (m_p (sv_ctrl sv))"
    "states_ok pend st (sv_ctrl sv)"
  using assms both_ok_inv [of I fin pend cur "sv_ctrl sv"] by (auto simp: srv_ok_def srv_core_def Let_def)

definition env_fits :: "'p pulser_ops \<Rightarrow> ('q \<Rightarrow> addr list) \<Rightarrow> ('q \<Rightarrow> addr list) \<Rightarrow> ('q, 'p) srv_env \<Rightarrow> bool" where
  "env_fits P fin pend V \<longleftrightarrow> v_P V = P \<and> fqueue_laws (v_Q V) fin pend"

text \<open>One more pointer to an object, and a new object.\<close>

lemma refs_live:
  assumes "refs_ok (M + N) sv" and "cb \<in># M + N" and "refers i cb"
  shows "\<exists>info. sv_infos sv i = Some info"
proof -
  obtain K where "M + N = add_mset cb K"
    using assms(2) by (metis insert_DiffM)
  then have "pointers i (M + N) \<noteq> 0"
    using assms(3) by (simp del: pointers_simps(2))
  then show ?thesis
    using assms(1) unfolding refs_ok_def info_ok_def by (cases "sv_infos sv i") (auto dest: spec [of _ i])
qed

lemma refs_more:
  assumes "refs_ok M sv" and "sv_infos sv i = Some info" and "\<forall>j. refers j cb \<longleftrightarrow> j = i"
      shows "refs_ok (add_mset cb M) (sv\<lparr>sv_infos := (sv_infos sv)(i \<mapsto> info\<lparr>di_refs := Suc (di_refs info)\<rparr>)\<rparr>)"
proof -
  have all: "info_ok (pointers j M) (sv_infos sv j)" for j
    using assms(1) by (simp add: refs_ok_def)
  have "info_ok (pointers j (add_mset cb M)) (((sv_infos sv)(i \<mapsto> info\<lparr>di_refs := Suc (di_refs info)\<rparr>)) j)" for j
    using all [of j] assms(2,3) by (cases "j = i") (simp_all add: info_ok_def)
  moreover have "i < sv_info_next sv"
    using assms(1,2) unfolding refs_ok_def by (metis linorder_not_less option.distinct(1))
  ultimately show ?thesis
    using assms(1) by (simp add: refs_ok_def)
qed

lemma refs_new:
  assumes "refs_ok M sv" and kind: "kind_ok kind" and cb: "\<forall>j. refers j cb \<longleftrightarrow> j = sv_info_next sv"
  shows "refs_ok (add_mset cb M) (sv\<lparr>sv_infos := (sv_infos sv)(sv_info_next sv \<mapsto>
     \<lparr>di_kind = kind, di_res = [], di_refs = 1\<rparr>), sv_info_next := Suc (sv_info_next sv)\<rparr>)"
proof -
  have all: "info_ok (pointers j M) (sv_infos sv j)" for j
    using assms(1) by (simp add: refs_ok_def)
  have "pointers (sv_info_next sv) M = 0"
    using all [of "sv_info_next sv"] assms(1) by (simp add: refs_ok_def info_ok_def)
  then show ?thesis
    using all assms by (auto simp: refs_ok_def info_ok_def)
qed

section \<open>Calls of the controller\<close>

context frontend_port
begin

text \<open>The callbacks that an operation calls give up their pointers, those it is given keep theirs.\<close>

lemma run_log_ok:
  assumes V: "env_fits P fin pend V" and ok: "srv_ok inv fin pend cur st (new + X) k sv"
    and c: "op_post inv fin pend new (sv_ctrl sv) c"
  shows "totR (foldR (run_logged V) (m_log c) (sv\<lparr>sv_ctrl := c\<lparr>m_log := []\<rparr>\<rparr>)) (srv_ok inv fin pend cur st X k)"
proof -
  note sv = srv_okD [OF ok]
  let ?sv = "sv\<lparr>sv_ctrl := c\<lparr>m_log := []\<rparr>\<rparr>"
  obtain calls where calls: "m_log c = map (\<lambda>(cb, v). Callback cb v) calls"
    "pending (m_cmd_cache c) + mset (map fst calls) = pending (m_cmd_cache (sv_ctrl sv)) + new"
    using c sv(1) by (auto simp: op_post_def)
  have seqs: "same_seqs_part (sv_ctrl sv) c" and both: "both_ok inv fin pend cur c"
    using c sv(2) by (simp_all add: op_post_def)
  have "mset (map fst calls) + (pending (m_cmd_cache c) + X) = pending (m_cmd_cache (sv_ctrl sv)) + (new + X)"
    using calls(2) by (simp add: ac_simps)
  then have "refs_ok (mset (map fst calls) + (pending (m_cmd_cache c) + X)) sv"
    using sv(7) by (simp only:)
  then have "refs_ok (mset (map fst calls) + (pending (m_cmd_cache c) + X)) ?sv"
    by (simp add: refs_ok_def)
  moreover have "inv (m_p (sv_ctrl ?sv))"
    using both_ok_inv [OF both] by simp
  ultimately have "totR (foldR (run_logged V) (m_log c) ?sv) (\<lambda>sv'. refs_ok (pending (m_cmd_cache c) + X) sv' \<and> cb_keeps inv ?sv sv')"
    unfolding calls(1) using V by (intro run_callbacks_ok) (simp_all add: env_fits_def)
  moreover have "srv_core inv fin pend cur st k ?sv"
    using sv both same_seqs_part_told [OF seqs] seqs notified_statuses [of ?sv sv]
      states_ok_cong [OF same_seqs_part_told(3) [OF seqs]]
    by (simp add: srv_core_def same_seqs_part_def told_upd)
  ultimately show ?thesis
    by (intro cb_keeps_srv [where sv = ?sv]) simp_all
qed

lemma ctrl_get_ok:
  assumes V: "env_fits P fin pend V" and ok: "srv_ok inv fin pend cur st (new + X) k sv"
    and f: "totR (f (sv_ctrl sv)) (\<lambda>(x, c). op_post inv fin pend new (sv_ctrl sv) c)"
  shows "totR (ctrl_get V f sv) (\<lambda>(x, sv'). srv_ok inv fin pend cur st X k sv')"
  unfolding ctrl_get_def
proof (rule totR_bind [OF f], clarsimp, goal_cases)
  case (1 x c)
  show ?case
    by (rule totR_bind [OF run_log_ok [OF V ok 1(2)]]) simp
qed

lemma ctrl_do_ok:
  assumes V: "env_fits P fin pend V" and ok: "srv_ok inv fin pend cur st (new + X) k sv"
    and f: "totR (f (sv_ctrl sv)) (op_post inv fin pend new (sv_ctrl sv))"
  shows "totR (ctrl_do V f sv) (srv_ok inv fin pend cur st X k)"
  unfolding ctrl_do_def
proof (rule totR_bind [OF ctrl_get_ok [OF V ok]])
  show "totR (bindR (f (sv_ctrl sv)) (\<lambda>c'. Inr ((), c'))) (\<lambda>(x, c). op_post inv fin pend new (sv_ctrl sv) c)"
    by (rule totR_bind [OF f]) simp
qed auto

lemmas ctrl_get_quiet = ctrl_get_ok [where new = "{#}", simplified]
lemmas ctrl_do_quiet = ctrl_do_ok [where new = "{#}", simplified]

section \<open>The DDS channels\<close>

lemma chn_range: "dds_chn_ok chn \<Longrightarrow> 0 \<le> uint (chn AND 0x3f) \<and> uint (chn AND 0x3f) < 22"
  by (simp add: dds_chn_ok_def word_less_def)

lemma ask_dds_ok:
  assumes V: "env_fits P fin pend V" and ok: "srv_ok inv fin pend cur st ({#CB_dds i 0#} + X) k sv" and chn: "dds_chn_ok chn"
  shows "totR (ask_dds V i is_ovr chn sv) (srv_ok inv fin pend cur st ({#CB_dds i 0#} + X) k)"
proof -
  note sv = srv_okD [OF ok] and r = chn_range [OF chn]
  let ?c = "sv_ctrl sv"
  obtain info where info: "sv_infos sv i = Some info"
    using refs_live [OF sv(7), of "CB_dds i 0"] by auto
  let ?sv = "sv\<lparr>sv_infos := (sv_infos sv)(i \<mapsto> info\<lparr>di_refs := Suc (di_refs info)\<rparr>)\<rparr>"
  have step: "totR (ctrl_do V f ?sv) (srv_ok inv fin pend cur st ({#CB_dds i 0#} + X) k)"
    if f: "totR (f ?c) (op_post inv fin pend {#cb#} ?c)" and cb: "\<forall>j. refers j cb \<longleftrightarrow> j = i" for f cb
  proof (rule ctrl_do_ok [OF V])
    have "refs_ok (pending (m_cmd_cache ?c) + ({#cb#} + ({#CB_dds i 0#} + X))) ?sv"
      using refs_more [OF sv(7) info, of cb] cb by (simp add: ac_simps add_mset_commute)
    then show "srv_ok inv fin pend cur st ({#cb#} + ({#CB_dds i 0#} + X)) k ?sv"
      using ok notified_statuses [of ?sv sv] by (simp add: srv_ok_def srv_core_def)
  qed (use f in simp)
  have laws: "fqueue_laws (v_Q V) fin pend" "v_P V = P"
    using V by (simp_all add: env_fits_def)
  note get = get_dds_post [OF laws(1) chn_op_dds [OF chn], of "uint (chn AND 0x3f)" P _ ?c inv]
  show ?thesis
    using step [of "get_dds_ovr (v_Q V) (concurrent_get (v_P V)) (chn_op chn) (uint (chn AND 0x3f)) (CB_ovr i chn)" "CB_ovr i chn"]
      step [of "get_dds (v_Q V) (concurrent_get (v_P V)) (chn_op chn) (uint (chn AND 0x3f)) (CB_dds i chn)" "CB_dds i chn"]
      get r laws(2) info by (simp add: ask_dds_def Let_def)
qed

lemma ask_all_ok:
  assumes V: "env_fits P fin pend V" and ok: "srv_ok inv fin pend cur st X k sv" and chns: "list_all dds_chn_ok chns"
    and kind: "kind_ok kind"
  shows "totR (ask_all V kind is_ovr chns sv) (srv_ok inv fin pend cur st X k)"
proof -
  note sv = srv_okD [OF ok]
  let ?i = "sv_info_next sv"
  let ?sv = "sv\<lparr>sv_infos := (sv_infos sv)(?i \<mapsto> \<lparr>di_kind = kind, di_res = [], di_refs = 1\<rparr>), sv_info_next := Suc ?i\<rparr>"
  let ?ok = "srv_ok inv fin pend cur st ({#CB_dds ?i 0#} + X) k"
  have "refs_ok (pending (m_cmd_cache (sv_ctrl sv)) + ({#CB_dds ?i 0#} + X)) ?sv"
    using refs_new [OF sv(7) kind, of "CB_dds (sv_info_next sv) 0"] by simp
  then have start: "?ok ?sv"
    using ok notified_statuses [of ?sv sv] by (simp add: srv_ok_def srv_core_def)
  have ask: "totR (foldR (ask_dds V ?i is_ovr) cs sv') ?ok" if "list_all dds_chn_ok cs" "?ok sv'" for cs sv'
    using that
  proof (induction cs arbitrary: sv')
    case (Cons chn cs)
    show ?case
      unfolding foldR.simps by (rule totR_bind [OF ask_dds_ok [OF V Cons.prems(2)]]) (use Cons in simp_all)
  qed simp
  show ?thesis
    unfolding ask_all_def Let_def
  proof (rule totR_bind [OF ask [OF chns start]], goal_cases)
    case (1 sv1)
    note sv1 = srv_okD [OF 1(2)]
    have "totR (drop_info V ?i sv1) (\<lambda>sv'. refs_ok (pending (m_cmd_cache (sv_ctrl sv1)) + X) sv' \<and> cb_keeps inv sv1 sv')"
      by (rule drop_info_ok [where cb = "CB_dds ?i 0"]) (use V sv1 in \<open>simp_all add: env_fits_def\<close>)
    then show ?case
      by (rule cb_keeps_srv) (use 1(2) in \<open>simp add: srv_ok_def\<close>)
  qed
qed

end

section \<open>New sequences\<close>

lemma read_ttl_masks_ok:
  assumes "read_ttl_masks ver bs = Inr (banks, masks, code)"
  shows "length masks = NUM_TTL_BANKS" and "unat banks \<le> NUM_TTL_BANKS"
proof -
  have len: "n \<le> NUM_TTL_BANKS \<Longrightarrow> length (masks_of n xs) = NUM_TTL_BANKS" for n xs
    by (simp add: masks_of_def)
  have b: "unat b \<le> NUM_TTL_BANKS" if "\<not> (b :: u32) > of_nat NUM_TTL_BANKS" for b
    using that by (simp add: not_less word_le_nat_alt NUM_TTL_BANKS_def)
  have one: "1 \<le> NUM_TTL_BANKS"
    by (simp add: NUM_TTL_BANKS_def)
  show "length masks = NUM_TTL_BANKS" "unat banks \<le> NUM_TTL_BANKS"
    using assms len [OF one] len b one by (auto simp: read_ttl_masks_def Let_def split: if_splits)
qed

lemma parse_ok:
  "parse_run_seq p1 p2 = Some (ver, h) \<Longrightarrow>
     length (sh_masks h) = NUM_TTL_BANKS \<and> valid_ver ver \<and> unat (sh_banks h) \<le> NUM_TTL_BANKS"
  "parse_startup str = Some (ver, h) \<Longrightarrow> length (sh_masks h) = NUM_TTL_BANKS \<and> valid_ver ver"
  using read_ttl_masks_ok
  by (auto simp: parse_run_seq_def parse_startup_def Let_def split: option.splits if_splits sum.splits)

text \<open>A sequence with a notification object of its own, and perhaps an entry in the list.\<close>

lemma notified_new:
  assumes ok: "notified_ok L sv" and i: "\<forall>x \<in> set L. fst (snd x) \<noteq> i"
    and n: "sv_notifies sv' = (sv_notifies sv)(sv_notify_next sv \<mapsto> kind)" "sv_notify_next sv' = Suc (sv_notify_next sv)"
    and st: "kind = StartupNotify \<and> map ss_id (sv_seq_status sv') = map ss_id (sv_seq_status sv) \<or>
      kind = SeqNotify i \<and> map ss_id (sv_seq_status sv') = map ss_id (sv_seq_status sv) @ [i]"
  shows "notified_ok (L @ [(sv_notify_next sv, i, SeqInit)]) sv'"
proof -
  let ?n = "sv_notify_next sv"
  have ids: "ss_id ` set (sv_seq_status sv') = ss_id ` set (sv_seq_status sv) \<union> (if kind = StartupNotify then {} else {i})"
  proof -
    have "set (map ss_id (sv_seq_status sv')) = set (map ss_id (sv_seq_status sv)) \<union> (if kind = StartupNotify then {} else {i})"
      using st by (auto simp del: set_map)
    then show ?thesis
      by simp
  qed
  have old: "told_ok sv x" "fst x < ?n" if "x \<in> set L" for x
    using ok that by (cases x; auto simp: notified_ok_def told_ok_def)+
  have i': "i \<notin> ss_id ` set (sv_seq_status sv)"
  proof -
    have "i \<notin> (fst \<circ> snd) ` set L"
      using i by auto
    then show ?thesis
      using ok unfolding notified_ok_def by blast
  qed
  have "told_ok sv' x" if x: "x \<in> set L" for x
    using old [OF x] i x n ids by (cases x) (auto simp: told_ok_def less_SucI)
  moreover have "told_ok sv' (?n, i, SeqInit)"
    using n ids st i' by (auto simp: told_ok_def over_def)
  moreover have "distinct (map ss_id (sv_seq_status sv'))"
    using ok st i' by (auto simp: notified_ok_def)
  moreover have "?n \<notin> fst ` set L" "i \<notin> (fst \<circ> snd) ` set L"
    using old i by (fastforce, fastforce)
  moreover have "ss_id ` set (sv_seq_status sv') \<subseteq> insert i ((fst \<circ> snd) ` set L)"
    using ok ids by (auto simp: notified_ok_def)
  ultimately show ?thesis
    using ok by (auto simp: notified_ok_def)
qed

abbreviation new_seq ::
  "('q, 'p) srv_env \<Rightarrow> bool \<Rightarrow> u32 \<Rightarrow> seq_header \<Rightarrow> nat \<Rightarrow> ('q, 'p) server \<Rightarrow> (u64 \<times> ('q, 'p) server) result" where
  "new_seq V is_cmd ver h n \<equiv>
     ctrl_get V (\<lambda>c. Inr (seq_run_code (v_Q V) is_cmd ver (sh_len_ns h) (sh_masks h) (sh_code h) n c))"

lemma new_seq_ok:
  assumes V: "env_fits P fin pend V" and ok: "srv_ok I fin pend cur st X k sv" and h: "length (sh_masks h) = NUM_TTL_BANKS" "valid_ver ver"
    and k: "k \<noteq> -1" and kind: "kind = StartupNotify \<and> sts = (\<lambda>_. []) \<or>
      kind = SeqNotify (-1) \<and> sts = (\<lambda>i. [\<lparr>ss_id = i, ss_wait = [], ss_flushed = False\<rparr>])"
  shows "totR (new_seq V is_cmd ver h (sv_notify_next sv)
       (sv\<lparr>sv_notifies := (sv_notifies sv)(sv_notify_next sv \<mapsto> kind), sv_notify_next := Suc (sv_notify_next sv)\<rparr>))
     (\<lambda>(i, sv'). srv_ok I fin pend cur st X (k + 1) (sv'\<lparr>sv_seq_status := sv_seq_status sv' @ sts i\<rparr>))"
proof -
  note sv = srv_okD [OF ok]
  let ?n = "sv_notify_next sv"
  let ?sv = "sv\<lparr>sv_notifies := (sv_notifies sv)(?n \<mapsto> kind), sv_notify_next := Suc ?n\<rparr>"
  obtain i c where r: "seq_run_code (v_Q V) is_cmd ver (sh_len_ns h) (sh_masks h) (sh_code h) ?n (sv_ctrl sv) = (i, c)"
    by fastforce
  have laws: "fqueue_laws (v_Q V) fin pend"
    using V by (simp add: env_fits_def)
  note q = seq_run_code_ok [OF laws sv(3) h r]
  have i: "i = k + 1"
    using q(1) sv(6) by simp
  let ?kind = "if kind = StartupNotify then kind else SeqNotify i"
  let ?sv' = "sv\<lparr>sv_ctrl := c\<lparr>m_log := []\<rparr>, sv_notifies := (sv_notifies sv)(?n \<mapsto> ?kind), sv_notify_next := Suc ?n\<rparr>"
  have run: "new_seq V is_cmd ver h ?n ?sv = Inr (i, ?sv')"
    using kind r q(5) sv(1) by (auto simp: ctrl_get_def notify_set_id_def)
  have less: "x < k + 1" if "x \<le> k" for x
  proof -
    have "1 + k \<noteq> 0"
      using k by (simp add: add_eq_0_iff)
    then show ?thesis
      using that unatSuc [of k] by (simp add: word_less_nat_alt word_le_nat_alt add.commute)
  qed
  have "\<forall>x \<in> set (told_of fin pend (sv_ctrl sv)). fst (snd x) < i"
    using sv(5) less i by blast
  then have "\<forall>x \<in> set (told_of fin pend (sv_ctrl sv)). fst (snd x) \<noteq> i"
    by auto
  from notified_new [OF sv(4) this, of "?sv'\<lparr>sv_seq_status := sv_seq_status sv @ sts i\<rparr>" ?kind]
  have "notified_ok (told_of fin pend c) (?sv'\<lparr>sv_seq_status := sv_seq_status sv @ sts i\<rparr>)"
    using kind q(3) by auto
  moreover have "\<forall>x \<in> set (told_of fin pend c). fst (snd x) \<le> k + 1"
    using q(3) sv(5) less i by (auto intro: less_imp_le)
  ultimately show ?thesis
    using run q sv i states_ok_new [OF sv(9) q(9)] by (simp add: srv_ok_def srv_core_def told_upd refs_ok_def)
qed

section \<open>The requests\<close>

text \<open>What is left after a request was handled or refused; a new sequence has got the next id.\<close>

abbreviation handled_ok ::
  "('p \<Rightarrow> bool) \<Rightarrow> ('q \<Rightarrow> addr list) \<Rightarrow> ('q \<Rightarrow> addr list) \<Rightarrow> addr option \<Rightarrow> ReqSeqState list option \<Rightarrow> u64 \<Rightarrow> bool \<times> ('q, 'p) server \<Rightarrow> bool" where
  "handled_ok I fin pend cur st k \<equiv> (\<lambda>(b, sv). srv_ok I fin pend cur st {#} k sv)"

lemma handled_simps [simp]:
  "totR (accept addr msg sv) (handled_ok I fin pend cur st k) = srv_ok I fin pend cur st {#} k sv"
  "totR (reject sv) (handled_ok I fin pend cur st k) = srv_ok I fin pend cur st {#} k sv"
  by (simp_all add: accept_def reject_def)

lemma handled_bind:
  "totR m (srv_ok I fin pend cur st {#} k) \<Longrightarrow> totR (bindR m (\<lambda>sv'. Inr (True, sv'))) (handled_ok I fin pend cur st k)"
  "totR m (srv_ok I fin pend cur st {#} k) \<Longrightarrow> totR (bindR m (accept addr msg)) (handled_ok I fin pend cur st k)"
  by (rule totR_bind, assumption, simp)+

lemma handled_reply:
  assumes "totR m (handled_ok I fin pend cur st k)"
  shows "totR (bindR m (\<lambda>(ok, sv'). if ok then accept addr msg sv' else reject sv')) (handled_ok I fin pend cur st k)"
  by (rule totR_bind [OF assms]) auto

lemma srv_ok_clock [simp]: "srv_ok I fin pend cur st (add_mset (CB_clock addr) X) k sv = srv_ok I fin pend cur st X k sv"
  by (simp add: srv_ok_def refs_ok_def)

lemma process_set_startup_ok:
  "srv_ok I fin pend cur st X k sv \<Longrightarrow> srv_ok I fin pend cur st X k (process_set_startup V addr msg sv)"
  by (auto simp: process_set_startup_def Let_def split: sum.split)

lemma req_set_names_ok:
  assumes ok: "srv_ok I fin pend cur st {#} k sv" and upd: "\<And>nc. srv_ok I fin pend cur st {#} k (upd nc sv) = srv_ok I fin pend cur st {#} k sv"
  shows "totR (req_set_names V get upd addr arg sv) (handled_ok I fin pend cur st k)"
proof -
  have "totR (process_set_names V msg get upd sv) (handled_ok I fin pend cur st k)" for msg
    using ok upd by (auto simp: process_set_names_def Let_def split: prod.split)
  then show ?thesis
    using ok unfolding req_set_names_def by (auto split: option.split intro: handled_reply)
qed

text \<open>
  The requests for TTL channels name a bank that the server does not check, and \<^verbatim>\<open>reset_dds\<close> a channel that
  is negative if \<^verbatim>\<open>char\<close> is signed and its high bit is set.
\<close>

definition safe_request :: "('q, 'p) srv_env \<Rightarrow> bytes list \<Rightarrow> bool" where
  "safe_request V parts \<longleftrightarrow>
     (case (msg_part parts 0, msg_part parts 1) of
        (Some cmd, Some arg) \<Rightarrow>
          (\<forall>b. v_match V cmd ''override_ttl'' \<and> msg_bank arg 3 = Some b \<longrightarrow> bank_ok b) \<and>
          (\<forall>b. v_match V cmd ''set_ttl'' \<and> msg_bank arg 2 = Some b \<longrightarrow> bank_ok b) \<and>
          (v_match V cmd ''reset_dds'' \<and> v_char_signed V \<longrightarrow> (\<forall>b. arg = [b] \<longrightarrow> 0 \<le> sint b))
      | _ \<Rightarrow> True)"

text \<open>
  What the worker may do while the server waits: it moves requests and sequences to the finished ones, stores results and
  the states of sequences, and works with the pulser.
\<close>

definition worker_step ::
  "('p \<Rightarrow> bool) \<Rightarrow> ('q \<Rightarrow> addr list) \<Rightarrow> ('q \<Rightarrow> addr list) \<Rightarrow> ('q, 'cb, 'nt, 'p) controller
    \<Rightarrow> ('q, 'cb, 'nt, 'p) controller \<Rightarrow> bool" where
  "worker_step I fin pend c c' \<longleftrightarrow> m_log c' = m_log c \<and> m_cmd_cache c' = m_cmd_cache c \<and> m_seq_cnt c' = m_seq_cnt c \<and>
     told_of fin pend c' = told_of fin pend c \<and> (seqs_ok fin pend c \<longrightarrow> seqs_ok fin pend c') \<and>
     (both_ok I fin pend None c \<longrightarrow> both_ok I fin pend None c')"

lemma srv_ok_worker:
  assumes "srv_ok I fin pend None None X k sv" and "worker_step I fin pend (sv_ctrl sv) c"
  shows "srv_ok I fin pend None None X k (sv\<lparr>sv_ctrl := c\<rparr>)"
  using assms notified_statuses [of "sv\<lparr>sv_ctrl := c\<rparr>" sv]
  by (simp add: srv_ok_def srv_core_def worker_step_def refs_ok_def states_ok_def)

context frontend_port
begin

lemma req_run_seq_ok:
  assumes V: "env_fits P fin pend V" and ok: "srv_ok inv fin pend cur st {#} k sv" and k: "k \<noteq> -1"
  shows "totR (process_run_seq V is_cmd addr p1 p2 sv)
     (\<lambda>x. handled_ok inv fin pend cur st k x \<or> handled_ok inv fin pend cur st (k + 1) x)"
proof (cases "parse_run_seq p1 p2")
  case None
  then show ?thesis
    using ok by (simp add: process_run_seq_def reject_def)
next
  case (Some x)
  obtain ver h where x: "x = (ver, h)"
    by fastforce
  note h = parse_ok(1) [OF Some [unfolded x]]
  let ?st = "\<lambda>i. [\<lparr>ss_id = i, ss_wait = [], ss_flushed = False\<rparr>]"
  have P: "v_P V = P"
    using V by (simp add: env_fits_def)
  have h3: "length (sh_masks h) = NUM_TTL_BANKS" "valid_ver ver"
    and kind: "SeqNotify (-1) = StartupNotify \<and> ?st = (\<lambda>_. []) \<or> SeqNotify (-1) = SeqNotify (-1) \<and> ?st = ?st"
    using h by simp_all
  have "totR (process_run_seq V is_cmd addr p1 p2 sv) (handled_ok inv fin pend cur st (k + 1))"
    unfolding process_run_seq_def Some x option.case prod.case Let_def
  proof (rule totR_bind [OF new_seq_ok [OF V ok h3 k kind]], goal_cases)
    case (1 y)
    obtain i sv2 where y: "y = (i, sv2)"
      by fastforce
    let ?sv = "sv2\<lparr>sv_seq_status := sv_seq_status sv2 @ ?st i\<rparr>"
    have sv3: "srv_ok inv fin pend cur st {#} (k + 1) ?sv"
      using 1(2) by (simp add: y)
    have "totR (ctrl_get V (has_ttl_ovr (v_P V)) ?sv) (\<lambda>(b, sv'). srv_ok inv fin pend cur st {#} (k + 1) sv')"
      by (rule ctrl_get_quiet [OF V sv3]) (unfold P, rule has_ttl_ovr_post, rule srv_okD(8) [OF sv3])
    then have "is_cmd \<Longrightarrow> ?case"
      unfolding y prod.case by (simp only: if_True, elim totR_bind) auto
    moreover have "totR (get_override_dds V (ReplyRunSeq addr (seq_id_msg (sv_id ?sv) i) (unat (sh_banks h))) ?sv)
        (srv_ok inv fin pend cur st {#} (k + 1))"
      unfolding get_override_dds_def
      by (rule ask_all_ok [OF V sv3]) (use h in \<open>auto simp: list_all_iff active_dds_ok\<close>)
    then have "\<not> is_cmd \<Longrightarrow> ?case"
      unfolding y prod.case by (simp only: if_False) (rule handled_bind)
    ultimately show ?case
      by blast
  qed
  then show ?thesis
    by (rule totR_weaken) simp
qed

lemma req_set_dds_ok:
  assumes V: "env_fits P fin pend V" and ok: "srv_ok inv fin pend cur st {#} k sv"
  shows "totR (req_set_dds V is_ovr addr arg sv) (handled_ok inv fin pend cur st k)"
proof -
  have laws: "fqueue_laws (v_Q V) fin pend" and P: "v_P V = P"
    using V by (simp_all add: env_fits_def)
  let ?f = "\<lambda>(chn, val). let op = dds_ops ! unat (drop_bit 6 chn); c = uint (chn AND 0x3f)
      in ctrl_do V (if is_ovr then set_dds_ovr (v_Q V) (concurrent_set (v_P V)) op c val
                    else set_dds (v_Q V) (concurrent_set (v_P V)) op c val)"
  have "totR (foldR ?f es sv) (srv_ok inv fin pend cur st {#} k)" if "list_all (\<lambda>(chn, val). dds_chn_ok chn) es" for es
    using that ok
  proof (induction es arbitrary: sv)
    case (Cons e es)
    obtain chn val where e: "e = (chn, val)"
      by fastforce
    then have chn: "dds_chn_ok chn"
      using Cons.prems by simp
    have "totR (?f e sv) (srv_ok inv fin pend cur st {#} k)"
      unfolding e prod.case Let_def
      by (rule ctrl_do_quiet [OF V Cons.prems(2)])
        (use chn_range [OF chn] in \<open>simp add: P set_dds_post [OF laws chn_op_dds [OF chn]]\<close>)
    then show ?case
      unfolding foldR.simps by (rule totR_bind) (use Cons in simp)
  qed simp
  moreover have "list_all (\<lambda>(chn, val). dds_chn_ok chn) es"
    if "list_all (\<lambda>(chn, val). dds_chn_ok chn \<and> (is_ovr \<or> val \<noteq> -1)) es" for es
    using that by (auto simp: list_all_iff)
  ultimately have "totR (process_set_dds V msg is_ovr sv) (handled_ok inv fin pend cur st k)" for msg
    using ok unfolding process_set_dds_def by (auto simp: reject_def intro: handled_bind)
  then show ?thesis
    using ok unfolding req_set_dds_def by (auto split: option.split intro: handled_reply)
qed

lemma req_cancel_seq_ok:
  assumes V: "env_fits P fin pend V" and ok: "srv_ok inv fin pend cur st {#} k sv"
  shows "totR (req_cancel_seq V addr arg sv) (handled_ok inv fin pend cur st k)"
proof -
  note sv = srv_okD [OF ok]
  have laws: "fqueue_laws (v_Q V) fin pend"
    using V by (simp add: env_fits_def)
  have "totR (bindR (ctrl_get V (cancel_seq (v_Q V) i) sv) (\<lambda>(res, sv'). accept addr [of_bool (\<not> res)] sv'))
      (handled_ok inv fin pend cur st k)" for i
  proof (rule totR_bind)
    show "totR (ctrl_get V (cancel_seq (v_Q V) i) sv) (\<lambda>(b, sv'). srv_ok inv fin pend cur st {#} k sv')"
      unfolding ctrl_get_def
    proof (rule totR_bind [OF cancel_seq_ok [OF laws sv(3), of i inv]], clarsimp, goal_cases)
      case (1 b c)
      then have "states_ok pend st c"
        using sv(9) states_ok_cong [of pend c "sv_ctrl sv" st] by simp
      then show ?case
        using 1 sv notified_statuses [of "sv\<lparr>sv_ctrl := c\<lparr>m_log := []\<rparr>\<rparr>" sv]
        by (simp add: srv_ok_def srv_core_def told_upd refs_ok_def)
    qed
  qed auto
  then show ?thesis
    using ok by (auto simp: req_cancel_seq_def Let_def split: option.split)
qed

lemma req_state_id_ok:
  assumes V: "env_fits P fin pend V" and ok: "srv_ok inv fin pend cur st {#} k sv"
  shows "totR (req_state_id V addr sv) (handled_ok inv fin pend cur st k)"
proof -
  have "op_post inv fin pend {#} c c'" if "get_state_id (v_Q V) c = (i, c')" for i and c c' :: "('a, scb, nat, 'p) controller"
    by (rule op_post_same) (use that in \<open>auto simp: get_state_id_def same_seqs_part_def Let_def split: prod.splits if_splits\<close>)
  then have "totR (ctrl_get V (\<lambda>c. Inr (get_state_id (v_Q V) c)) sv) (\<lambda>(i, sv'). srv_ok inv fin pend cur st {#} k sv')"
    by (intro ctrl_get_quiet [OF V ok]) (auto split: prod.split)
  then show ?thesis
    unfolding req_state_id_def by (rule totR_bind) auto
qed

lemma req_wait_seq_ok:
  assumes "srv_ok I fin pend cur st {#} k sv"
  shows "totR (req_wait_seq addr arg sv) (handled_ok I fin pend cur st k)"
proof -
  have "srv_ok I fin pend cur st {#} k (sv\<lparr>sv_seq_status := update_status i (\<lambda>st. [st\<lparr>ss_wait := ss_wait st @ ws\<rparr>]) sts\<rparr>)"
    if "sv_seq_status sv = sts" for i ws sts
    by (subst srv_ok_cong [where sv = sv])
      (use assms that update_status_ids [of "\<lambda>st. st\<lparr>ss_wait := ss_wait st @ ws\<rparr>" i] in simp_all)
  then show ?thesis
    using assms by (simp add: req_wait_seq_def Let_def del: update_status.simps split: option.split list.split)
qed

lemma req_ttl_ok:
  assumes V: "env_fits P fin pend V" and ok: "srv_ok inv fin pend cur st {#} k sv"
  shows "(\<And>msg b. arg = Some msg \<Longrightarrow> msg_bank msg 3 = Some b \<Longrightarrow> bank_ok b) \<Longrightarrow>
      totR (req_override_ttl V addr arg sv) (handled_ok inv fin pend cur st k)"
    and "(\<And>msg b. arg = Some msg \<Longrightarrow> msg_bank msg 2 = Some b \<Longrightarrow> bank_ok b) \<Longrightarrow>
      totR (req_set_ttl V addr arg sv) (handled_ok inv fin pend cur st k)"
proof -
  have laws: "fqueue_laws (v_Q V) fin pend" and P: "v_P V = P"
    using V by (simp_all add: env_fits_def)
  have get: "totR (ctrl_get V (get_ttl (concurrent_get (v_P V)) b) sv) (\<lambda>(v, sv'). srv_ok inv fin pend cur st {#} k sv')"
    "totR (ctrl_get V (get_ttl_ovrlo (concurrent_get (v_P V)) b) sv) (\<lambda>(v, sv'). srv_ok inv fin pend cur st {#} k sv')"
    "totR (ctrl_get V (get_ttl_ovrhi (concurrent_get (v_P V)) b) sv) (\<lambda>(v, sv'). srv_ok inv fin pend cur st {#} k sv')"
    if "bank_ok b" "srv_ok inv fin pend cur st {#} k sv" for b sv
    using get_ttl_post [OF that(1) srv_okD(8) [OF that(2)]] by (auto simp: P intro: ctrl_get_quiet [OF V that(2)])
  have set: "totR (ctrl_do V (set_ttl (v_Q V) (concurrent_set (v_P V)) b msk v) sv) (srv_ok inv fin pend cur st {#} k)"
    if "bank_ok b" "srv_ok inv fin pend cur st {#} k sv" for b msk v sv
    unfolding P by (rule ctrl_do_quiet [OF V that(2)]) (rule set_ttl_post [OF laws that(1)])
  have ovr: "totR (ctrl_do V (set_ttl_ovr (v_Q V) (concurrent_set (v_P V)) b msk (int i)) sv) (srv_ok inv fin pend cur st {#} k)"
    if "bank_ok b" "i = 0 \<or> i = 1 \<or> i = 2" "srv_ok inv fin pend cur st {#} k sv" for b msk i sv
    unfolding P by (rule ctrl_do_quiet [OF V that(3)], rule set_ttl_ovr_post [OF that(1) srv_okD(8) [OF that(3)]])
      (use that(2) in auto)
  have ovrs: "totR (foldR (\<lambda>i. ctrl_do V (set_ttl_ovr (v_Q V) (concurrent_set (v_P V)) b (msg_mask msg i) (int i))) is sv)
      (srv_ok inv fin pend cur st {#} k)" if "bank_ok b" "set is \<subseteq> {0, 1, 2}" "srv_ok inv fin pend cur st {#} k sv" for b msg "is" sv
    using that(2,3)
  proof (induction "is" arbitrary: sv)
    case (Cons i "is")
    show ?case
      unfolding foldR.simps by (rule totR_bind [OF ovr [OF that(1)]]) (use Cons in auto)
  qed simp
  show "totR (req_override_ttl V addr arg sv) (handled_ok inv fin pend cur st k)"
    if b: "\<And>msg b. arg = Some msg \<Longrightarrow> msg_bank msg 3 = Some b \<Longrightarrow> bank_ok b"
    unfolding req_override_ttl_def
  proof (clarsimp split: option.split simp: ok, goal_cases)
    case (1 msg bank)
    note bank = b [OF 1(2,1)]
    show ?case
      by (rule totR_bind [OF ovrs [OF bank _ ok]], force, rule totR_bind [OF get(2) [OF bank]], assumption, clarsimp,
          rule totR_bind [OF get(3) [OF bank]], assumption, clarsimp)
  qed
  show "totR (req_set_ttl V addr arg sv) (handled_ok inv fin pend cur st k)"
    if b: "\<And>msg b. arg = Some msg \<Longrightarrow> msg_bank msg 2 = Some b \<Longrightarrow> bank_ok b"
    unfolding req_set_ttl_def Let_def
  proof (clarsimp split: option.split simp: ok, goal_cases)
    case (1 msg bank)
    note bank = b [OF 1(2,1)]
    show ?case
      by (rule totR_bind [OF set [OF bank ok]], rule totR_bind [OF set [OF bank]], assumption,
          rule totR_bind [OF get(1) [OF bank]], assumption, clarsimp)
  qed
qed

lemma req_get_dds_ok:
  assumes V: "env_fits P fin pend V" and ok: "srv_ok inv fin pend cur st {#} k sv"
  shows "totR (req_get_dds V addr arg sv) (handled_ok inv fin pend cur st k)"
    and "totR (req_get_override_dds V addr sv) (handled_ok inv fin pend cur st k)"
proof -
  have active: "list_all dds_chn_ok (all_dds (get_active_dds (sv_ctrl sv)))"
    by (auto simp: list_all_iff active_dds_ok)
  show "totR (req_get_dds V addr arg sv) (handled_ok inv fin pend cur st k)"
    using ok active unfolding req_get_dds_def
    by (auto split: option.split intro!: handled_bind ask_all_ok [OF V])
  show "totR (req_get_override_dds V addr sv) (handled_ok inv fin pend cur st k)"
    using active unfolding req_get_override_dds_def get_override_dds_def
    by (intro handled_bind ask_all_ok [OF V ok]) simp_all
qed

lemma req_reset_dds_ok:
  assumes V: "env_fits P fin pend V" and ok: "srv_ok inv fin pend cur st {#} k sv"
    and b: "\<And>b. v_char_signed V \<Longrightarrow> arg = Some [b] \<Longrightarrow> 0 \<le> sint b"
  shows "totR (req_reset_dds V addr arg sv) (handled_ok inv fin pend cur st k)"
proof -
  have laws: "fqueue_laws (v_Q V) fin pend"
    using V by (simp add: env_fits_def)
  have "totR (ctrl_do V (reset_dds (v_Q V) chn) sv) (srv_ok inv fin pend cur st {#} k)" if "0 \<le> chn" "chn < 22" for chn
    by (rule ctrl_do_quiet [OF V ok]) (rule reset_dds_post [OF laws that])
  then show ?thesis
    using ok b unfolding req_reset_dds_def Let_def
    by (auto split: option.split list.split intro!: handled_bind)
qed

lemma req_clock_ok:
  assumes V: "env_fits P fin pend V" and ok: "srv_ok inv fin pend cur st {#} k sv"
  shows "totR (req_set_clock V addr arg sv) (handled_ok inv fin pend cur st k)"
    and "totR (req_get_clock V addr sv) (handled_ok inv fin pend cur st k)"
proof -
  have laws: "fqueue_laws (v_Q V) fin pend" and P: "v_P V = P"
    using V by (simp_all add: env_fits_def)
  show "totR (req_set_clock V addr arg sv) (handled_ok inv fin pend cur st k)"
    using ok unfolding req_set_clock_def P
    by (auto split: option.split list.split intro!: handled_bind ctrl_do_quiet [OF V] set_clock_post [OF laws])
  have "totR (ctrl_do V (get_clock (v_Q V) (concurrent_get (v_P V)) (CB_clock addr)) sv) (srv_ok inv fin pend cur st {#} k)"
    unfolding P by (rule ctrl_do_ok [OF V, where new = "{#CB_clock addr#}"])
      (use ok get_clock_post [OF srv_okD(8) [OF ok]] in simp_all)
  then show "totR (req_get_clock V addr sv) (handled_ok inv fin pend cur st k)"
    unfolding req_get_clock_def by (rule handled_bind)
qed

section \<open>The loop\<close>

lemma dispatch_ok:
  assumes V: "env_fits P fin pend V" and ok: "srv_ok inv fin pend cur st {#} k sv" and k: "k \<noteq> -1" and safe: "safe_request V parts"
  shows "totR (dispatch V addr parts sv) (\<lambda>x. handled_ok inv fin pend cur st k x \<or> handled_ok inv fin pend cur st (k + 1) x)"
proof -
  let ?Q = "\<lambda>x. handled_ok inv fin pend cur st k x \<or> handled_ok inv fin pend cur st (k + 1) x"
  have later: "totR m (handled_ok inv fin pend cur st k) \<Longrightarrow> totR m ?Q" for m
    by (erule totR_weaken) simp
  have branch: "(b \<Longrightarrow> totR x ?Q) \<Longrightarrow> (\<not> b \<Longrightarrow> totR y ?Q) \<Longrightarrow> totR (if b then x else y) ?Q" for b x y
    by simp
  have seq: "totR (process_run_seq V is_cmd addr p1 p2 sv) ?Q" for is_cmd p1 p2
    by (rule req_run_seq_ok [OF V ok k])
  have wait: "totR (req_wait_seq addr arg sv) ?Q" "totR (req_cancel_seq V addr arg sv) ?Q" "totR (req_state_id V addr sv) ?Q"
    "totR (req_set_dds V is_ovr addr arg sv) ?Q" "totR (req_get_dds V addr arg sv) ?Q" "totR (req_get_override_dds V addr sv) ?Q"
    "totR (req_set_clock V addr arg sv) ?Q" "totR (req_get_clock V addr sv) ?Q"
    "totR (req_set_names V sv_ttl_names set_ttl_names addr arg sv) ?Q"
    "totR (req_set_names V sv_dds_names set_dds_names addr arg sv) ?Q" for arg is_ovr
    by (rule later, (rule req_wait_seq_ok req_cancel_seq_ok req_state_id_ok req_set_dds_ok req_get_dds_ok req_clock_ok
        req_set_names_ok; (rule V ok | simp)))+
  have plain: "totR (req_name_id addr sv) ?Q" "totR (accept addr msg sv) ?Q" "totR (process_get_names nc addr sv) ?Q"
    "totR (req_get_startup addr sv) ?Q" "totR (req_set_startup V addr arg sv) ?Q" "totR (reject sv) ?Q" for msg nc arg
    using ok by (auto intro!: later simp: req_name_id_def process_get_names_def req_get_startup_def req_set_startup_def
        process_set_startup_ok split: option.split)
  show ?thesis
  proof (cases "msg_part parts 0")
    case (Some cmd)
    have ttl: "v_match V cmd ''override_ttl'' \<Longrightarrow> totR (req_override_ttl V addr (msg_part parts 1) sv) ?Q"
      "v_match V cmd ''set_ttl'' \<Longrightarrow> totR (req_set_ttl V addr (msg_part parts 1) sv) ?Q"
      "v_match V cmd ''reset_dds'' \<Longrightarrow> totR (req_reset_dds V addr (msg_part parts 1) sv) ?Q"
      using safe Some by (auto simp: safe_request_def intro!: later req_ttl_ok [OF V ok] req_reset_dds_ok [OF V ok])
    show ?thesis
      unfolding dispatch_def Some option.case Let_def
      by (intro branch seq wait plain ttl)
  qed (use plain in \<open>simp add: dispatch_def\<close>)
qed

lemma process_zmq_ok:
  assumes "env_fits P fin pend V" and "srv_ok inv fin pend cur st {#} k sv" and "k \<noteq> -1" and "safe_request V parts"
  shows "totR (process_zmq V addr parts sv) (\<lambda>sv'. srv_ok inv fin pend cur st {#} k sv' \<or> srv_ok inv fin pend cur st {#} (k + 1) sv')"
  unfolding process_zmq_def by (rule totR_bind [OF dispatch_ok [OF assms]]) auto

lemma poll_ok:
  assumes V: "env_fits P fin pend V" and ok: "srv_ok inv fin pend cur st {#} k sv"
  shows "totR (ctrl_do V (run_frontend (v_Q V)) sv) (srv_ok inv fin pend cur st {#} k)"
proof -
  note sv = srv_okD [OF ok]
  let ?c = "sv_ctrl sv"
  let ?seq = "\<lambda>a. the (m_seq_store ?c a)" and ?f = "fin (m_seq_queue ?c)" and ?p = "pend (m_seq_queue ?c)"
  have laws: "fqueue_laws (v_Q V) fin pend" and P: "v_P V = P"
    using V by (simp_all add: env_fits_def)
  have pr: "\<forall>a \<in> set (?f @ ?p). progress (rs_processed_state (?seq a)) (rs_state (?seq a))"
    using sv(3) unfolding seqs_ok_def seq_items_def by fastforce
  have told: "told_of fin pend ?c = map noted (map ?seq ?f) @ map noted (map ?seq ?p)"
    by (simp add: told_of_def seq_items_def)
  obtain c calls where run: "run_frontend (v_Q V) ?c = Inr c" and c: "seqs_ok fin pend c" "fe_frame ?c c" "both_ok inv fin pend cur c"
    and states: "states_of pend c = states_of pend ?c"
    and new: "told_of fin pend c = (case ?p of [] \<Rightarrow> [] | a # as \<Rightarrow> noted (announced (?seq a)) # map (\<lambda>a. noted (?seq a)) as)"
    and log: "m_log c = concat (map farewell (map ?seq ?f)) @ (case ?p of [] \<Rightarrow> [] | a # as \<Rightarrow> seq_notifications (?seq a)) @
        map (\<lambda>(cb, v). Callback cb v) calls"
    and calls: "pending (m_cmd_cache c) + mset (map fst calls) = pending (m_cmd_cache ?c)"
    using run_frontend_post [OF laws sv(3,2)] sv(1,2) unfolding totR_def collected_def Let_def
    by (fastforce simp: comp_def)
  let ?sv = "sv\<lparr>sv_ctrl := c\<lparr>m_log := []\<rparr>\<rparr>"
  have told_c: "notified_ok (told_of fin pend c) sv' \<and> keeps ?sv sv' \<longrightarrow> srv_core inv fin pend cur st k sv'" for sv'
  proof -
    have "fst (snd x) \<le> k" if "x \<in> set (told_of fin pend c)" for x
      using that sv(5) by (cases ?p) (auto simp: new told noted_def announced_def)
    then show ?thesis
      using c sv(6,9) states_ok_cong [OF states] by (auto simp: srv_core_def keeps_def told_upd fe_frame_def)
  qed
  have "totR (foldR (run_logged V) (concat (map farewell (map ?seq ?f))) ?sv)
      (\<lambda>sv'. notified_ok (map noted (map ?seq ?p)) sv' \<and> keeps ?sv sv')"
    by (rule run_farewells) (use sv(4) told pr notified_statuses [of ?sv sv] in auto)
  then have "totR (foldR (run_logged V) (concat (map farewell (map ?seq ?f)) @
      (case ?p of [] \<Rightarrow> [] | a # as \<Rightarrow> seq_notifications (?seq a))) ?sv)
      (\<lambda>sv'. notified_ok (told_of fin pend c) sv' \<and> keeps ?sv sv')"
  proof (rule foldR_append_totR, elim conjE, goal_cases)
    case (1 sv1)
    show ?case
    proof (cases ?p)
      case Nil
      then show ?thesis
        using 1 new by simp
    next
      case (Cons a as)
      then have "notified_ok (noted (?seq a) # map noted (map ?seq as)) sv1" "progress (rs_processed_state (?seq a)) (rs_state (?seq a))"
        using 1 pr by simp_all
      from run_notifications [OF this, of V] show ?thesis
        using new Cons by (auto simp: totR_def comp_def intro: keeps_trans [OF 1(3)])
    qed
  qed
  then have "totR (foldR (run_logged V) (m_log c) ?sv) (srv_ok inv fin pend cur st {#} k)"
    unfolding log append_assoc [symmetric]
  proof (rule foldR_append_totR, elim conjE, goal_cases)
    case (1 sv1)
    then have core: "srv_core inv fin pend cur st k sv1" and k: "sv_ctrl sv1 = c\<lparr>m_log := []\<rparr>" "sv_infos sv1 = sv_infos sv"
      "sv_info_next sv1 = sv_info_next sv"
      using told_c by (simp_all add: keeps_def)
    have "mset (map fst calls) + (pending (m_cmd_cache (sv_ctrl sv1)) + {#}) = pending (m_cmd_cache ?c) + {#}"
      unfolding calls [symmetric] by (simp add: k(1) ac_simps)
    then have "refs_ok (mset (map fst calls) + (pending (m_cmd_cache (sv_ctrl sv1)) + {#})) sv"
      using sv(7) by (simp only:)
    then have "refs_ok (mset (map fst calls) + (pending (m_cmd_cache (sv_ctrl sv1)) + {#})) sv1"
      using k unfolding refs_ok_def by simp
    moreover have "inv (m_p (sv_ctrl sv1))"
      using both_ok_inv [OF c(3)] by (simp add: k)
    ultimately show ?case
      by (intro cb_keeps_srv [OF run_callbacks_ok [OF P] core])
  qed
  then show ?thesis
    using run by (simp add: ctrl_do_def ctrl_get_def totR_def)
qed

lemma run_turn_ok:
  assumes V: "env_fits P fin pend V" and ok: "srv_ok inv fin pend None None {#} k sv" and k: "k \<noteq> -1"
    and W: "\<forall>c. worker_step inv fin pend c (v_worker V c)" and safe: "\<And>addr parts. msg = Some (addr, parts) \<Longrightarrow> safe_request V parts"
  shows "totR (run_turn V msg sv) (\<lambda>sv'. srv_ok inv fin pend None None {#} k sv' \<or> srv_ok inv fin pend None None {#} (k + 1) sv')"
  unfolding run_turn_def
proof (rule totR_bind [OF poll_ok [OF V srv_ok_worker [OF ok]]])
  show "worker_step inv fin pend (sv_ctrl sv) (v_worker V (sv_ctrl sv))"
    using W by blast
  fix sv1
  assume "srv_ok inv fin pend None None {#} k sv1"
  then show "totR (case msg of None \<Rightarrow> Inr sv1 | Some (addr, parts) \<Rightarrow> process_zmq V addr parts sv1)
      (\<lambda>sv'. srv_ok inv fin pend None None {#} k sv' \<or> srv_ok inv fin pend None None {#} (k + 1) sv')"
    using safe process_zmq_ok [OF V _ k] by (cases msg) auto
qed

lemma run_loop_ok:
  assumes V: "env_fits P fin pend V" and W: "\<forall>c. worker_step inv fin pend c (v_worker V c)"
    and "\<forall>(sigint, msg) \<in> set turns. \<forall>addr parts. msg = Some (addr, parts) \<longrightarrow> safe_request V parts"
    and "srv_ok inv fin pend None None {#} k sv" and "unat k + length turns < 2 ^ 64"
  shows "totR (run_loop V turns sv) (\<lambda>sv'. \<exists>k'. srv_ok inv fin pend None None {#} k' sv')"
  using assms(3-)
proof (induction turns arbitrary: sv k)
  case (Cons t turns)
  obtain sigint msg where t: "t = (sigint, msg)"
    by fastforce
  have k: "k \<noteq> -1"
    using Cons.prems(3) by (auto simp: unsigned_minus_1_eq_mask mask_eq_exp_minus_1)
  then have "1 + k \<noteq> 0"
    by (simp add: add_eq_0_iff)
  then have k1: "unat (k + 1) + length turns < 2 ^ 64"
    using Cons.prems(3) unatSuc [of k] by (simp add: add.commute)
  have turn: "totR (run_turn V msg (if sigint then stop sv else sv))
      (\<lambda>sv'. srv_ok inv fin pend None None {#} k sv' \<or> srv_ok inv fin pend None None {#} (k + 1) sv')"
    by (rule run_turn_ok [OF V _ k W]) (use Cons.prems in \<open>auto simp: t stop_def\<close>)
  have rest: "totR (run_loop V turns sv') (\<lambda>sv'. \<exists>k'. srv_ok inv fin pend None None {#} k' sv')"
    if "srv_ok inv fin pend None None {#} k sv' \<or> srv_ok inv fin pend None None {#} (k + 1) sv'" for sv'
    using that Cons.IH [of k sv'] Cons.IH [of "k + 1" sv'] Cons.prems k1 by auto
  show ?case
    using totR_bind [OF turn rest] Cons.prems(2) by (auto simp: t)
qed auto

end

text \<open>Both pulsers: the software pulser by its interface, the registers whatever the memory does.\<close>

interpretation fpga: frontend_port "pulser_ops hw fuel" "\<lambda>_. True" for hw :: "'h hw_ops" and fuel
  by unfold_locales
    (auto simp: pulser_ops_def pulser_ttl_lomask_def pulser_ttl_himask_def pulser_set_ttl_lomask_def
      pulser_set_ttl_himask_def pulser_cur_ttl_def pulser_cur_clock_def bank_read_def bank_write_def bank_ok_def
      split: prod.split)

section \<open>The whole program\<close>

text \<open>A call that returns, runs out of fuel, or throws an exception that the program is meant to end with.\<close>

definition exitR :: "'a result \<Rightarrow> ('a \<Rightarrow> bool) \<Rightarrow> bool" where
  "exitR m Q = (case m of Inl e \<Rightarrow> e = OutOfFuel \<or> (\<exists>msg. e = RuntimeError msg) | Inr x \<Rightarrow> Q x)"

lemma exitR_simps [simp]:
  "exitR (Inr x) Q = Q x" "exitR (Inl (RuntimeError msg)) Q" "exitR (Inl OutOfFuel) Q"
  by (simp_all add: exitR_def)

lemma exitR_bind: "exitR m R \<Longrightarrow> (\<And>x. m = Inr x \<Longrightarrow> R x \<Longrightarrow> exitR (f x) Q) \<Longrightarrow> exitR (bindR m f) Q"
  by (auto simp: exitR_def split: sum.splits)

lemma totR_exitR: "totR m Q \<Longrightarrow> exitR m Q"
  by (auto simp: totR_def)

definition server_ok ::
  "('p \<Rightarrow> bool) \<Rightarrow> ('q \<Rightarrow> addr list) \<Rightarrow> ('q \<Rightarrow> addr list) \<Rightarrow> ('q, 'p) server \<Rightarrow> bool" where
  "server_ok I fin pend sv \<longleftrightarrow> srv_ok I fin pend None None {#} (m_seq_cnt (sv_ctrl sv)) sv"

lemma server_okI: "srv_ok I fin pend None None {#} k sv \<Longrightarrow> server_ok I fin pend sv"
  using srv_okD(6) by (fastforce simp: server_ok_def)

definition new_ctrl :: "('p \<Rightarrow> bool) \<Rightarrow> ('q \<Rightarrow> addr list) \<Rightarrow> ('q \<Rightarrow> addr list) \<Rightarrow> ('q, 'cb, 'nt, 'p) controller \<Rightarrow> bool" where
  "new_ctrl I fin pend c \<longleftrightarrow> m_log c = [] \<and> both_ok I fin pend None c \<and> seq_items fin pend c = [] \<and>
     (\<forall>k. waiting (m_cmd_cache c) k = []) \<and> m_seq_cnt c = 0"

lemma new_server_ok:
  assumes "new_ctrl I fin pend (sv_ctrl sv)" and "sv_seq_status sv = []" and "sv_infos sv = (\<lambda>_. None)"
  shows "srv_ok I fin pend None None {#} 0 sv"
  using assms
  by (simp add: new_ctrl_def srv_ok_def srv_core_def states_ok_def seqs_ok_def told_of_def notified_ok_def refs_ok_def info_ok_def
      pending_def)

context frontend_port
begin

lemma startup_loop_ok:
  assumes V: "env_fits P fin pend V" and W: "\<forall>c. worker_step inv fin pend c (v_worker V c)"
    and "srv_ok inv fin pend None None {#} k sv"
  shows "exitR (startup_loop V fuel sv) (srv_ok inv fin pend None None {#} k)"
  using assms(3)
proof (induction fuel arbitrary: sv)
  case (Suc fuel)
  have "exitR (ctrl_do V (run_frontend (v_Q V)) (sv\<lparr>sv_ctrl := v_worker V (sv_ctrl sv)\<rparr>)) (srv_ok inv fin pend None None {#} k)"
    by (rule totR_exitR, rule poll_ok [OF V srv_ok_worker [OF Suc.prems]]) (use W in blast)
  from exitR_bind [OF this Suc.IH] show ?case
    using Suc.prems by simp
qed simp

lemma run_startup_ok:
  assumes V: "env_fits P fin pend V" and W: "\<forall>c. worker_step inv fin pend c (v_worker V c)"
    and ok: "srv_ok inv fin pend None None {#} k sv" and k: "k \<noteq> -1"
  shows "exitR (run_startup V fuel sv) (\<lambda>sv'. srv_ok inv fin pend None None {#} k sv' \<or> srv_ok inv fin pend None None {#} (k + 1) sv')"
proof (cases "Option.bind (f_data (sv_files sv) (runtime_file sv ''/startup.cmdbin'')) parse_startup")
  case None
  then show ?thesis
    using ok by (auto simp: run_startup_def split: option.split)
next
  case (Some x)
  obtain str ver h where x: "f_data (sv_files sv) (runtime_file sv ''/startup.cmdbin'') = Some str"
    "parse_startup str = Some (ver, h)"
    using Some by (cases x) (auto simp: bind_eq_Some_conv)
  have ok': "srv_ok inv fin pend None None {#} k (sv\<lparr>sv_finished := False\<rparr>)"
    using ok by simp
  have h: "length (sh_masks h) = NUM_TTL_BANKS" "valid_ver ver"
    using parse_ok(2) [OF x(2)] by simp_all
  let ?n = "sv_notify_next sv"
  let ?sv = "sv\<lparr>sv_notifies := (sv_notifies sv)(?n \<mapsto> StartupNotify), sv_notify_next := Suc ?n, sv_finished := False\<rparr>"
  have eq: "?sv = (sv\<lparr>sv_finished := False\<rparr>)\<lparr>sv_notifies := (sv_notifies sv)(?n \<mapsto> StartupNotify), sv_notify_next := Suc ?n\<rparr>"
    by simp
  have "totR (new_seq V True ver h ?n ?sv) (\<lambda>(i, sv'). srv_ok inv fin pend None None {#} (k + 1) sv')"
    unfolding eq using new_seq_ok [OF V ok' h k, of StartupNotify "\<lambda>_. []" True] by simp
  then have "exitR (bindR (new_seq V True ver h ?n ?sv) (\<lambda>(_, sv2). startup_loop V fuel sv2)) (srv_ok inv fin pend None None {#} (k + 1))"
    by (rule exitR_bind [OF totR_exitR]) (auto intro: startup_loop_ok [OF V W])
  then show ?thesis
    unfolding run_startup_def x option.case prod.case Let_def by (auto simp: exitR_def split: sum.splits)
qed


lemma server_run_ok:
  assumes V: "env_fits P fin pend V" and W: "\<forall>c. worker_step inv fin pend c (v_worker V c)"
    and "\<forall>(sigint, msg) \<in> set turns. \<forall>addr parts. msg = Some (addr, parts) \<longrightarrow> safe_request V parts"
    and "srv_ok inv fin pend None None {#} k sv" and "unat k + length turns < 2 ^ 64"
  shows "totR (server_run V turns sv) (server_ok inv fin pend)"
  unfolding server_run_def
  by (rule totR_weaken [OF run_loop_ok [OF assms(1-3) _ assms(5)]]) (use assms(4) in \<open>auto intro: server_okI\<close>)

text \<open>Construction: the timings of the DDS boards are all that it asks of the pulser.\<close>

lemma Server_init_ok:
  assumes V: "env_fits P fin pend V" and W: "\<forall>c. worker_step inv fin pend c (v_worker V c)"
    and c: "new_ctrl inv fin pend c"
    and timing: "\<And>a b d e f. exitR (ctrl_set_dds_timing1 P a b d e f c) (\<lambda>c'. \<exists>p. c' = c\<lparr>m_p := p\<rparr> \<and> inv p)"
    and names: "\<And>fs f nc. exitR (NamesConfig_init (v_names V) fs f) (\<lambda>_. True)"
  shows "exitR (Server_init V fuel conf srv c fs) (\<lambda>sv. srv_ok inv fin pend None None {#} 0 sv \<or> srv_ok inv fin pend None None {#} 1 sv)"
proof -
  have fit: "exitR (fit_names V n nc fs) (\<lambda>_. True)" for n nc fs
    by (simp add: fit_names_def Let_def)
  have start: "exitR (bindR (ctrl_do V (ctrl_set_dds_timing1 (v_P V) a b d e f) sv) (run_startup V fuel))
      (\<lambda>sv. srv_ok inv fin pend None None {#} 0 sv \<or> srv_ok inv fin pend None None {#} 1 sv)"
    if sv: "sv_ctrl sv = c" "sv_seq_status sv = []" "sv_infos sv = (\<lambda>_. None)" for a b d e f sv
  proof (rule exitR_bind [where R = "srv_ok inv fin pend None None {#} 0"])
    have "srv_ok inv fin pend None None {#} 0 (sv\<lparr>sv_ctrl := c\<lparr>m_p := p, m_log := []\<rparr>\<rparr>)" if "inv p" for p
      by (rule new_server_ok) (use c sv that both_ok_p [of inv fin pend None c] in \<open>simp_all add: new_ctrl_def seq_items_def\<close>)
    then show "exitR (ctrl_do V (ctrl_set_dds_timing1 (v_P V) a b d e f) sv) (srv_ok inv fin pend None None {#} 0)"
      using V c sv(1) timing [of a b d e f]
      by (auto simp: ctrl_do_def ctrl_get_def env_fits_def exitR_def new_ctrl_def split: sum.splits)
    show "exitR (run_startup V fuel sv1) (\<lambda>sv. srv_ok inv fin pend None None {#} 0 sv \<or> srv_ok inv fin pend None None {#} 1 sv)"
      if "srv_ok inv fin pend None None {#} 0 sv1" for sv1
      using run_startup_ok [OF V W that] by simp
  qed
  show ?thesis
    unfolding Server_init_def Let_def
    by (rule exitR_bind [OF names], rule exitR_bind [OF names], rule exitR_bind [OF fit], clarify,
        rule exitR_bind [OF fit], clarify, rule start) simp_all
qed

end

end
