(* ===== verification/Worker_Guarantee.thy ===== *)
theory Worker_Guarantee
  imports Server_Total
begin

text \<open>
  What the server relies on from the worker is what the worker does: serving a request, announcing a state of a sequence and
  finishing a sequence are all a \<open>worker_step\<close>.
\<close>

section \<open>Requests\<close>

text \<open>What running a request leaves alone.\<close>

definition be_frame :: "('q, 'cb, 'nt, 'p) controller \<Rightarrow> ('q, 'cb, 'nt, 'p) controller \<Rightarrow> bool" where
  "be_frame s s' \<longleftrightarrow> m_log s' = m_log s \<and> m_cmd_cache s' = m_cmd_cache s \<and> m_seq_cnt s' = m_seq_cnt s \<and>
     m_seq_next s' = m_seq_next s \<and> m_seq_store s' = m_seq_store s \<and> m_seq_queue s' = m_seq_queue s \<and>
     m_cmd_next s' = m_cmd_next s \<and> m_cmd_queue s' = m_cmd_queue s \<and> m_cmd_store s' = m_cmd_store s \<and>
     m_cmd_waiting s' = m_cmd_waiting s"

lemma be_frame_refl [simp]: "be_frame s s"
  by (simp add: be_frame_def)

lemma issue_frame: "issue P c s = Inr s' \<Longrightarrow> be_frame s0 s' = be_frame s0 s"
  by (auto simp: issue_def p_do_def called_def be_frame_def)

lemma be_frame_upd [simp]:
  "be_frame s (s'\<lparr>m_ttl := a\<rparr>) = be_frame s s'" "be_frame s (s'\<lparr>m_dds_ovr := b\<rparr>) = be_frame s s'"
  "be_frame s (s'\<lparr>m_dds_phase := c\<rparr>) = be_frame s s'" "be_frame s (s'\<lparr>m_dds_pending_reset := d\<rparr>) = be_frame s s'"
  "be_frame s (s'\<lparr>m_p := p\<rparr>) = be_frame s s'"
  by (simp_all add: be_frame_def)

lemma run_cmd_frame:
  assumes "run_cmd E checked cmd (r, s) = Inr (x, (r', s'))"
  shows "be_frame s s'"
  using assms
  by (cases "rc_opcode cmd")
    (auto simp: run_cmd_def keep_runner_def run_cmd_ttl_def run_cmd_freq_def run_cmd_amp_def run_cmd_phase_def
      run_cmd_reset_def run_cmd_clock_def Let_def issue_frame split: if_splits)

text \<open>The requests in the queue of the frontend, those of \<open>both_ok\<close>; the one whose result is awaited is the first.\<close>

definition cmds_ok :: "('q \<Rightarrow> addr list) \<Rightarrow> ('q \<Rightarrow> addr list) \<Rightarrow> ('q, 'cb, 'nt, 'p) controller \<Rightarrow> bool" where
  "cmds_ok fin pend c \<longleftrightarrow> distinct (fin (m_cmd_queue c) @ pend (m_cmd_queue c)) \<and>
     (\<forall>a \<in> set (fin (m_cmd_queue c) @ pend (m_cmd_queue c)).
        a < m_cmd_next c \<and> (\<exists>cmd. m_cmd_store c a = Some cmd \<and> answer_ok cmd)) \<and>
     (\<forall>a. m_cmd_waiting c = Some a \<longrightarrow> head_opt (pend (m_cmd_queue c)) = Some a)"

lemma both_ok_iff: "both_ok I fin pend cur c \<longleftrightarrow> ctrl_ok I pend cur c \<and> cmds_ok fin pend c"
  by (auto simp: both_ok_def cmds_ok_def ctrl_ok_def queues_ok_def)

lemma cmds_ok_frame: "be_frame s s' \<Longrightarrow> cmds_ok fin pend s' = cmds_ok fin pend s"
  by (simp add: be_frame_def cmds_ok_def)

lemma cmds_ok_finish:
  assumes laws: "fqueue_laws (e_Q E) fin pend" and "cmds_ok fin pend s" and "pend (m_cmd_queue s) = a # as"
    and "m_cmd_waiting s = None"
  shows "cmds_ok fin pend (finish_event E checked s)"
proof -
  have "fin (fq_forward_filter (e_Q E) (m_cmd_queue s)) @ pend (fq_forward_filter (e_Q E) (m_cmd_queue s)) =
      fin (m_cmd_queue s) @ pend (m_cmd_queue s)"
    using fqueue_lawsD(9,10) [OF laws assms(3)] assms(3) by simp
  then show ?thesis
    using assms(2,4) unfolding cmds_ok_def
    by (simp add: finish_event_def finish_cmd_def backend_event_def Let_def del: set_append distinct_append)
qed

lemma cmds_ok_store:
  assumes "cmds_ok fin pend s" and "m_cmd_store s a = Some cmd"
  shows "cmds_ok fin pend (s\<lparr>m_cmd_store := (m_cmd_store s)(a \<mapsto> cmd\<lparr>rc_val := v\<rparr>), m_cmd_waiting := None\<rparr>)"
proof -
  have "\<exists>cmd'. ((m_cmd_store s)(a \<mapsto> cmd\<lparr>rc_val := v\<rparr>)) b = Some cmd' \<and> answer_ok cmd'"
    if "\<exists>cmd'. m_cmd_store s b = Some cmd' \<and> answer_ok cmd'" for b
    using that assms(2) by (auto simp: answer_ok_def)
  then show ?thesis
    using assms(1) by (simp add: cmds_ok_def)
qed

text \<open>What the worker does between two announcements: it only uses the queue of requests.\<close>

definition serves :: "('q \<Rightarrow> addr list) \<Rightarrow> ('q \<Rightarrow> addr list) \<Rightarrow> ('q, 'cb, 'nt, 'p) controller \<Rightarrow> ('q, 'cb, 'nt, 'p) controller \<Rightarrow> bool" where
  "serves fin pend s s' \<longleftrightarrow> m_log s' = m_log s \<and> m_cmd_cache s' = m_cmd_cache s \<and> m_seq_cnt s' = m_seq_cnt s \<and>
     m_seq_next s' = m_seq_next s \<and> m_seq_store s' = m_seq_store s \<and> m_seq_queue s' = m_seq_queue s \<and>
     (cmds_ok fin pend s \<longrightarrow> cmds_ok fin pend s')"

lemma serves_refl [simp]: "serves fin pend s s"
  by (simp add: serves_def)

lemma serves_trans: "serves fin pend a b \<Longrightarrow> serves fin pend b c \<Longrightarrow> serves fin pend a c"
  by (simp add: serves_def)

lemma serves_frame: "be_frame s s' \<Longrightarrow> serves fin pend s s'"
  using cmds_ok_frame [of s s' fin pend] by (simp add: serves_def be_frame_def)

lemma finish_event_fields [simp]:
  "m_log (finish_event E checked s) = m_log s" "m_cmd_cache (finish_event E checked s) = m_cmd_cache s"
  "m_seq_cnt (finish_event E checked s) = m_seq_cnt s" "m_seq_next (finish_event E checked s) = m_seq_next s"
  "m_seq_store (finish_event E checked s) = m_seq_store s" "m_seq_queue (finish_event E checked s) = m_seq_queue s"
  by (simp_all add: finish_event_def finish_cmd_def backend_event_def Let_def)

lemma serves_finish:
  assumes "fqueue_laws (e_Q E) fin pend" and "pend (m_cmd_queue s) = a # as" and "m_cmd_waiting s = None"
  shows "serves fin pend s (finish_event E checked s)"
  using assms cmds_ok_finish [OF assms(1) _ assms(2,3)] by (simp add: serves_def)

lemma try_get_result_serves:
  assumes laws: "fqueue_laws (e_Q E) fin pend" and run: "try_get_result E checked s = Inr (x, s')"
  shows "serves fin pend s s'"
proof (cases "m_cmd_waiting s")
  case None
  then show ?thesis
    using run by (simp add: try_get_result_def)
next
  case (Some a)
  obtain got s1 where s1: "p_get (p_try_get_result (e_P E)) s = Inr (got, s1)"
    using run Some by (auto simp: try_get_result_def)
  then have f: "be_frame s s1"
    by (auto simp: p_get_def)
  show ?thesis
  proof (cases got)
    case None
    then show ?thesis
      using run Some s1 f serves_frame [OF f] by (auto simp: try_get_result_def)
  next
    case (Some v)
    then obtain cmd where cmd: "m_cmd_store s1 a = Some cmd" "s' = finish_event E checked
        (s1\<lparr>m_cmd_store := (m_cmd_store s1)(a \<mapsto> cmd\<lparr>rc_val := v\<rparr>), m_cmd_waiting := None\<rparr>)"
      using run \<open>m_cmd_waiting s = Some a\<close> s1 by (auto simp: try_get_result_def split: option.splits)
    let ?s2 = "s1\<lparr>m_cmd_store := (m_cmd_store s1)(a \<mapsto> cmd\<lparr>rc_val := v\<rparr>), m_cmd_waiting := None\<rparr>"
    have s2: "serves fin pend s1 ?s2"
      using cmds_ok_store [OF _ cmd(1)] by (simp add: serves_def)
    have "serves fin pend s1 s'"
    proof (cases "cmds_ok fin pend s1")
      case True
      have "m_cmd_waiting s1 = Some a"
        using f \<open>m_cmd_waiting s = Some a\<close> by (simp add: be_frame_def)
      then obtain as where "pend (m_cmd_queue ?s2) = a # as"
        using True by (auto simp: cmds_ok_def head_opt_eq_Some)
      then have "serves fin pend ?s2 s'"
        unfolding cmd(2) by (intro serves_finish [OF laws]) simp_all
      then show ?thesis
        using s2 serves_trans by blast
    qed (simp add: cmd(2) serves_def)
    then show ?thesis
      using serves_frame [OF f] serves_trans by blast
  qed
qed

lemma process_reqcmd_serves:
  assumes laws: "fqueue_laws (e_Q E) fin pend" and run: "process_reqcmd E checked (r, s) = Inr (x, (r', s'))"
  shows "serves fin pend s s'"
proof -
  obtain y s1 where y: "try_get_result E checked s = Inr (y, s1)"
    using run by (auto simp: process_reqcmd_def)
  note t = try_get_result_serves [OF laws y]
  consider "s' = s1" | a where "m_cmd_waiting s1 = None" "get_cmd (e_Q E) s1 = Some a" "process_next E checked a (r, s1) = Inr (x, (r', s'))"
    using run y by (auto simp: process_reqcmd_def split: prod.splits if_splits option.splits)
  then show ?thesis
  proof cases
    case (2 a)
    then obtain as where a: "pend (m_cmd_queue s1) = a # as"
      by (auto simp: get_cmd_def fqueue_lawsD(7) [OF laws] head_opt_eq_Some)
    obtain cmd stept needs s2 where s2: "run_cmd E checked cmd (r, s1) = Inr ((stept, needs), (r', s2))"
      "s' = (if needs then s2\<lparr>m_cmd_waiting := Some a\<rparr> else finish_event E checked s2)"
      using 2(3) by (auto simp: process_next_def split: option.splits)
    then have f: "be_frame s1 s2"
      using run_cmd_frame by blast
    then have "pend (m_cmd_queue s2) = a # as" "m_cmd_waiting s2 = None"
      using a 2(1) by (simp_all add: be_frame_def)
    moreover from this have "serves fin pend s2 (s2\<lparr>m_cmd_waiting := Some a\<rparr>)"
      by (simp add: serves_def cmds_ok_def head_opt_def)
    ultimately have "serves fin pend s2 s'"
      using serves_finish [OF laws] s2(2) by simp
    then show ?thesis
      using t serves_frame [OF f] by (blast intro: serves_trans)
  qed (use t in simp)
qed

lemma serves_worker_step:
  assumes "serves fin pend s s'" and "ctrl_ok I pend None s \<Longrightarrow> ctrl_ok I pend None s'"
  shows "worker_step I fin pend s s'"
  using assms by (auto simp: serves_def worker_step_def both_ok_iff told_of_def seqs_ok_def seq_items_def)

context pulser_port
begin

lemma process_reqcmd_step:
  assumes ok: "ctrl_ok inv pend None s" and E: "env_ok inv fin pend E" and P: "e_P E = P"
    and r: "\<forall>r0. r = Some r0 \<longrightarrow> runner_ok r0"
    and run: "process_reqcmd E checked (r, s) = Inr (x, (r', s'))"
  shows "worker_step inv fin pend s s'"
  by (rule serves_worker_step [OF process_reqcmd_serves [OF env_okD(1) [OF E] run]])
    (use process_reqcmd_okR [OF ok E P r, of checked] run in simp)

end

section \<open>Sequences\<close>

text \<open>A state is announced, or the sequence at the head of the queue is finished.\<close>

lemma set_seq_state_step:
  assumes "set_seq_state a st s = Inr s'"
    and "\<And>x. m_seq_store s a = Some x \<Longrightarrow> progress (rs_processed_state x) (rs_state x) \<Longrightarrow> progress (rs_processed_state x) st"
  shows "worker_step I fin pend s s'"
proof -
  obtain x where x: "m_seq_store s a = Some x" "s' = s\<lparr>m_seq_store := (m_seq_store s)(a \<mapsto> x\<lparr>rs_state := st\<rparr>)\<rparr>"
    using assms(1) by (auto simp: set_seq_state_def split: option.splits)
  have "noted (the (((m_seq_store s)(a \<mapsto> x\<lparr>rs_state := st\<rparr>)) b)) = noted (the (m_seq_store s b))" for b
    using x(1) by (simp add: noted_def)
  moreover have "\<exists>y. ((m_seq_store s)(a \<mapsto> x\<lparr>rs_state := st\<rparr>)) b = Some y \<and> progress (rs_processed_state y) (rs_state y)"
    if "\<exists>y. m_seq_store s b = Some y \<and> progress (rs_processed_state y) (rs_state y)" for b
    using that x(1) assms(2) by auto
  moreover have "both_ok I fin pend None s'" if "both_ok I fin pend None s"
    using that x by (auto simp: both_ok_def ctrl_ok_def ctrl_shape_def queues_ok_def valid_seq_def)
  ultimately show ?thesis
    by (simp add: worker_step_def x(2) told_of_def seqs_ok_def seq_items_def)
qed

lemma finish_seq_step:
  assumes laws: "fqueue_laws Q fin pend" and a: "get_seq Q s = Some a"
  shows "worker_step I fin pend s (finish_seq Q s)"
proof -
  obtain as where as: "pend (m_seq_queue s) = a # as"
    using a by (auto simp: get_seq_def fqueue_lawsD(7) [OF laws] head_opt_eq_Some)
  note f = fqueue_lawsD(9,10) [OF laws as]
  have "seq_items fin pend (finish_seq Q s) = seq_items fin pend s"
    by (simp add: seq_items_def finish_seq_def backend_event_def f as)
  moreover have "both_ok I fin pend None (finish_seq Q s)" if "both_ok I fin pend None s"
    using that by (auto simp: both_ok_def ctrl_ok_def ctrl_shape_def queues_ok_def finish_seq_def backend_event_def f as)
  ultimately show ?thesis
    by (simp add: worker_step_def told_of_def seqs_ok_def) (simp add: finish_seq_def backend_event_def)
qed

lemma worker_step_trans:
  "worker_step I fin pend a b \<Longrightarrow> worker_step I fin pend b c \<Longrightarrow> worker_step I fin pend a c"
  by (simp add: worker_step_def)

text \<open>A cancelled sequence is taken from the queue in two steps.\<close>

lemma cancelled_seq_step:
  assumes laws: "fqueue_laws (e_Q E) fin pend" and a: "get_seq (e_Q E) s = Some a"
    and x: "m_seq_store s a = Some x" "rs_cancel x" "rs_state x = SeqInit" and run: "worker_seq E exe fuel s = Inr s'"
  shows "worker_step I fin pend s s'"
proof -
  obtain s1 where s1: "set_seq_state a SeqCancel s = Inr s1" "s' = finish_seq (e_Q E) s1"
    using run a x(1,2) by (auto simp: worker_seq_def)
  have "worker_step I fin pend s s1"
    by (rule set_seq_state_step [OF s1(1)]) (use x(1,3) in \<open>auto simp: progress_def\<close>)
  moreover have "get_seq (e_Q E) s1 = Some a"
    using s1(1) a x(1) by (auto simp: set_seq_state_def get_seq_def)
  ultimately show ?thesis
    unfolding s1(2) using finish_seq_step [OF laws] worker_step_trans by blast
qed

end
