(* ===== verification/Worker_Frames.thy ===== *)
theory Worker_Frames
  imports Worker_Guarantee
begin

text \<open>
  The rest of the worker, one member of \<^verbatim>\<open>controller.cpp\<close> at a time, while no other thread runs: between two announcements
  of a sequence it uses the pulser, its own fields and the queue of requests, and nothing else.
\<close>

section \<open>Steps that leave the queues alone\<close>

lemma be_frame_fields [simp]:
  "be_frame s (s'\<lparr>m_dds_exist := a\<rparr>) = be_frame s s'" "be_frame s (s'\<lparr>m_dds_check_time := b\<rparr>) = be_frame s s'"
  "be_frame s (s'\<lparr>m_coarse := c\<rparr>) = be_frame s s'" "be_frame s (called e s') = be_frame s s'"
  "be_frame s (log_line l s') = be_frame s s'" "be_frame s (backend_event s') = be_frame s s'"
  by (simp_all add: be_frame_def called_def log_line_def backend_event_def)

lemma be_frame_eq: "be_frame s s' \<Longrightarrow> be_frame s0 s' = be_frame s0 s"
  by (simp add: be_frame_def)

lemma pulser_frame:
  "p_get f s = Inr (x, s') \<Longrightarrow> be_frame s0 s' = be_frame s0 s"
  "p_do g s = Inr s' \<Longrightarrow> be_frame s0 s' = be_frame s0 s"
  "ctrl_release_hold P s = Inr s' \<Longrightarrow> be_frame s0 s' = be_frame s0 s"
  by (auto simp: p_get_def p_do_def ctrl_release_hold_def)

lemma getCoarseTime_frame: "getCoarseTime s = (t, s') \<Longrightarrow> be_frame s0 s' = be_frame s0 s"
  by (auto simp: getCoarseTime_def)

lemmas frames = issue_frame pulser_frame getCoarseTime_frame

lemma be_frame_trans: "be_frame a b \<Longrightarrow> be_frame b c \<Longrightarrow> be_frame a c"
  by (simp add: be_frame_def)

lemma foldR_frame:
  assumes step: "\<And>x s s'. f x s = Inr s' \<Longrightarrow> be_frame s s'" and run: "foldR f xs s = Inr s'"
  shows "be_frame s0 s' = be_frame s0 s"
proof (rule be_frame_eq)
  show "be_frame s s'"
    using run by (induction xs arbitrary: s) (auto intro: be_frame_trans [OF step])
qed

lemma output_waits_frame: "output_waits P checked t s = Inr s' \<Longrightarrow> be_frame s0 s' = be_frame s0 s"
proof (induction P checked t s rule: output_waits.induct)
  case (1 P checked t s)
  show ?case
    using 1(2) by (subst (asm) output_waits.simps) (auto simp: frames 1(1) Let_def split: if_splits)
qed

lemma running_frame:
  "advance E t c (r, s) = Inr (r', s') \<Longrightarrow> be_frame s0 s' = be_frame s0 s"
  "output_wait E checked t (r, s) = Inr (r', s') \<Longrightarrow> be_frame s0 s' = be_frame s0 s"
  "runner_clock E checked v (r, s) = Inr (r', s') \<Longrightarrow> be_frame s0 s' = be_frame s0 s"
  by (auto simp: advance_def output_wait_def runner_clock_def frames output_waits_frame)

lemma release_first_frame:
  "release_first E checked t (r, s) = Inr (t', (r', s')) \<Longrightarrow> be_frame s0 s' = be_frame s0 s"
  by (auto simp: release_first_def frames running_frame split: if_splits)

lemma check_dds_frame: "check_dds P i s = Inr (b, s') \<Longrightarrow> be_frame s0 s' = be_frame s0 s"
  by (auto simp: check_dds_def frames split: if_splits)

lemma log_lines_frame [simp]: "be_frame s0 (fold (\<lambda>l. log_line (LogInfo l)) ls s) = be_frame s0 s"
  by (induction ls arbitrary: s) simp_all

lemma dump_dds_frame: "dump_dds P i s = Inr s' \<Longrightarrow> be_frame s0 s' = be_frame s0 s"
  by (auto simp: dump_dds_def frames)

lemma detect_dds_chn_frame: "detect_dds_chn P force i s = Inr s' \<Longrightarrow> be_frame s s'"
  by (auto simp: detect_dds_chn_def frames check_dds_frame dump_dds_frame Let_def split: if_splits)

lemma detect_dds_frame: "detect_dds P force s = Inr s' \<Longrightarrow> be_frame s0 s' = be_frame s0 s"
  by (auto simp: detect_dds_def frames foldR_frame [OF detect_dds_chn_frame] split: if_splits prod.splits)

lemma sync_ttl_bank_frame: "sync_ttl_bank P i s = Inr s' \<Longrightarrow> be_frame s s'"
  by (auto simp: sync_ttl_bank_def frames split: if_splits)

lemma reinit_dds_frame: "reinit_dds P i s = Inr s' \<Longrightarrow> be_frame s s'"
  by (auto simp: reinit_dds_def check_dds_frame dump_dds_frame split: if_splits)

lemma housekeeping_frame:
  "detect_if_idle E s = Inr s' \<Longrightarrow> be_frame s0 s' = be_frame s0 s"
  "sync_ttl P s = Inr s' \<Longrightarrow> be_frame s0 s' = be_frame s0 s"
  "run_seq_cleanup E s = Inr s' \<Longrightarrow> be_frame s0 s' = be_frame s0 s"
  by (auto simp: detect_if_idle_def detect_dds_frame frames run_seq_cleanup_def foldR_frame [OF reinit_dds_frame] split: if_splits)
    (auto simp: sync_ttl_def foldR_frame [OF sync_ttl_bank_frame])

section \<open>Steps that serve requests\<close>

lemma wait_poll_serves:
  assumes laws: "fqueue_laws (e_Q E) fin pend" and run: "wait_poll E checked t (r, s) = Inr (t', (r', s'))"
  shows "serves fin pend s s'"
proof -
  obtain t1 r1 s1 r2 x where 1: "release_first E checked t (r, s) = Inr (t1, (r1, s1))"
    "process_reqcmd E checked (Some r1, s1) = Inr (x, (r2, s'))"
    using run by (fastforce simp: wait_poll_def split: option.splits if_splits)
  show ?thesis
    using serves_trans [OF serves_frame process_reqcmd_serves [OF laws 1(2)]] release_first_frame [OF 1(1), of s] by simp
qed

lemma wait_loop_serves:
  assumes laws: "fqueue_laws (e_Q E) fin pend" and front: "e_frontend E = (\<lambda>s. s)"
    and run: "wait_loop E checked fuel t (r, s) = Inr (r', s')"
  shows "serves fin pend s s'"
  using run
proof (induction fuel arbitrary: t r s)
  case (Suc fuel)
  obtain tnow s1 where now: "getCoarseTime s = (tnow, s1)"
    by fastforce
  have s1: "be_frame s s1"
    using getCoarseTime_frame [OF now, of s] by simp
  define d where "d = max ((r_start_t r + r_t r * 10 - (tnow + r_min_t r)) div 10) 10000"
  consider (last) "output_wait E checked t (r, s1) = Inr (r', s')"
    | (some) r2 s2 where "output_wait E checked d (r, s1) = Inr (r2, s2)" "wait_loop E checked fuel (t - d) (r2, s2) = Inr (r', s')"
    | (poll) t2 r2 s2 where "wait_poll E checked t (r, s1) = Inr (t2, (r2, s2))" "wait_loop E checked fuel t2 (r2, s2) = Inr (r', s')"
    using Suc.prems by (auto simp: front now Let_def d_def split: if_splits)
  then show ?case
  proof cases
    case last
    then show ?thesis
      using running_frame(2) [OF last, of s] s1 by (simp add: serves_frame)
  next
    case some
    then show ?thesis
      using running_frame(2) [OF some(1), of s] s1 Suc.IH serves_trans [OF serves_frame] by blast
  next
    case poll
    then show ?thesis
      using serves_trans [OF serves_frame [OF s1]] serves_trans [OF wait_poll_serves [OF laws poll(1)] Suc.IH] by blast
  qed
qed simp

lemma runner_wait_serves:
  assumes "fqueue_laws (e_Q E) fin pend" and "e_frontend E = (\<lambda>s. s)" and "runner_wait E fuel checked t (r, s) = Inr (r', s')"
  shows "serves fin pend s s'"
  using assms wait_loop_serves [OF assms(1,2)] running_frame(1,2) [of E, where s = s and ?s0.0 = s]
  by (auto simp: runner_wait_def intro: serves_frame split: if_splits)

lemma runner_ttl_serves:
  assumes laws: "fqueue_laws (e_Q E) fin pend" and front: "e_frontend E = (\<lambda>s. s)"
    and run: "runner_ttl E fuel v t bank (r, s) = Inr (r', s')"
  shows "serves fin pend s s'"
proof -
  obtain ts k where 1: "(if t \<le> 1000 then advance E t (P_ttl True (v OR k) (ucast t) bank) (r, s\<lparr>m_ttl := ts\<rparr>)
     else bindR (advance E 100 (P_ttl True (v OR k) 100 bank) (r, s\<lparr>m_ttl := ts\<rparr>)) (runner_wait E fuel True (t - 100))) = Inr (r', s')"
    using run unfolding runner_ttl_def Let_def prod.case bindR_eq_Inr by blast
  show ?thesis
  proof (cases "t \<le> 1000")
    case True
    then show ?thesis
      using 1 running_frame(1) [of E, where ?s0.0 = s] by (auto intro!: serves_frame)
  next
    case False
    then obtain r1 s1 where 2: "advance E 100 (P_ttl True (v OR k) 100 bank) (r, s\<lparr>m_ttl := ts\<rparr>) = Inr (r1, s1)"
      "runner_wait E fuel True (t - 100) (r1, s1) = Inr (r', s')"
      using 1 by auto
    show ?thesis
      using serves_trans [OF serves_frame runner_wait_serves [OF laws front 2(2)]] running_frame(1) [OF 2(1), of s] by simp
  qed
qed

lemma runner_dds_serves:
  assumes laws: "fqueue_laws (e_Q E) fin pend" and front: "e_frontend E = (\<lambda>s. s)"
  shows "runner_dds_freq E fuel chn f (r, s) = Inr (r', s') \<Longrightarrow> serves fin pend s s'"
    and "runner_dds_amp E fuel chn v (r, s) = Inr (r', s') \<Longrightarrow> serves fin pend s s'"
    and "runner_dds_phase E fuel chn v (r, s) = Inr (r', s') \<Longrightarrow> serves fin pend s s'"
    and "runner_dds_detphase E fuel chn v (r, s) = Inr (r', s') \<Longrightarrow> serves fin pend s s'"
proof -
  note adv = running_frame(1) [of E, where ?s0.0 = s] and wait = runner_wait_serves [OF laws front]
  show "runner_dds_freq E fuel chn f (r, s) = Inr (r', s') \<Longrightarrow> serves fin pend s s'"
    and "runner_dds_amp E fuel chn v (r, s) = Inr (r', s') \<Longrightarrow> serves fin pend s s'"
    by (auto simp: runner_dds_freq_def runner_dds_amp_def adv intro: wait serves_frame split: if_splits)
  have phase: "serves fin pend s s'" if "runner_dds_phase E fuel chn v (r, s) = Inr (r', s')" for v
    using that by (auto simp: runner_dds_phase_def adv intro: wait serves_frame split: if_splits)
  show "runner_dds_phase E fuel chn v (r, s) = Inr (r', s') \<Longrightarrow> serves fin pend s s'"
    by (rule phase)
  show "runner_dds_detphase E fuel chn v (r, s) = Inr (r', s') \<Longrightarrow> serves fin pend s s'"
    by (auto simp: runner_dds_detphase_def intro: wait phase split: if_splits)
qed

lemma run_call_serves:
  assumes laws: "fqueue_laws (e_Q E) fin pend" and front: "e_frontend E = (\<lambda>s. s)"
    and run: "run_call E fuel c (r, s) = Inr (r', s')"
  shows "serves fin pend s s'"
proof (cases c)
  case (R_ttl1 chn v t)
  then show ?thesis
    using run runner_ttl_serves [OF laws front] by (auto simp: runner_ttl1_def Let_def)
next
  case (R_wait_trigger chn v t)
  then show ?thesis
    using run by (auto simp: runner_wait_trigger_def frames getCoarseTime_def intro!: serves_frame)
qed (use run runner_ttl_serves [OF laws front] runner_dds_serves [OF laws front] runner_wait_serves [OF laws front]
      running_frame [of E, where ?s0.0 = s] in \<open>auto simp: runner_dac_def intro: serves_frame\<close>)

lemma drain_results_serves:
  assumes laws: "fqueue_laws (e_Q E) fin pend" and front: "e_frontend E = (\<lambda>s. s)"
    and run: "drain_results E fuel s = Inr s'"
  shows "serves fin pend s s'"
  using run
proof (induction fuel arbitrary: s)
  case (Suc fuel)
  then show ?case
    using serves_trans [OF try_get_result_serves [OF laws]] by (auto simp: front split: if_splits)
qed simp

lemma wait_finished_frame:
  assumes front: "e_frontend E = (\<lambda>s. s)" and run: "wait_finished E fuel s = Inr s'"
  shows "be_frame s0 s' = be_frame s0 s"
  using run
proof (induction fuel arbitrary: s)
  case (Suc fuel)
  obtain b s1 where s1: "p_get (p_is_finished (e_P E)) s = Inr (b, s1)"
    using Suc.prems by auto
  then show ?case
    using Suc pulser_frame(1) [OF s1] by (cases b) (simp_all add: front)
qed simp

lemma wait_seq_end_serves:
  assumes laws: "fqueue_laws (e_Q E) fin pend" and front: "e_frontend E = (\<lambda>s. s)"
    and run: "wait_seq_end E fuel (r, s) = Inr (r', s')"
  shows "serves fin pend s s'"
  using run
proof (induction fuel arbitrary: r s)
  case (Suc fuel)
  obtain b s1 where s1: "p_get (p_is_finished (e_P E)) s = Inr (b, s1)"
    using Suc.prems by auto
  then have f: "serves fin pend s s1"
    using pulser_frame(1) [OF s1, of s] by (simp add: serves_frame)
  show ?case
  proof (cases b)
    case False
    then obtain x r2 s2 where "process_reqcmd E False (Some r, s1) = Inr (x, (Some r2, s2))"
      "wait_seq_end E fuel (r2, s2) = Inr (r', s')"
      using Suc.prems s1 by (fastforce simp: front split: option.splits)
    then show ?thesis
      using serves_trans [OF f serves_trans [OF process_reqcmd_serves [OF laws] Suc.IH]] by simp
  qed (use Suc.prems s1 f in simp)
qed simp

end
