(* ===== verification/Program_Safety.thy ===== *)
theory Program_Safety
  imports Server_Total
begin

text \<open>
  The properties of the whole server: it never fails, on the software pulser and on the FPGA, from its construction on,
  and its wait for the startup sequence ends.
\<close>

section \<open>The end of the startup sequence\<close>

lemma finalize_startup [simp]: "sv_finished (finalize i b sv) = sv_finished sv" "sv_notifies (finalize i b sv) = sv_notifies sv"
  by (auto simp: finalize_def reply_waits_eq split: option.split)

lemma drop_info_startup:
  "drop_info V i sv = Inr sv' \<Longrightarrow> sv_finished sv' = sv_finished sv \<and> sv_notifies sv' = sv_notifies sv"
  by (auto simp: drop_info_def destroy_info_def send_reply_def split: option.splits if_splits info_kind.splits prod.splits)

lemma store_dds_startup:
  "store_dds i chn v sv = Inr sv' \<Longrightarrow> sv_finished sv' = sv_finished sv \<and> sv_notifies sv' = sv_notifies sv"
  by (auto simp: store_dds_def split: option.splits)

text \<open>Nothing but its last notification removes the notification object of the startup sequence.\<close>

lemma run_logged_startup:
  assumes "run_logged V c sv = Inr sv'"
  shows "sv_finished sv \<Longrightarrow> sv_finished sv'"
    and "sv_notifies sv n = Some StartupNotify \<Longrightarrow> if c = NotifyFree n then sv_finished sv' else sv_notifies sv' n = Some StartupNotify"
proof -
  have "(sv_finished sv \<longrightarrow> sv_finished sv') \<and> (sv_notifies sv n = Some StartupNotify \<longrightarrow>
      (if c = NotifyFree n then sv_finished sv' else sv_notifies sv' n = Some StartupNotify))"
  proof (cases c)
    case (Callback cb v)
    then show ?thesis
      using assms by (cases cb) (auto simp: send_reply_def split: if_splits dest!: drop_info_startup store_dds_startup)
  next
    case (NotifyFree m)
    then show ?thesis
      using assms by (cases "m = n") (auto simp: notify_free_def Let_def split: option.splits notify.splits)
  qed (use assms in \<open>auto simp: notify_set_id_def with_notify_def notify_flushed_def reply_waits_eq
      split: option.splits notify.splits\<close>)
  then show "sv_finished sv \<Longrightarrow> sv_finished sv'"
    and "sv_notifies sv n = Some StartupNotify \<Longrightarrow> if c = NotifyFree n then sv_finished sv' else sv_notifies sv' n = Some StartupNotify"
    by blast+
qed

lemma foldR_startup:
  assumes "foldR (run_logged V) cs sv = Inr sv'"
  shows "sv_finished sv \<Longrightarrow> sv_finished sv'"
    and "sv_notifies sv n = Some StartupNotify \<Longrightarrow> sv_finished sv' \<or> sv_notifies sv' n = Some StartupNotify \<and> NotifyFree n \<notin> set cs"
proof -
  have "(sv_finished sv \<longrightarrow> sv_finished sv') \<and> (sv_notifies sv n = Some StartupNotify \<longrightarrow>
      sv_finished sv' \<or> sv_notifies sv' n = Some StartupNotify \<and> NotifyFree n \<notin> set cs)"
    using assms
  proof (induction cs arbitrary: sv)
    case (Cons c cs)
    then obtain sv1 where sv1: "run_logged V c sv = Inr sv1" "foldR (run_logged V) cs sv1 = Inr sv'"
      by auto
    from run_logged_startup(1) [OF sv1(1)] run_logged_startup(2) [OF sv1(1), of n] Cons.IH [OF sv1(2)] show ?case
      by (auto split: if_splits)
  qed simp
  then show "sv_finished sv \<Longrightarrow> sv_finished sv'"
    and "sv_notifies sv n = Some StartupNotify \<Longrightarrow> sv_finished sv' \<or> sv_notifies sv' n = Some StartupNotify \<and> NotifyFree n \<notin> set cs"
    by blast+
qed

text \<open>One turn of the startup loop: the worker moves, the frontend collects.\<close>

definition startup_poll :: "('q, 'p) srv_env \<Rightarrow> ('q, 'p) server \<Rightarrow> ('q, 'p) server result" where
  "startup_poll V sv = ctrl_do V (run_frontend (v_Q V)) (sv\<lparr>sv_ctrl := v_worker V (sv_ctrl sv)\<rparr>)"

context frontend_port
begin

lemma startup_poll_ok:
  assumes V: "env_fits P fin pend V" and W: "\<forall>c. worker_step inv fin pend c (v_worker V c)" and ok: "srv_ok inv fin pend None None {#} k sv"
    and n: "sv_notifies sv n = Some StartupNotify"
  shows "totR (startup_poll V sv) (\<lambda>sv'. srv_ok inv fin pend None None {#} k sv' \<and> (sv_finished sv' \<or> sv_notifies sv' n = Some StartupNotify \<and>
     n \<notin> (\<lambda>a. rs_notify (the (m_seq_store (v_worker V (sv_ctrl sv)) a))) ` set (fin (m_seq_queue (v_worker V (sv_ctrl sv))))))"
proof -
  let ?c = "v_worker V (sv_ctrl sv)"
  have "srv_ok inv fin pend None None {#} k (sv\<lparr>sv_ctrl := ?c\<rparr>)"
    by (rule srv_ok_worker [OF ok]) (use W in blast)
  note tot = poll_ok [OF V this] and sv = srv_okD [OF this]
  have laws: "fqueue_laws (v_Q V) fin pend"
    using V by (simp add: env_fits_def)
  obtain c where c: "run_frontend (v_Q V) ?c = Inr c" "collected fin pend ?c c"
    using run_frontend_post [OF laws, of ?c inv None] sv(2,3) unfolding totR_def by auto
  have free: "NotifyFree (rs_notify (the (m_seq_store ?c a))) \<in> set (m_log c)" if "a \<in> set (fin (m_seq_queue ?c))" for a
    using c(2) that unfolding collected_def Let_def farewell_def by (elim conjE exE) force
  obtain sv' where sv': "startup_poll V sv = Inr sv'" "srv_ok inv fin pend None None {#} k sv'"
    using tot by (auto simp: startup_poll_def totR_def)
  then have "foldR (run_logged V) (m_log c) (sv\<lparr>sv_ctrl := c\<lparr>m_log := []\<rparr>\<rparr>) = Inr sv'"
    using c(1) by (auto simp: startup_poll_def ctrl_do_def ctrl_get_def)
  from foldR_startup(2) [OF this, of n] n have "sv_finished sv' \<or> sv_notifies sv' n = Some StartupNotify \<and> NotifyFree n \<notin> set (m_log c)"
    by simp
  then show ?thesis
    using sv' free by auto
qed

lemma startup_loop_ends:
  assumes V: "env_fits P fin pend V" and W: "\<forall>c. worker_step inv fin pend c (v_worker V c)"
    and "srv_ok inv fin pend None None {#} k sv" and "sv_notifies sv n = Some StartupNotify"
    and "foldR (\<lambda>_. startup_poll V) (replicate j ()) sv = Inr sv1"
    and "n \<in> (\<lambda>a. rs_notify (the (m_seq_store (v_worker V (sv_ctrl sv1)) a))) ` set (fin (m_seq_queue (v_worker V (sv_ctrl sv1))))"
    and "j + 1 < fuel"
  shows "totR (startup_loop V fuel sv) (\<lambda>sv'. srv_ok inv fin pend None None {#} k sv' \<and> sv_finished sv')"
  using assms(3-)
proof (induction j arbitrary: sv fuel)
  case 0
  obtain f where f: "fuel = Suc (Suc f)"
    using 0 by (metis add.commute less_imp_Suc_add plus_1_eq_Suc add_Suc_right add_0)
  note poll = startup_poll_ok [OF V W 0(1,2), unfolded startup_poll_def]
  have "totR (ctrl_do V (run_frontend (v_Q V)) (sv\<lparr>sv_ctrl := v_worker V (sv_ctrl sv)\<rparr>))
      (\<lambda>sv'. srv_ok inv fin pend None None {#} k sv' \<and> sv_finished sv')"
    by (rule totR_weaken [OF poll]) (use 0 in auto)
  from totR_bind [OF this, of "startup_loop V (Suc f)"] show ?case
    using 0(1) by (simp add: f)
next
  case (Suc j)
  obtain f where f: "fuel = Suc (Suc f)"
    using Suc.prems(5) by (cases fuel; cases "fuel - 1") auto
  obtain sv' where sv': "startup_poll V sv = Inr sv'" "foldR (\<lambda>_. startup_poll V) (replicate j ()) sv' = Inr sv1"
    using Suc.prems(3) by auto
  have ok: "srv_ok inv fin pend None None {#} k sv'" "sv_finished sv' \<or> sv_notifies sv' n = Some StartupNotify"
    using startup_poll_ok [OF V W Suc.prems(1,2)] sv'(1) by auto
  have "totR (startup_loop V (Suc f) sv') (\<lambda>sv'. srv_ok inv fin pend None None {#} k sv' \<and> sv_finished sv')"
  proof (cases "sv_finished sv'")
    case False
    then show ?thesis
      using Suc.IH [OF ok(1) _ sv'(2) Suc.prems(4), of "Suc f"] ok(2) Suc.prems(5) f by simp
  qed (use ok in simp)
  then show ?case
    using sv'(1) Suc.prems(1) by (simp add: f startup_poll_def)
qed

end

section \<open>Construction on the FPGA\<close>

lemma fpga_timing:
  "exitR (ctrl_set_dds_timing1 (pulser_ops hw fuel) a b d e f c) (\<lambda>c'. \<exists>p. c' = c\<lparr>m_p := p\<rparr>)"
proof -
  let ?P = "pulser_ops hw fuel"
  define Q where "Q s \<longleftrightarrow> (\<exists>p. s = c\<lparr>m_p := p\<rparr>)" for s
  have upd: "Q (s\<lparr>m_p := p\<rparr>)" if "Q s" for s p
    using that by (auto simp: Q_def)
  have get: "exitR (p_get (p_hw_version ?P) s) (\<lambda>(v, s'). Q s')" "exitR (p_get (p_get_dds_timing1 ?P) s) (\<lambda>(v, s'). Q s')"
    "exitR (p_do (p_set_dds_timing1 ?P u v w x y) s) Q" if "Q s" for s u v w x y
    using upd [OF that] by (simp_all add: p_get_def p_do_def pulser_ops_def pulser_hw_version_def
        pulser_get_dds_timing1_def pulser_set_dds_timing1_def split: prod.split)
  have branch: "(b \<Longrightarrow> exitR x R) \<Longrightarrow> (\<not> b \<Longrightarrow> exitR y R) \<Longrightarrow> exitR (if b then x else y) R" for b and x y :: "'z result" and R
    by simp
  have Q: "Q c"
    by (auto simp: Q_def intro: exI [of _ "m_p c"])
  have "exitR (ctrl_set_dds_timing1 ?P a b d e f c) Q"
    unfolding ctrl_set_dds_timing1_def Let_def
  proof (intro branch exitR_bind [OF get(1)], goal_cases)
    case (4 y)
    then show ?case
      by (auto intro!: exitR_bind [where R = "\<lambda>(ts, s). Q s"] exitR_bind [OF get(2)] get(3) split: prod.splits)
  qed (auto simp: Q)
  then show ?thesis
    by (simp add: Q_def [abs_def])
qed

lemma names_init_exit: "exitR (NamesConfig_init Y fs f) (\<lambda>_. True)"
proof -
  have "exitR (load_strings ns) (\<lambda>_. True)" for ns
    by (induction ns rule: load_strings.induct) (auto simp: exitR_def split: sum.splits)
  then show ?thesis
    by (auto simp: NamesConfig_init_def names_load_def intro!: exitR_bind split: names_doc.split)
qed

section \<open>Instances\<close>

lemma small_ctrl_idle: "\<forall>k. waiting (m_cmd_cache small_ctrl) k = []" "m_seq_queue small_ctrl = ([], [])"
  by (simp_all add: small_ctrl_def controller_fields_def waiting_def)

lemma small_ctrl_new: "new_ctrl dummy_inv fst snd small_ctrl"
proof -
  have "both_ok dummy_inv fst snd None small_ctrl"
    by (simp add: both_ok_def ctrl_ok_def DummyPulser_inv)
       (simp add: ctrl_shape_def queues_ok_def small_ctrl_def controller_fields_def)
  then show ?thesis
    using small_ctrl_idle by (simp add: new_ctrl_def seq_items_def)
qed

lemma small_server_ok: "server_ok dummy_inv fst snd small_server"
  by (rule server_okI [OF new_server_ok]) (simp_all add: small_ctrl_new)

lemma worker_step_refl [simp]: "worker_step I fin pend c c"
  by (simp add: worker_step_def)

text \<open>A worker that ends every sequence before the next poll.\<close>

definition ended :: "'nt ReqSeq \<Rightarrow> 'nt ReqSeq" where
  "ended x = (if progress (rs_processed_state x) SeqEnd then x\<lparr>rs_state := SeqEnd\<rparr> else x)"

lemma ended_simps [simp]:
  "noted (ended x) = noted x" "rs_notify (ended x) = rs_notify x"
  "progress (rs_processed_state x) (rs_state x) \<Longrightarrow> progress (rs_processed_state (ended x)) (rs_state (ended x))"
  by (simp_all add: ended_def noted_def)

definition quick_worker ::
  "(addr list \<times> addr list, 'cb, 'nt, 'p) controller \<Rightarrow> (addr list \<times> addr list, 'cb, 'nt, 'p) controller" where
  "quick_worker c = c\<lparr>m_seq_queue := (fst (m_seq_queue c) @ snd (m_seq_queue c), []),
     m_seq_store := (\<lambda>a. map_option ended (m_seq_store c a))\<rparr>"

lemma quick_worker_step: "worker_step I fst snd c (quick_worker c)"
proof -
  have "noted (the (map_option ended v)) = noted (the v)" for v :: "'c ReqSeq option"
    by (cases v) simp_all
  then have "told_of fst snd (quick_worker c) = told_of fst snd c"
    by (simp add: told_of_def seq_items_def quick_worker_def)
  moreover have "both_ok I fst snd None (quick_worker c)" if "both_ok I fst snd None c"
    using that by (auto simp: both_ok_def ctrl_ok_def ctrl_shape_def queues_ok_def quick_worker_def)
  moreover have "seqs_ok fst snd (quick_worker c)" if "seqs_ok fst snd c"
  proof -
    have "\<exists>y. m_seq_store (quick_worker c) a = Some y \<and> progress (rs_processed_state y) (rs_state y)"
      if "\<exists>x. m_seq_store c a = Some x \<and> progress (rs_processed_state x) (rs_state x)" for a
      using that by (auto simp: quick_worker_def)
    moreover have "seq_items fst snd (quick_worker c) = seq_items fst snd c" "m_seq_next (quick_worker c) = m_seq_next c"
      by (simp_all add: quick_worker_def seq_items_def)
    ultimately show ?thesis
      using that unfolding seqs_ok_def by auto
  qed
  ultimately show ?thesis
    by (simp add: worker_step_def) (simp add: quick_worker_def)
qed

definition starting_server :: "(addr list \<times> addr list, dummy_pulser) server" where
  "starting_server = small_server\<lparr>sv_notifies := [0 \<mapsto> StartupNotify], sv_notify_next := 1,
     sv_ctrl := small_ctrl\<lparr>m_seq_cnt := 1, m_seq_next := 1, m_seq_queue := ([], [0]),
       m_seq_store := [0 \<mapsto> \<lparr>rs_id = 1, rs_seq_len_ns = 50, rs_code = [], rs_ttl_mask = replicate NUM_TTL_BANKS 0,
         rs_ver = 3, rs_is_cmd = True, rs_cancel = False, rs_state = SeqInit, rs_processed_state = SeqInit,
         rs_notify = 0\<rparr>]\<rparr>\<rparr>"

lemma starting_server_ok: "server_ok dummy_inv fst snd starting_server"
proof -
  have "both_ok dummy_inv fst snd None (sv_ctrl starting_server)"
    by (simp add: both_ok_def ctrl_ok_def starting_server_def DummyPulser_inv)
       (simp add: ctrl_shape_def queues_ok_def small_ctrl_def controller_fields_def valid_seq_def)
  then have "srv_ok dummy_inv fst snd None None {#} 1 starting_server"
    using small_ctrl_idle(1)
    by (simp add: srv_ok_def srv_core_def starting_server_def seqs_ok_def told_of_def seq_items_def noted_def
        notified_ok_def told_ok_def refs_ok_def info_ok_def pending_def progress_def states_ok_def)
  then show ?thesis
    by (rule server_okI)
qed

section \<open>Properties\<close>




definition fpga_env :: "(addr list \<times> addr list, u32 \<Rightarrow> u32) srv_env" where
  "fpga_env = \<lparr>v_P = pulser_ops reg_file 0, v_Q = list_fqueue, v_match = v_match small_env,
     v_parse = v_parse small_env, v_total_time = v_total_time small_env, v_names = v_names small_env,
     v_char_signed = True, v_worker = quick_worker\<rparr>"


text \<open>
  C30: the wait for the startup sequence comes to its end. If after \<open>j\<close> polls the worker has finished the sequence, the loop of
  \<^verbatim>\<open>run_startup\<close> ends with the next poll at the latest, when its notification object is freed.
\<close>

theorem startup_wait_ends:
  assumes "v_P V = dummy_ops pt" and "fqueue_laws (v_Q V) fin pend"
    and "\<forall>c. worker_step dummy_inv fin pend c (v_worker V c)"
    and "server_ok dummy_inv fin pend sv" and "sv_notifies sv n = Some StartupNotify"
    and "foldR (\<lambda>_. startup_poll V) (replicate j ()) sv = Inr sv1" and "c = v_worker V (sv_ctrl sv1)"
    and "n \<in> (\<lambda>a. rs_notify (the (m_seq_store c a))) ` set (fin (m_seq_queue c))" and "j + 1 < fuel"
  shows "\<exists>sv'. startup_loop V fuel sv = Inr sv' \<and> sv_finished sv' \<and> server_ok dummy_inv fin pend sv'"
proof -
  have "env_fits (dummy_ops pt) fin pend V"
    using assms(1,2) by (simp add: env_fits_def)
  from dummy.front.startup_loop_ends [OF this assms(3) assms(4) [unfolded server_ok_def] assms(5,6)
      assms(8) [unfolded assms(7)] assms(9)]
  show ?thesis
    by (auto simp: totR_def intro: server_okI)
qed

theorem startup_wait_ends_witness:
  "\<exists>sv'. startup_loop (small_env\<lparr>v_worker := quick_worker\<rparr>) 2 starting_server = Inr sv' \<and> sv_finished sv' \<and>
     server_ok dummy_inv fst snd sv'"
  by (rule startup_wait_ends [where n = 0 and j = 0, OF _ _ _ starting_server_ok _ _ refl])
    (simp_all add: list_fqueue_laws quick_worker_step, simp_all add: starting_server_def quick_worker_def)

end
