(* ===== verification/System.thy ===== *)
theory System
  imports Worker_Frames Program_Safety
begin

unbundle bit_operations_syntax

text \<open>
  The two threads together. The worker is cut into moves, each a piece of \<^verbatim>\<open>Controller::worker\<close> or \<^verbatim>\<open>run_seq\<close>, and the
  server handles requests in between; both use the same controller, so that nothing is assumed of either.
\<close>

section \<open>The worker in moves\<close>

text \<open>
  Where the worker is. A loop that polls the pulser can also be left to the other thread after an
  iteration (\<open>M_poll\<close>).
\<close>

datatype wstate =
    W_idle
  | W_taken addr
  | W_running addr bool runner
  | W_flushed addr bool runner
  | W_cleanup addr
  | W_done addr ReqSeqState

datatype wmove =
    M_poll | M_sync | M_detect
  | M_take
  | M_start
  | M_call runner_call
  | M_flush "string option"
  | M_finish
  | M_cleanup
  | M_release

text \<open>A move that is not the worker's next one does nothing.\<close>

fun worker_move ::
  "('q, 'cb, 'nt, 'p) ctrl_env \<Rightarrow> nat \<Rightarrow> wmove \<Rightarrow> wstate \<times> ('q, 'cb, 'nt, 'p) controller
    \<Rightarrow> (wstate \<times> ('q, 'cb, 'nt, 'p) controller) result" where
  "worker_move E fuel M_poll (W_idle, s) =
     bindR (process_reqcmd E False (None, s)) (\<lambda>(_, (_, s')). Inr (W_idle, s'))"
| "worker_move E fuel M_sync (W_idle, s) =
     bindR (p_get (p_is_finished (e_P E)) s) (\<lambda>(fin, s1).
     bindR (if fin then sync_ttl (e_P E) s1 else Inr s1) (\<lambda>s'. Inr (W_idle, s')))"
| "worker_move E fuel M_detect (W_idle, s) = bindR (detect_if_idle E s) (\<lambda>s'. Inr (W_idle, s'))"
| "worker_move E fuel M_take (W_idle, s) =
     (case get_seq (e_Q E) s of
        None \<Rightarrow> Inr (W_idle, s)
      | Some a \<Rightarrow>
          (case m_seq_store s a of
             None \<Rightarrow> Inl OutOfRange
           | Some seq \<Rightarrow>
               if rs_cancel seq then bindR (set_seq_state a SeqCancel s) (\<lambda>s'. Inr (W_done a SeqCancel, s'))
               else Inr (W_taken a, s)))"
| "worker_move E fuel M_poll (W_taken a, s) = bindR (try_get_result E False s) (\<lambda>(_, s'). Inr (W_taken a, s'))"
| "worker_move E fuel M_start (W_taken a, s) =
     bindR (run_seq_begin E fuel a s) (\<lambda>s1.
       case m_seq_store s1 a of
         None \<Rightarrow> Inl OutOfRange
       | Some seq \<Rightarrow>
           let (r, s') = Runner E (rs_ttl_mask seq) (rs_seq_len_ns seq) s1
           in bindR (assertR (rs_ver seq = 1 \<or> rs_ver seq = 2 \<or> rs_ver seq = 3)) (\<lambda>_.
              Inr (W_running a (rs_is_cmd seq) r, s')))"
| "worker_move E fuel (M_call c) (W_running a is_cmd r, s) =
     bindR (run_call E fuel c (r, s)) (\<lambda>(r', s'). Inr (W_running a is_cmd r', s'))"
| "worker_move E fuel (M_flush err) (W_running a is_cmd r, s) =
     bindR (run_seq_flush E fuel a is_cmd (r, case err of None \<Rightarrow> s | Some msg \<Rightarrow> log_line (LogSeqError msg) s))
       (\<lambda>(r', s'). Inr (W_flushed a is_cmd r', s'))"
| "worker_move E fuel M_poll (W_flushed a is_cmd r, s) =
     bindR (process_reqcmd E False (Some r, s)) (\<lambda>(_, (r', s')).
       case r' of None \<Rightarrow> Inl Abort | Some r1 \<Rightarrow> Inr (W_flushed a is_cmd r1, s'))"
| "worker_move E fuel M_finish (W_flushed a is_cmd r, s) =
     bindR (run_seq_finish E fuel a is_cmd (r, s)) (\<lambda>(_, s'). Inr (W_cleanup a, s'))"
| "worker_move E fuel M_cleanup (W_cleanup a, s) = bindR (run_seq_cleanup E s) (\<lambda>s'. Inr (W_done a SeqEnd, s'))"
| "worker_move E fuel M_release (W_done a st, s) = Inr (W_idle, finish_seq (e_Q E) s)"
| "worker_move E fuel _ (w, s) = Inr (w, s)"

text \<open>In order, the moves are the worker.\<close>

lemma calls_in_order:
  "foldR (worker_move E fuel) (map M_call calls) (W_running a is_cmd r, s) =
     bindR (foldR (run_call E fuel) calls (r, s)) (\<lambda>(r', s'). Inr (W_running a is_cmd r', s'))"
proof (induction calls arbitrary: r s)
  case (Cons c calls)
  show ?case
  proof (cases "run_call E fuel c (r, s)")
    case (Inr rs)
    then show ?thesis
      using Cons by (cases rs) simp
  qed simp
qed simp

lemma moves_are_worker_seq:
  assumes "get_seq (e_Q E) s = Some a" and "m_seq_store s a = Some seq" and "\<not> rs_cancel seq"
    and "run_seq_begin E fuel a s = Inr s1" and "m_seq_store s1 a = Some seq1" and "valid_seq seq1"
    and "exe (rs_is_cmd seq1) (if rs_ver seq1 > 1 then Some (PT_Min2 (e_pt E)) else None) (rs_code seq1) (rs_ver seq1) = (calls, err)"
  shows "foldR (worker_move E fuel) ([M_take, M_start] @ map M_call calls @ [M_flush err, M_finish, M_cleanup, M_release]) (W_idle, s) =
     bindR (worker_seq E exe fuel s) (\<lambda>s'. Inr (W_idle, s'))"
proof -
  obtain r s2 where rs: "Runner E (rs_ttl_mask seq1) (rs_seq_len_ns seq1) s1 = (r, s2)"
    by fastforce
  have ver: "rs_ver seq1 = 1 \<or> rs_ver seq1 = 2 \<or> rs_ver seq1 = 3"
    using assms(6) by (simp add: valid_seq_def)
  have seq: "worker_seq E exe fuel s = bindR (foldR (run_call E fuel) calls (r, s2)) (\<lambda>(r3, s3).
      bindR (run_seq_flush E fuel a (rs_is_cmd seq1) (r3, case err of None \<Rightarrow> s3 | Some msg \<Rightarrow> log_line (LogSeqError msg) s3)) (\<lambda>rs3.
      bindR (run_seq_finish E fuel a (rs_is_cmd seq1) rs3) (\<lambda>(r4, s4).
      bindR (run_seq_cleanup E s4) (\<lambda>s5. Inr (finish_seq (e_Q E) s5)))))"
    using assms(1-5) ver
    by (simp add: worker_seq_def run_seq_def run_seq_code_def rs Let_def assms(7) bindR_assoc split_def)
  show ?thesis
    unfolding seq using assms(1-5) ver
    by (simp add: foldR_append calls_in_order rs bindR_assoc split_def)
qed

section \<open>Both threads\<close>

datatype event = Serve "(zaddr \<times> bytes list) option" | Move wmove

definition sys_step ::
  "('q, 'p) srv_env \<Rightarrow> ('q, scb, nat, 'p) ctrl_env \<Rightarrow> nat \<Rightarrow> event \<Rightarrow> ('q, 'p) server \<times> wstate
    \<Rightarrow> (('q, 'p) server \<times> wstate) result" where
  "sys_step V E fuel e = (\<lambda>(sv, w).
     case e of
       Serve msg \<Rightarrow> bindR (run_turn V msg sv) (\<lambda>sv'. Inr (sv', w))
     | Move m \<Rightarrow> bindR (worker_move E fuel m (w, sv_ctrl sv)) (\<lambda>(w', c). Inr (sv\<lparr>sv_ctrl := c\<rparr>, w')))"

definition sys_run ::
  "('q, 'p) srv_env \<Rightarrow> ('q, scb, nat, 'p) ctrl_env \<Rightarrow> nat \<Rightarrow> event list \<Rightarrow> ('q, 'p) server \<times> wstate
    \<Rightarrow> (('q, 'p) server \<times> wstate) result" where
  "sys_run V E fuel = foldR (sys_step V E fuel)"

text \<open>Requests as in \<open>server_never_fails\<close>, and calls of a sequence whose operands are in range.\<close>

definition safe_event :: "('q, 'p) srv_env \<Rightarrow> event \<Rightarrow> bool" where
  "safe_event V e \<longleftrightarrow>
     (case e of
        Serve msg \<Rightarrow> \<forall>addr parts. msg = Some (addr, parts) \<longrightarrow> safe_request V parts
      | Move m \<Rightarrow> \<forall>c. m = M_call c \<longrightarrow> valid_call c)"

text \<open>What the worker holds, and the state that its sequence has been given.\<close>

fun seq_of :: "wstate \<Rightarrow> addr option" where
  "seq_of W_idle = None"
| "seq_of (W_taken a) = Some a"
| "seq_of (W_running a is_cmd r) = Some a"
| "seq_of (W_flushed a is_cmd r) = Some a"
| "seq_of (W_cleanup a) = Some a"
| "seq_of (W_done a st) = Some a"

fun state_of :: "wstate \<Rightarrow> ReqSeqState list" where
  "state_of W_idle = []"
| "state_of (W_taken a) = [SeqInit]"
| "state_of (W_running a is_cmd r) = [SeqStart]"
| "state_of (W_flushed a is_cmd r) = [SeqFlushed]"
| "state_of (W_cleanup a) = [SeqEnd]"
| "state_of (W_done a st) = [st]"

fun runner_of :: "wstate \<Rightarrow> runner option" where
  "runner_of (W_running a is_cmd r) = Some r"
| "runner_of (W_flushed a is_cmd r) = Some r"
| "runner_of w = None"

definition sys_ok :: "('p \<Rightarrow> bool) \<Rightarrow> ('q \<Rightarrow> addr list) \<Rightarrow> ('q \<Rightarrow> addr list) \<Rightarrow> u64 \<Rightarrow> ('q, 'p) server \<times> wstate \<Rightarrow> bool" where
  "sys_ok I fin pend k = (\<lambda>(sv, w). srv_ok I fin pend (seq_of w) (Some (state_of w)) {#} k sv \<and> pred_option runner_ok (runner_of w))"

text \<open>One announcement, among steps that only serve requests.\<close>

definition announces ::
  "('q \<Rightarrow> addr list) \<Rightarrow> ('q \<Rightarrow> addr list) \<Rightarrow> addr \<Rightarrow> ReqSeqState \<Rightarrow> ('q, 'cb, 'nt, 'p) controller \<Rightarrow> ('q, 'cb, 'nt, 'p) controller \<Rightarrow> bool" where
  "announces fin pend a st s s' \<longleftrightarrow> m_log s' = m_log s \<and> m_cmd_cache s' = m_cmd_cache s \<and> m_seq_cnt s' = m_seq_cnt s \<and>
     m_seq_next s' = m_seq_next s \<and> m_seq_queue s' = m_seq_queue s \<and>
     (\<exists>seq. m_seq_store s a = Some seq \<and> m_seq_store s' = (m_seq_store s)(a \<mapsto> seq\<lparr>rs_state := st\<rparr>)) \<and>
     (cmds_ok fin pend s \<longrightarrow> cmds_ok fin pend s')"

lemma announcesI:
  assumes "serves fin pend s s1" and "set_seq_state a st s1 = Inr s2" and "serves fin pend s2 s'"
  shows "announces fin pend a st s s'"
proof -
  obtain seq where seq: "m_seq_store s1 a = Some seq" "s2 = s1\<lparr>m_seq_store := (m_seq_store s1)(a \<mapsto> seq\<lparr>rs_state := st\<rparr>)\<rparr>"
    using assms(2) by (auto simp: set_seq_state_def split: option.splits)
  then have "cmds_ok fin pend s2 = cmds_ok fin pend s1"
    by (simp add: cmds_ok_def)
  then show ?thesis
    using assms(1,3) seq by (simp add: announces_def serves_def)
qed

section \<open>Each move keeps the invariant\<close>

lemma srv_ok_serves:
  assumes "srv_ok I fin pend cur st X k sv" and "serves fin pend (sv_ctrl sv) c" and "ctrl_ok I pend cur c"
  shows "srv_ok I fin pend cur st X k (sv\<lparr>sv_ctrl := c\<rparr>)"
proof -
  have same: "m_seq_queue c = m_seq_queue (sv_ctrl sv)" "m_seq_store c = m_seq_store (sv_ctrl sv)"
    "m_seq_next c = m_seq_next (sv_ctrl sv)"
    using assms(2) by (simp_all add: serves_def)
  have "told_of fin pend c = told_of fin pend (sv_ctrl sv)" "seqs_ok fin pend c = seqs_ok fin pend (sv_ctrl sv)"
    "states_of pend c = states_of pend (sv_ctrl sv)"
    by (simp_all add: told_of_def seqs_ok_def seq_items_def states_of_def same)
  then show ?thesis
    using assms srv_okD [OF assms(1)] notified_statuses [of "sv\<lparr>sv_ctrl := c\<rparr>" sv] states_ok_cong [of pend c "sv_ctrl sv" st]
    by (simp add: srv_ok_def srv_core_def both_ok_iff serves_def refs_ok_def)
qed

definition next_state :: "ReqSeqState \<Rightarrow> ReqSeqState \<Rightarrow> bool" where
  "next_state x y \<longleftrightarrow> (x, y) \<in> {(SeqInit, SeqStart), (SeqStart, SeqFlushed), (SeqFlushed, SeqEnd), (SeqInit, SeqCancel)}"

lemma srv_ok_announces:
  assumes ok: "srv_ok I fin pend (Some a) (Some [x]) X k sv" and ann: "announces fin pend a y (sv_ctrl sv) c"
    and c: "ctrl_ok I pend (Some a) c" and xy: "next_state x y"
  shows "srv_ok I fin pend (Some a) (Some [y]) X k (sv\<lparr>sv_ctrl := c\<rparr>)"
proof -
  note sv = srv_okD [OF ok]
  obtain seq where seq: "m_seq_store (sv_ctrl sv) a = Some seq" "m_seq_store c = (m_seq_store (sv_ctrl sv))(a \<mapsto> seq\<lparr>rs_state := y\<rparr>)"
    using ann by (auto simp: announces_def)
  have queue: "m_seq_queue c = m_seq_queue (sv_ctrl sv)" "m_seq_next c = m_seq_next (sv_ctrl sv)"
    using ann by (simp_all add: announces_def)
  obtain as where as: "pend (m_seq_queue (sv_ctrl sv)) = a # as"
    using c queue by (auto simp: ctrl_ok_def queues_ok_def head_opt_eq_Some)
  obtain n where n: "rs_state seq = x" "map (\<lambda>b. rs_state (the (m_seq_store (sv_ctrl sv) b))) as = replicate n SeqInit"
    using sv(9) seq(1) by (auto simp: states_ok_def states_of_def as)
  have distinct: "a \<notin> set as" "progress (rs_processed_state seq) x"
    using sv(3) seq(1) n(1) by (auto simp: seqs_ok_def seq_items_def as)
  have noted: "noted (the (m_seq_store c b)) = noted (the (m_seq_store (sv_ctrl sv) b))" for b
    using seq by (simp add: noted_def)
  have pr: "progress (rs_processed_state seq) y"
    using distinct(2) xy by (cases "rs_processed_state seq") (auto simp: next_state_def progress_def seq_state_less)
  have told: "told_of fin pend c = told_of fin pend (sv_ctrl sv)"
    by (simp add: told_of_def seq_items_def queue noted)
  have seqs: "seqs_ok fin pend c"
    using sv(3) seq pr unfolding seqs_ok_def by (auto simp: seq_items_def queue)
  have "map (\<lambda>b. rs_state (the (m_seq_store c b))) as = map (\<lambda>b. rs_state (the (m_seq_store (sv_ctrl sv) b))) as"
    using distinct(1) seq by auto
  then have "states_of pend c = y # replicate n SeqInit"
    using n(2) by (simp add: states_of_def queue as) (simp add: seq)
  then have "states_ok pend (Some [y]) c"
    by (auto simp: states_ok_def)
  then show ?thesis
    using sv ann c ok told seqs notified_statuses [of "sv\<lparr>sv_ctrl := c\<rparr>" sv]
    by (simp add: srv_ok_def srv_core_def both_ok_iff announces_def refs_ok_def)
qed

lemma srv_ok_take:
  assumes ok: "srv_ok I fin pend None (Some []) X k sv" and a: "head_opt (pend (m_seq_queue (sv_ctrl sv))) = Some a"
  shows "srv_ok I fin pend (Some a) (Some [SeqInit]) X k sv"
proof -
  obtain n where n: "states_of pend (sv_ctrl sv) = replicate n SeqInit"
    using srv_okD(9) [OF ok] by (auto simp: states_ok_def)
  moreover have "n \<noteq> 0"
    using n a by (cases n) (auto simp: states_of_def head_opt_eq_Some)
  ultimately have "states_ok pend (Some [SeqInit]) (sv_ctrl sv)"
    by (cases n) (auto simp: states_ok_def)
  then show ?thesis
    using ok a by (auto simp: srv_ok_def srv_core_def both_ok_def ctrl_ok_def queues_ok_def)
qed

lemma srv_ok_release:
  assumes ok: "srv_ok I fin pend (Some a) (Some [x]) X k sv" and laws: "fqueue_laws Q fin pend"
  shows "srv_ok I fin pend None (Some []) X k (sv\<lparr>sv_ctrl := finish_seq Q (sv_ctrl sv)\<rparr>)"
proof -
  let ?c = "sv_ctrl sv"
  note sv = srv_okD [OF ok]
  have c: "ctrl_ok I pend (Some a) ?c" "cmds_ok fin pend ?c"
    using sv(2) by (simp_all add: both_ok_iff)
  then obtain as where as: "pend (m_seq_queue ?c) = a # as"
    by (auto simp: ctrl_ok_def queues_ok_def head_opt_eq_Some)
  note f = fqueue_lawsD(9,10) [OF laws as]
  have items: "seq_items fin pend (finish_seq Q ?c) = seq_items fin pend ?c"
    by (simp add: seq_items_def finish_seq_def backend_event_def f as)
  have same: "m_log (finish_seq Q ?c) = m_log ?c" "m_cmd_cache (finish_seq Q ?c) = m_cmd_cache ?c"
    "m_seq_cnt (finish_seq Q ?c) = m_seq_cnt ?c" "m_seq_store (finish_seq Q ?c) = m_seq_store ?c"
    "m_seq_next (finish_seq Q ?c) = m_seq_next ?c" "cmds_ok fin pend (finish_seq Q ?c) = cmds_ok fin pend ?c"
    by (simp_all add: finish_seq_def backend_event_def cmds_ok_def)
  have "states_of pend (finish_seq Q ?c) = tl (states_of pend ?c)"
    by (simp add: states_of_def finish_seq_def backend_event_def f as)
  then have "states_ok pend (Some []) (finish_seq Q ?c)"
    using sv(9) by (auto simp: states_ok_def simp del: replicate.simps)
  then show ?thesis
    using sv ok finish_seq_ok [OF c(1) laws] c(2) notified_statuses [of "sv\<lparr>sv_ctrl := finish_seq Q ?c\<rparr>" sv]
    by (simp add: srv_ok_def srv_core_def both_ok_iff refs_ok_def told_of_def seqs_ok_def items same)
qed

lemma srv_ok_forget: "srv_ok I fin pend cur st X k sv \<Longrightarrow> srv_ok I fin pend None None X k sv"
  by (simp add: srv_ok_def srv_core_def both_ok_def ctrl_ok_def queues_ok_def states_ok_def)

text \<open>What the worker relies on of the queue and the constants, when no other thread runs during a move.\<close>

definition env_alone :: "('q \<Rightarrow> addr list) \<Rightarrow> ('q \<Rightarrow> addr list) \<Rightarrow> ('q, 'cb, 'nt, 'p) ctrl_env \<Rightarrow> bool" where
  "env_alone fin pend E \<longleftrightarrow> fqueue_laws (e_Q E) fin pend \<and> PT_Min (e_pt E) \<le> max_wait_t \<and> e_frontend E = (\<lambda>s. s)"

lemma env_aloneD:
  assumes "env_alone fin pend E"
  shows "fqueue_laws (e_Q E) fin pend" "e_frontend E = (\<lambda>s. s)" "env_ok I fin pend E"
  using assms by (simp_all add: env_alone_def env_ok_def)

lemma announces_serves: "announces fin pend a st s s1 \<Longrightarrow> serves fin pend s1 s' \<Longrightarrow> announces fin pend a st s s'"
  by (simp add: announces_def serves_def)

lemma run_seq_begin_announces:
  assumes E: "env_alone fin pend E" and run: "run_seq_begin E fuel a s = Inr s'"
  shows "announces fin pend a SeqStart s s'"
proof -
  note laws = env_aloneD(1,2) [OF E]
  obtain s1 s2 s3 s4 s5 s6 where d: "drain_results E fuel s = Inr s1" "wait_finished E fuel s1 = Inr s2" "sync_ttl (e_P E) s2 = Inr s3"
    "p_do (p_set_hold (e_P E)) (called SetHold s3) = Inr s4" "p_do (p_toggle_init (e_P E)) (called ToggleInit s4) = Inr s5"
    "set_seq_state a SeqStart s5 = Inr s6" "s' = backend_event s6"
    using run by (auto simp: run_seq_begin_def)
  have "be_frame s1 s5"
    using wait_finished_frame [OF laws(2) d(2), of s1] housekeeping_frame(2) [OF d(3), of s1]
      pulser_frame(2) [OF d(4), of s1] pulser_frame(2) [OF d(5), of s1] by simp
  then have "serves fin pend s s5"
    using serves_trans [OF drain_results_serves [OF laws d(1)] serves_frame] by blast
  then show ?thesis
    by (rule announcesI [OF _ d(6)]) (simp add: d(7) serves_frame)
qed

lemma run_seq_flush_announces:
  assumes E: "env_alone fin pend E" and run: "run_seq_flush E fuel a is_cmd (r, s) = Inr (r', s')"
  shows "announces fin pend a SeqFlushed s s'"
proof -
  note laws = env_aloneD(1,2) [OF E]
  obtain r1 s1 s2 s3 where d: "runner_wait E fuel False (ucast (PT_Min (e_pt E))) (r, s) = Inr (r1, s1)"
    "ctrl_release_hold (e_P E) s1 = Inr s2" "set_seq_state a SeqFlushed s2 = Inr s3"
    "is_cmd \<and> s' = backend_event s3 \<or> runner_clock E False 9 (r1, backend_event s3) = Inr (r', s')"
    using run by (fastforce simp: run_seq_flush_def split: if_splits)
  have "serves fin pend s s2"
    using serves_trans [OF runner_wait_serves [OF laws d(1)] serves_frame] pulser_frame(3) [OF d(2), of s1] by simp
  moreover have "be_frame s3 s'"
    using d(4) running_frame(3) [of E False 9 r1 "backend_event s3" r' s' s3] by auto
  ultimately show ?thesis
    by (rule announcesI [OF _ d(3) serves_frame])
qed

lemma run_seq_finish_announces:
  assumes E: "env_alone fin pend E" and run: "run_seq_finish E fuel a is_cmd (r, s) = Inr (r', s')"
  shows "announces fin pend a SeqEnd s s'"
proof -
  note laws = env_aloneD(1,2) [OF E]
  obtain r1 s1 s2 where d: "wait_seq_end E fuel (r, s) = Inr (r1, s1)" "set_seq_state a SeqEnd s1 = Inr s2"
    "is_cmd \<and> s' = backend_event s2 \<or>
     bindR (runner_wait E fuel False 1000000 (enable_process_cmd r1, backend_event s2)) (runner_clock E False 255) = Inr (r', s')"
    using run by (fastforce simp: run_seq_finish_def split: if_splits)
  have "serves fin pend s2 s'"
    using d(3)
  proof
    assume "bindR (runner_wait E fuel False 1000000 (enable_process_cmd r1, backend_event s2)) (runner_clock E False 255) = Inr (r', s')"
    then obtain r3 s3 where "runner_wait E fuel False 1000000 (enable_process_cmd r1, backend_event s2) = Inr (r3, s3)"
      "runner_clock E False 255 (r3, s3) = Inr (r', s')"
      by auto
    then have "serves fin pend (backend_event s2) s3" "be_frame s3 s'"
      using runner_wait_serves [OF laws] running_frame(3) [where ?s0.0 = s3] by (blast, auto)
    then show ?thesis
      using serves_trans [OF serves_frame serves_trans [OF _ serves_frame]] by (metis be_frame_fields(6) be_frame_refl)
  qed (simp add: serves_frame)
  then show ?thesis
    using announcesI [OF wait_seq_end_serves [OF laws d(1)] d(2)] by blast
qed

context pulser_iface
begin

text \<open>A call that cannot fail, and only serves requests or announces one state.\<close>

lemma srv_serving:
  assumes "srv_ok inv fin pend cur st X k sv" and "okR m (\<lambda>x. ctrl_ok inv pend cur (c x) \<and> R x)"
    and "\<And>x. m = Inr x \<Longrightarrow> serves fin pend (sv_ctrl sv) (c x)"
  shows "okR m (\<lambda>x. srv_ok inv fin pend cur st X k (sv\<lparr>sv_ctrl := c x\<rparr>) \<and> R x)"
  using assms(2) by (rule okR_weaken) (use srv_ok_serves [OF assms(1)] assms(3) in auto)

lemma srv_announcing:
  assumes "srv_ok inv fin pend (Some a) (Some [x]) X k sv" and "next_state x y"
    and "okR m (\<lambda>z. ctrl_ok inv pend (Some a) (c z) \<and> R z)"
    and "\<And>z. m = Inr z \<Longrightarrow> announces fin pend a y (sv_ctrl sv) (c z)"
  shows "okR m (\<lambda>z. srv_ok inv fin pend (Some a) (Some [y]) X k (sv\<lparr>sv_ctrl := c z\<rparr>) \<and> R z)"
  using assms(3) by (rule okR_weaken) (use srv_ok_announces [OF assms(1) _ _ assms(2)] assms(4) in auto)

lemma idle_moves_ok:
  assumes E: "env_alone fin pend E" and P: "e_P E = P" and ok: "srv_ok inv fin pend None (Some []) {#} k sv"
  shows "okR (worker_move E fuel m (W_idle, sv_ctrl sv)) (\<lambda>(w, c). sys_ok inv fin pend k (sv\<lparr>sv_ctrl := c\<rparr>, w))"
proof -
  let ?c = "sv_ctrl sv"
  have c: "ctrl_ok inv pend None ?c"
    using srv_okD(2) [OF ok] by (simp add: both_ok_iff)
  note laws = env_aloneD(1) [OF E] and env = env_aloneD(3) [OF E]
  have idle: "okR (bindR f (\<lambda>x. Inr (W_idle, g x))) (\<lambda>(w, c). sys_ok inv fin pend k (sv\<lparr>sv_ctrl := c\<rparr>, w))"
    if "okR f (\<lambda>x. ctrl_ok inv pend None (g x))" and "\<And>x. f = Inr x \<Longrightarrow> serves fin pend ?c (g x)" for f :: "'z result" and g
    by (rule okR_bind [OF srv_serving [OF ok, where R = "\<lambda>_. True" and c = g]]) (use that in \<open>auto simp: sys_ok_def\<close>)
  show ?thesis
  proof (cases m)
    case M_poll
    have "okR (bindR (process_reqcmd E False (None, ?c)) (\<lambda>x. Inr (W_idle, snd (snd x))))
        (\<lambda>(w, c). sys_ok inv fin pend k (sv\<lparr>sv_ctrl := c\<rparr>, w))"
      by (rule idle, rule okR_weaken [OF process_reqcmd_okR [OF c env P]])
        (auto intro: process_reqcmd_serves [OF laws])
    then show ?thesis
      using M_poll by (simp add: split_def)
  next
    case M_sync
    let ?f = "bindR (p_get (p_is_finished P) ?c) (\<lambda>(fin, s1). if fin then sync_ttl P s1 else Inr s1)"
    have "okR (bindR ?f (\<lambda>x. Inr (W_idle, x))) (\<lambda>(w, c). sys_ok inv fin pend k (sv\<lparr>sv_ctrl := c\<rparr>, w))"
    proof (rule idle)
      have "okR (p_get (p_is_finished P) ?c) (\<lambda>(b, s). ctrl_ok inv pend None s)"
        by (rule okR_weaken [OF p_get_okR [of _ ?c inv]]) (use is_finished [OF ctrl_okD(1) [OF c]] port_post_ok [OF c] in auto)
      then show "okR ?f (ctrl_ok inv pend None)"
        by (rule okR_bind) (auto intro: okR_weaken [OF sync_ttl_okR])
      show "serves fin pend ?c x" if "?f = Inr x" for x
        using that by (auto simp: pulser_frame housekeeping_frame intro: serves_frame split: if_splits)
    qed
    then show ?thesis
      using M_sync P by (simp add: split_def bindR_assoc if_distrib cong: if_cong)
  next
    case M_detect
    have "okR (bindR (detect_if_idle E ?c) (\<lambda>x. Inr (W_idle, x))) (\<lambda>(w, c). sys_ok inv fin pend k (sv\<lparr>sv_ctrl := c\<rparr>, w))"
      by (rule idle [OF detect_if_idle_okR [OF P c]]) (auto simp: housekeeping_frame intro: serves_frame)
    then show ?thesis
      using M_detect by simp
  next
    case M_take
    show ?thesis
    proof (cases "get_seq (e_Q E) ?c")
      case None
      then show ?thesis
        using M_take ok by (simp add: sys_ok_def)
    next
      case (Some a)
      then have ok1: "srv_ok inv fin pend (Some a) (Some [SeqInit]) {#} k sv"
        by (intro srv_ok_take [OF ok]) (simp add: get_seq_def fqueue_lawsD(7) [OF laws])
      then have c1: "ctrl_ok inv pend (Some a) ?c"
        using srv_okD(2) [OF ok1] by (simp add: both_ok_iff)
      obtain seq where seq: "m_seq_store ?c a = Some seq"
        using ctrl_ok_seq [OF c1] by blast
      have "okR (set_seq_state a SeqCancel ?c)
          (\<lambda>c. srv_ok inv fin pend (Some a) (Some [SeqCancel]) {#} k (sv\<lparr>sv_ctrl := c\<rparr>) \<and> True)"
        by (rule srv_announcing [OF ok1]) (use set_seq_state_okR [OF c1] in \<open>auto simp: next_state_def intro: announcesI [OF serves_refl _ serves_refl]\<close>)
      then have "okR (bindR (set_seq_state a SeqCancel ?c) (\<lambda>s'. Inr (W_done a SeqCancel, s')))
          (\<lambda>(w, c). sys_ok inv fin pend k (sv\<lparr>sv_ctrl := c\<rparr>, w))"
        by (rule okR_bind) (simp add: sys_ok_def)
      then show ?thesis
        using M_take Some seq ok1 by (simp add: sys_ok_def)
    qed
  qed (use ok in \<open>simp_all add: sys_ok_def\<close>)
qed

lemma start_ok:
  assumes E: "env_alone fin pend E" and P: "e_P E = P" and ok: "srv_ok inv fin pend (Some a) (Some [SeqInit]) {#} k sv"
  shows "okR (worker_move E fuel M_start (W_taken a, sv_ctrl sv)) (\<lambda>(w, c). sys_ok inv fin pend k (sv\<lparr>sv_ctrl := c\<rparr>, w))"
proof -
  let ?c = "sv_ctrl sv"
  have c: "ctrl_ok inv pend (Some a) ?c"
    using srv_okD(2) [OF ok] by (simp add: both_ok_iff)
  have "okR (run_seq_begin E fuel a ?c)
      (\<lambda>s1. srv_ok inv fin pend (Some a) (Some [SeqStart]) {#} k (sv\<lparr>sv_ctrl := s1\<rparr>) \<and> True)"
    by (rule srv_announcing [OF ok])
      (use run_seq_begin_okR [OF env_aloneD(3) [OF E] P c] run_seq_begin_announces [OF E] in \<open>simp_all add: next_state_def\<close>)
  then show ?thesis
    unfolding worker_move.simps
  proof (rule okR_bind, clarsimp, goal_cases)
    case (1 s1)
    have s1: "ctrl_ok inv pend (Some a) s1"
      using srv_okD(2) [OF 1(2)] by (simp add: both_ok_iff)
    then obtain seq where seq: "m_seq_store s1 a = Some seq" "valid_seq seq"
      using ctrl_ok_seq by blast
    obtain r s2 where r: "Runner E (rs_ttl_mask seq) (rs_seq_len_ns seq) s1 = (r, s2)"
      by fastforce
    then have "run_ok inv pend (Some a) (r, s2)" "serves fin pend s1 s2"
      using Runner_run_ok [OF s1, of "rs_ttl_mask seq" E "rs_seq_len_ns seq"] seq(2)
      by (simp add: valid_seq_def) (use r in \<open>auto simp: Runner_def getCoarseTime_def intro: serves_frame\<close>)
    then have "sys_ok inv fin pend k (sv\<lparr>sv_ctrl := s2\<rparr>, W_running a (rs_is_cmd seq) r)"
      using srv_ok_serves [OF 1(2), of s2] by (simp add: sys_ok_def)
    then show ?case
      using seq r by (simp add: valid_seq_def)
  qed
qed

lemma running_moves_ok:
  assumes E: "env_alone fin pend E" and P: "e_P E = P" and r: "runner_ok r"
    and ok: "srv_ok inv fin pend (Some a) (Some [SeqStart]) {#} k sv"
  shows "valid_call cl \<Longrightarrow> okR (worker_move E fuel (M_call cl) (W_running a b r, sv_ctrl sv)) (\<lambda>(w, c). sys_ok inv fin pend k (sv\<lparr>sv_ctrl := c\<rparr>, w))"
    and "okR (worker_move E fuel (M_flush err) (W_running a b r, sv_ctrl sv)) (\<lambda>(w, c). sys_ok inv fin pend k (sv\<lparr>sv_ctrl := c\<rparr>, w))"
proof -
  note env = env_aloneD(3) [OF E]
  have c: "run_ok inv pend (Some a) (r, sv_ctrl sv)"
    using srv_okD(2) [OF ok] r by (simp add: both_ok_iff)
  show "okR (worker_move E fuel (M_call cl) (W_running a b r, sv_ctrl sv)) (\<lambda>(w, c). sys_ok inv fin pend k (sv\<lparr>sv_ctrl := c\<rparr>, w))"
    if v: "valid_call cl"
  proof -
    have "okR (run_call E fuel cl (r, sv_ctrl sv))
        (\<lambda>x. srv_ok inv fin pend (Some a) (Some [SeqStart]) {#} k (sv\<lparr>sv_ctrl := snd x\<rparr>) \<and> runner_ok (fst x))"
      by (rule srv_serving [OF ok], rule okR_weaken [OF run_call_okR [OF env P c v]])
        (auto intro: run_call_serves [OF env_aloneD(1,2) [OF E]])
    then show ?thesis
      unfolding worker_move.simps by (rule okR_bind) (auto simp: sys_ok_def)
  qed
  let ?s = "case err of None \<Rightarrow> sv_ctrl sv | Some msg \<Rightarrow> log_line (LogSeqError msg) (sv_ctrl sv)"
  have s: "run_ok inv pend (Some a) (r, ?s)" "serves fin pend (sv_ctrl sv) ?s"
    using c by (auto split: option.split intro: serves_frame)
  have sv: "srv_ok inv fin pend (Some a) (Some [SeqStart]) {#} k (sv\<lparr>sv_ctrl := ?s\<rparr>)"
    by (rule srv_ok_serves [OF ok s(2)]) (use s(1) in simp)
  have "okR (run_seq_flush E fuel a b (r, ?s)) (\<lambda>x. srv_ok inv fin pend (Some a) (Some [SeqFlushed]) {#} k
      ((sv\<lparr>sv_ctrl := ?s\<rparr>)\<lparr>sv_ctrl := snd x\<rparr>) \<and> runner_ok (fst x))"
    by (rule srv_announcing [OF sv], simp add: next_state_def, rule okR_weaken [OF run_seq_flush_okR [OF env P s(1)]])
      (auto intro: run_seq_flush_announces [OF E])
  then show "okR (worker_move E fuel (M_flush err) (W_running a b r, sv_ctrl sv)) (\<lambda>(w, c). sys_ok inv fin pend k (sv\<lparr>sv_ctrl := c\<rparr>, w))"
    unfolding worker_move.simps by (rule okR_bind) (auto simp: sys_ok_def)
qed

lemma flushed_moves_ok:
  assumes E: "env_alone fin pend E" and P: "e_P E = P" and r: "runner_ok r"
    and ok: "srv_ok inv fin pend (Some a) (Some [SeqFlushed]) {#} k sv"
  shows "okR (worker_move E fuel M_poll (W_flushed a b r, sv_ctrl sv)) (\<lambda>(w, c). sys_ok inv fin pend k (sv\<lparr>sv_ctrl := c\<rparr>, w))"
    and "okR (worker_move E fuel M_finish (W_flushed a b r, sv_ctrl sv)) (\<lambda>(w, c). sys_ok inv fin pend k (sv\<lparr>sv_ctrl := c\<rparr>, w))"
proof -
  note env = env_aloneD(3) [OF E]
  have c: "run_ok inv pend (Some a) (r, sv_ctrl sv)"
    using srv_okD(2) [OF ok] r by (simp add: both_ok_iff)
  have "okR (process_reqcmd E False (Some r, sv_ctrl sv)) (\<lambda>x. srv_ok inv fin pend (Some a) (Some [SeqFlushed]) {#} k
      (sv\<lparr>sv_ctrl := snd (snd x)\<rparr>) \<and> (\<exists>r'. fst (snd x) = Some r' \<and> runner_ok r'))"
    by (rule srv_serving [OF ok], rule okR_weaken [OF process_reqcmd_okR [OF _ env P]])
      (use c in \<open>auto simp: option_rel_Some1 intro: runner_like_ok process_reqcmd_serves [OF env_aloneD(1) [OF E]]\<close>)
  then show "okR (worker_move E fuel M_poll (W_flushed a b r, sv_ctrl sv)) (\<lambda>(w, c). sys_ok inv fin pend k (sv\<lparr>sv_ctrl := c\<rparr>, w))"
    unfolding worker_move.simps by (rule okR_bind) (auto simp: sys_ok_def)
  have "okR (run_seq_finish E fuel a b (r, sv_ctrl sv)) (\<lambda>x. srv_ok inv fin pend (Some a) (Some [SeqEnd]) {#} k
      (sv\<lparr>sv_ctrl := snd x\<rparr>) \<and> True)"
    by (rule srv_announcing [OF ok], simp add: next_state_def, rule okR_weaken [OF run_seq_finish_okR [OF env P c]])
      (auto intro: run_seq_finish_announces [OF E])
  then show "okR (worker_move E fuel M_finish (W_flushed a b r, sv_ctrl sv)) (\<lambda>(w, c). sys_ok inv fin pend k (sv\<lparr>sv_ctrl := c\<rparr>, w))"
    unfolding worker_move.simps by (rule okR_bind) (auto simp: sys_ok_def)
qed

lemma worker_move_ok:
  assumes E: "env_alone fin pend E" and P: "e_P E = P" and ok: "sys_ok inv fin pend k (sv, w)"
    and m: "\<And>c. m = M_call c \<Longrightarrow> valid_call c"
  shows "okR (worker_move E fuel m (w, sv_ctrl sv)) (\<lambda>(w, c). sys_ok inv fin pend k (sv\<lparr>sv_ctrl := c\<rparr>, w))"
proof (cases w)
  case W_idle
  then show ?thesis
    using idle_moves_ok [OF E P] ok by (simp add: sys_ok_def)
next
  case (W_taken a)
  then have sv: "srv_ok inv fin pend (Some a) (Some [SeqInit]) {#} k sv"
    using ok by (simp add: sys_ok_def)
  then have c: "ctrl_ok inv pend (Some a) (sv_ctrl sv)"
    using srv_okD(2) [OF sv] by (simp add: both_ok_iff)
  have "okR (try_get_result E False (sv_ctrl sv))
      (\<lambda>x. srv_ok inv fin pend (Some a) (Some [SeqInit]) {#} k (sv\<lparr>sv_ctrl := snd x\<rparr>) \<and> True)"
    by (rule srv_serving [OF sv], rule okR_weaken [OF try_get_result_okR [OF c env_aloneD(1) [OF E] P]])
      (auto intro: try_get_result_serves [OF env_aloneD(1) [OF E]])
  then have "okR (worker_move E fuel M_poll (W_taken a, sv_ctrl sv)) (\<lambda>(w, c). sys_ok inv fin pend k (sv\<lparr>sv_ctrl := c\<rparr>, w))"
    unfolding worker_move.simps by (rule okR_bind) (auto simp: sys_ok_def)
  then show ?thesis
    using start_ok [OF E P sv] ok W_taken by (cases m) simp_all
next
  case (W_running a b r)
  then have "runner_ok r" "srv_ok inv fin pend (Some a) (Some [SeqStart]) {#} k sv"
    using ok by (simp_all add: sys_ok_def)
  then show ?thesis
    using running_moves_ok [OF E P] ok m W_running by (cases m) simp_all
next
  case (W_flushed a b r)
  then have "runner_ok r" "srv_ok inv fin pend (Some a) (Some [SeqFlushed]) {#} k sv"
    using ok by (simp_all add: sys_ok_def)
  then show ?thesis
    using flushed_moves_ok [OF E P] ok W_flushed by (cases m) simp_all
next
  case (W_cleanup a)
  then have sv: "srv_ok inv fin pend (Some a) (Some [SeqEnd]) {#} k sv"
    using ok by (simp add: sys_ok_def)
  then have "okR (run_seq_cleanup E (sv_ctrl sv)) (\<lambda>c. srv_ok inv fin pend (Some a) (Some [SeqEnd]) {#} k (sv\<lparr>sv_ctrl := c\<rparr>) \<and> True)"
    using run_seq_cleanup_okR [OF P, of pend "Some a" "sv_ctrl sv"] srv_okD(2) [OF sv]
    by (intro srv_serving) (auto simp: both_ok_iff housekeeping_frame intro: serves_frame)
  then have "okR (bindR (run_seq_cleanup E (sv_ctrl sv)) (\<lambda>s'. Inr (W_done a SeqEnd, s')))
      (\<lambda>(w, c). sys_ok inv fin pend k (sv\<lparr>sv_ctrl := c\<rparr>, w))"
    by (rule okR_bind) (simp add: sys_ok_def)
  then show ?thesis
    using ok W_cleanup by (cases m) simp_all
next
  case (W_done a st)
  then show ?thesis
    using srv_ok_release [OF _ env_aloneD(1) [OF E]] ok by (cases m) (auto simp: sys_ok_def)
qed

lemma turn_ok:
  assumes V: "env_fits P fin pend V" and ok: "srv_ok inv fin pend cur st {#} k sv" and k: "k \<noteq> -1"
    and W: "v_worker V = (\<lambda>c. c)" and safe: "\<And>addr parts. msg = Some (addr, parts) \<Longrightarrow> safe_request V parts"
  shows "totR (run_turn V msg sv) (\<lambda>sv'. srv_ok inv fin pend cur st {#} k sv' \<or> srv_ok inv fin pend cur st {#} (k + 1) sv')"
  unfolding run_turn_def W
proof (rule totR_bind [where R = "srv_ok inv fin pend cur st {#} k"])
  show "totR (ctrl_do V (run_frontend (v_Q V)) (sv\<lparr>sv_ctrl := sv_ctrl sv\<rparr>)) (srv_ok inv fin pend cur st {#} k)"
    using front.poll_ok [OF V ok] by simp
  fix sv1
  assume "srv_ok inv fin pend cur st {#} k sv1"
  then show "totR (case msg of None \<Rightarrow> Inr sv1 | Some (addr, parts) \<Rightarrow> process_zmq V addr parts sv1)
      (\<lambda>sv'. srv_ok inv fin pend cur st {#} k sv' \<or> srv_ok inv fin pend cur st {#} (k + 1) sv')"
    using safe front.process_zmq_ok [OF V _ k] by (cases msg) auto
qed

lemma sys_step_ok:
  assumes V: "env_fits P fin pend V" "v_worker V = (\<lambda>c. c)" and E: "env_alone fin pend E" "e_P E = P"
    and e: "safe_event V e" and ok: "sys_ok inv fin pend k x" and k: "k \<noteq> -1"
  shows "okR (sys_step V E fuel e x) (\<lambda>y. sys_ok inv fin pend k y \<or> sys_ok inv fin pend (k + 1) y)"
proof -
  obtain sv w where x: "x = (sv, w)"
    by fastforce
  show ?thesis
  proof (cases e)
    case (Serve msg)
    have "okR (run_turn V msg sv) (\<lambda>sv'. sys_ok inv fin pend k (sv', w) \<or> sys_ok inv fin pend (k + 1) (sv', w))"
      by (rule totR_okR, rule totR_weaken [OF turn_ok [OF V(1) _ k V(2)]])
        (use ok e in \<open>auto simp: x sys_ok_def Serve safe_event_def\<close>)
    then show ?thesis
      unfolding sys_step_def x Serve by simp (erule okR_bind, simp)
  next
    case (Move m)
    have "okR (worker_move E fuel m (w, sv_ctrl sv)) (\<lambda>(w, c). sys_ok inv fin pend k (sv\<lparr>sv_ctrl := c\<rparr>, w))"
      by (rule worker_move_ok [OF E]) (use ok e in \<open>auto simp: x Move safe_event_def\<close>)
    then show ?thesis
      unfolding sys_step_def x Move by simp (erule okR_bind, auto)
  qed
qed

lemma sys_run_ok:
  assumes V: "env_fits P fin pend V" "v_worker V = (\<lambda>c. c)" and E: "env_alone fin pend E" "e_P E = P"
    and "list_all (safe_event V) es" and "sys_ok inv fin pend k x" and "unat k + length es < 2 ^ 64"
  shows "okR (sys_run V E fuel es x) (\<lambda>y. \<exists>k. sys_ok inv fin pend k y)"
  using assms(5-)
proof (induction es arbitrary: x k)
  case (Cons e es)
  have k: "k \<noteq> -1"
    using Cons.prems(3) by (auto simp: unsigned_minus_1_eq_mask mask_eq_exp_minus_1)
  then have "1 + k \<noteq> 0"
    by (simp add: add_eq_0_iff)
  then have k1: "unat (k + 1) + length es < 2 ^ 64"
    using Cons.prems(3) unatSuc [of k] by (simp add: add.commute)
  have "okR (sys_step V E fuel e x) (\<lambda>y. sys_ok inv fin pend k y \<or> sys_ok inv fin pend (k + 1) y)"
    by (rule sys_step_ok [OF V E _ Cons.prems(2) k]) (use Cons.prems(1) in simp)
  then have "okR (bindR (sys_step V E fuel e x) (sys_run V E fuel es)) (\<lambda>y. \<exists>k. sys_ok inv fin pend k y)"
    by (rule okR_bind) (use Cons.IH k1 Cons.prems in auto)
  then show ?case
    by (simp add: sys_run_def)
qed (auto simp: sys_run_def)

end

section \<open>An instance\<close>

definition small_worker :: "(addr list \<times> addr list, scb, nat, dummy_pulser) ctrl_env" where
  "small_worker = \<lparr>e_P = dummy_ops unit_times, e_Q = list_fqueue, e_pt = unit_times, e_res = 1000000,
     e_setBit = (\<lambda>w i b. if b then w OR push_bit (unat i) 1 else w AND NOT (push_bit (unat i) 1)),
     e_frontend = (\<lambda>s. s)\<rparr>"

text \<open>A sequence that is run while one of its channels is asked for, and another that is cancelled before it starts.\<close>

definition small_events :: "event list" where
  "small_events =
     [Serve (Some ([[1]], [ascii ''run_seq'', [3, 0, 0, 0], [10, 0, 0, 0, 0, 0, 0, 0, 1, 0, 0, 0, 0xff, 0, 0, 0, 7]])),
      Move M_take, Move M_start, Move (M_call (R_ttl 5 100 0)), Serve (Some ([[2]], [ascii ''get_dds''])),
      Move (M_call (R_dds_freq 1 0x1234)),
      Serve (Some ([[1]], [ascii ''run_seq'', [3, 0, 0, 0], [10, 0, 0, 0, 0, 0, 0, 0, 1, 0, 0, 0, 0xff, 0, 0, 0, 7]])),
      Move (M_flush None), Serve None, Move M_poll, Serve (Some ([[1]], [ascii ''cancel_seq''])), Move M_finish, Move M_cleanup,
      Move M_release, Move M_take, Serve None, Move M_release, Serve None, Move M_detect]"

section \<open>Properties\<close>

lemma sys_ok_server: "sys_ok I fin pend k (sv, w) \<Longrightarrow> server_ok I fin pend sv"
  using srv_ok_forget by (fastforce simp: sys_ok_def intro: server_okI)

lemma sys_ok_init:
  assumes "server_ok I fin pend sv" and "\<forall>st \<in> set (states_of pend (sv_ctrl sv)). st = SeqInit"
  shows "sys_ok I fin pend (m_seq_cnt (sv_ctrl sv)) (sv, W_idle)"
proof -
  have "states_of pend (sv_ctrl sv) = replicate (length (states_of pend (sv_ctrl sv))) SeqInit"
    using assms(2) by (simp add: replicate_length_same)
  then have "states_ok pend (Some []) (sv_ctrl sv)"
    by (auto simp: states_ok_def)
  then show ?thesis
    using assms(1) by (simp add: server_ok_def srv_ok_def srv_core_def sys_ok_def)
qed



end
