(* ===== verification/Runtime_Dir.thy ===== *)
theory Runtime_Dir
  imports Prelude
begin

text \<open>
  \<^verbatim>\<open>Server::ensure_runtime_dir\<close> of \<^verbatim>\<open>lib/server.cpp\<close>: the directories that are created at the start. The
  pointer \<^verbatim>\<open>p\<close> into the copy \<^verbatim>\<open>dir\<close> of the path is the pair of what is before it and what is after it.
\<close>

section \<open>The loop\<close>

abbreviation is_slash :: "char \<Rightarrow> bool" where
  "is_slash c \<equiv> c = CHR ''/''"

lemma skip_round_less:
  assumes "dropWhile is_slash rest \<noteq> []"
  shows "length (dropWhile (\<lambda>c. \<not> is_slash c) (dropWhile is_slash rest)) < length rest"
proof -
  obtain c cs where c: "dropWhile is_slash rest = c # cs"
    using assms by (cases "dropWhile is_slash rest") simp_all
  moreover have "\<not> is_slash c"
    using hd_dropWhile [OF assms] c by simp
  ultimately have "length (dropWhile (\<lambda>c. \<not> is_slash c) (c # cs)) < length (c # cs)"
    using length_dropWhile_le [of _ cs] by (simp add: le_imp_less_Suc)
  then show ?thesis
    using c length_dropWhile_le [of is_slash rest] by simp
qed

text \<open>
  One round skips slashes and then a name, and calls \<^verbatim>\<open>mkdir(start)\<close> with the path cut there. The
  paths are returned in the order of the calls; the results of \<^verbatim>\<open>mkdir\<close> are ignored.
\<close>

function mkdir_loop :: "string \<Rightarrow> string \<Rightarrow> string list" where
  "mkdir_loop pre rest =
     (let pre1 = pre @ takeWhile is_slash rest; rest1 = dropWhile is_slash rest
      in if rest1 = [] then []
         else let pre2 = pre1 @ takeWhile (\<lambda>c. \<not> is_slash c) rest1; rest2 = dropWhile (\<lambda>c. \<not> is_slash c) rest1
              in pre2 # (if rest2 = [] then [] else mkdir_loop pre2 rest2))"
  by pat_completeness auto
termination
  by (relation "measure (\<lambda>(pre, rest). length rest)", simp, hypsubst,
      simp only: in_measure split_conv, erule skip_round_less)

declare mkdir_loop.simps [simp del]

text \<open>
  \<^verbatim>\<open>stat\<close> gives the mode of the file, if there is one. A NUL ends the path. The second component
  says whether the error is logged.
\<close>

definition S_IFDIR :: u32 where
  "S_IFDIR = 0x4000"

definition ensure_runtime_dir :: "u32 option \<Rightarrow> string \<Rightarrow> string list \<times> bool" where
  "ensure_runtime_dir st_mode dir =
     (case st_mode of
        None \<Rightarrow> (mkdir_loop [] (takeWhile (\<lambda>c. c \<noteq> CHR 0x00) dir), False)
      | Some m \<Rightarrow> ([], m AND S_IFDIR = 0))"

section \<open>The reference\<close>

text \<open>The path up to the end of each of its names.\<close>

definition name_end :: "string \<Rightarrow> nat \<Rightarrow> bool" where
  "name_end dir n \<longleftrightarrow> 0 < n \<and> n \<le> length dir \<and> \<not> is_slash (dir ! (n - 1)) \<and> (n < length dir \<longrightarrow> is_slash (dir ! n))"

definition parent_dirs :: "string \<Rightarrow> string list" where
  "parent_dirs dir = map (\<lambda>n. take n dir) (filter (name_end dir) [0 ..< Suc (length dir)])"

lemma filter_upt_skip:
  assumes "\<forall>n. i \<le> n \<longrightarrow> n < j \<longrightarrow> \<not> P n" and "i \<le> j"
  shows "filter P [i ..< k] = filter P [j ..< k]"
proof (cases "j \<le> k")
  case True
  have "[i ..< k] = [i ..< j] @ [j ..< k]"
    using assms(2) True by (metis upt_add_eq_append le_add_diff_inverse)
  moreover have "filter P [i ..< j] = []"
    using assms(1) by (auto simp: filter_empty_conv)
  ultimately show ?thesis
    by simp
next
  case False
  then have "filter P [i ..< k] = []" "filter P [j ..< k] = []"
    using assms(1) by (auto simp: filter_empty_conv)
  then show ?thesis
    by simp
qed

lemma filter_upt_first:
  assumes "\<forall>n. i \<le> n \<longrightarrow> n < j \<longrightarrow> \<not> P n" and "i \<le> j" and "P j" and "j < k"
  shows "filter P [i ..< k] = j # filter P [Suc j ..< k]"
  using filter_upt_skip [OF assms(1,2), of k] assms(3,4) by (simp add: upt_conv_Cons)

text \<open>The rounds that are left after \<open>pre\<close> find the ends that are behind it.\<close>

lemma mkdir_loop_ends:
  assumes "pre = [] \<or> (\<not> is_slash (last pre) \<and> rest \<noteq> [] \<and> is_slash (hd rest))"
  shows "mkdir_loop pre rest =
     map (\<lambda>n. take n (pre @ rest)) (filter (name_end (pre @ rest)) [Suc (length pre) ..< Suc (length (pre @ rest))])"
  using assms
proof (induction pre rest rule: mkdir_loop.induct)
  case (1 pre rest)
  define s where "s = takeWhile is_slash rest"
  define r where "r = dropWhile is_slash rest"
  define m where "m = takeWhile (\<lambda>c. \<not> is_slash c) r"
  define q where "q = dropWhile (\<lambda>c. \<not> is_slash c) r"
  have rest: "rest = s @ r" "r = m @ q"
    by (simp_all add: s_def r_def m_def q_def)
  have s: "\<forall>c \<in> set s. is_slash c"
    by (auto simp: s_def dest: set_takeWhileD)
  have m: "\<forall>c \<in> set m. \<not> is_slash c"
    by (auto simp: m_def dest: set_takeWhileD)
  let ?d = "pre @ rest" and ?i = "length pre + length s" and ?j = "length pre + length s + length m"
  have in_s: "\<not> name_end ?d n" if "Suc (length pre) \<le> n" "n \<le> ?i" for n
  proof -
    have "?d ! (n - 1) \<in> set s"
      using that by (auto simp: rest nth_append)
    then show ?thesis
      using s by (simp add: name_end_def)
  qed
  show ?case
  proof (cases "r = []")
    case True
    then have "filter (name_end ?d) [Suc (length pre) ..< Suc (length ?d)] = []"
      using in_s rest by (auto simp: filter_empty_conv)
    then show ?thesis
      using True by (subst mkdir_loop.simps) (simp add: r_def [symmetric])
  next
    case False
    have "\<not> is_slash (hd r)"
      using False hd_dropWhile unfolding r_def by blast
    then have m_ne: "m \<noteq> []"
      using False by (cases r) (auto simp: m_def)
    have in_m: "\<not> name_end ?d n" if "?i < n" "n < ?j" for n
    proof -
      have "?d ! n \<in> set m"
        using that by (auto simp: rest nth_append)
      then show ?thesis
        using m that by (auto simp: name_end_def rest)
    qed
    have last_m: "?d ! (?j - 1) = last m"
    proof -
      have j: "?j - 1 = length (pre @ s) + (length m - 1)" and d: "?d = (pre @ s) @ m @ q"
        using m_ne by (simp_all add: Suc_leI rest)
      have "?d ! (?j - 1) = (m @ q) ! (length m - 1)"
        unfolding j d by (rule nth_append_length_plus)
      also have "\<dots> = last m"
        using m_ne by (simp add: nth_append last_conv_nth)
      finally show ?thesis .
    qed
    have q: "q \<noteq> [] \<Longrightarrow> is_slash (hd q)"
      using hd_dropWhile [of "\<lambda>c. \<not> is_slash c" r] by (simp add: q_def)
    have end_m: "name_end ?d ?j"
      using m_ne m last_m q by (auto simp: name_end_def rest nth_append hd_conv_nth)
    have "\<forall>n. Suc (length pre) \<le> n \<longrightarrow> n < ?j \<longrightarrow> \<not> name_end ?d n"
      using in_s in_m by (meson not_le)
    moreover have "Suc (length pre) \<le> ?j"
      using m_ne by (cases m) auto
    moreover have "?j < Suc (length ?d)"
      by (simp add: rest)
    ultimately have first: "filter (name_end ?d) [Suc (length pre) ..< Suc (length ?d)] =
        ?j # filter (name_end ?d) [Suc ?j ..< Suc (length ?d)]"
      using end_m by (intro filter_upt_first)
    have step: "mkdir_loop pre rest = (pre @ s @ m) # (if q = [] then [] else mkdir_loop (pre @ s @ m) q)"
      unfolding mkdir_loop.simps [of pre rest] Let_def s_def [symmetric] r_def [symmetric]
        m_def [symmetric] q_def [symmetric]
      using False by simp
    show ?thesis
    proof (cases "q = []")
      case True
      then show ?thesis
        by (simp only: step first) (simp add: rest)
    next
      case q_ne: False
      have "mkdir_loop (pre @ s @ m) q = map (\<lambda>n. take n ((pre @ s @ m) @ q))
          (filter (name_end ((pre @ s @ m) @ q)) [Suc (length (pre @ s @ m)) ..< Suc (length ((pre @ s @ m) @ q))])"
        using "1.IH" [OF refl refl _ refl refl] False q_ne q m m_ne
        by (simp only: s_def [symmetric] r_def [symmetric] m_def [symmetric] q_def [symmetric]) simp
      then show ?thesis
        using q_ne by (simp only: step first) (simp add: rest add.assoc del: upt_Suc)
    qed
  qed
qed

section \<open>Properties\<close>

text \<open>
  C39: when the runtime directory does not exist, the loop creates exactly its ancestors and itself,
  each once, from the root down, and never reads past the end of the path.
\<close>

theorem runtime_dir_created:
  assumes "CHR 0x00 \<notin> set dir"
  shows "ensure_runtime_dir None dir = (parent_dirs dir, False)"
proof -
  have "ensure_runtime_dir None dir = (mkdir_loop [] dir, False)"
  proof -
    have "takeWhile (\<lambda>c. c \<noteq> CHR 0x00) dir = dir"
      by (rule takeWhile_eq_all_conv [THEN iffD2]) (use assms in auto)
    then show ?thesis
      unfolding ensure_runtime_dir_def by (simp only: option.case)
  qed
  moreover have "filter (name_end dir) [0 ..< Suc (length dir)] = filter (name_end dir) [Suc 0 ..< Suc (length dir)]"
    by (rule filter_upt_skip) (auto simp: name_end_def)
  ultimately show ?thesis
    using mkdir_loop_ends [of "[]" dir] by (simp add: parent_dirs_def del: upt_Suc)
qed

theorem runtime_dir_created_witness:
  "ensure_runtime_dir None ''/var//lib/'' = ([''/var'', ''/var//lib''], False)"
proof -
  have "parent_dirs ''/var//lib/'' = [''/var'', ''/var//lib'']"
    by code_simp
  then show ?thesis
    using runtime_dir_created [of "''/var//lib/''"] by simp
qed

end
